(* ===== verification/Prelude.thy ===== *)
theory Prelude
  imports Main "HOL-Library.Word"
begin

text \<open>
  Shared vocabulary of the development: the C integer types as machine words, the bit-field
  helpers of \<^verbatim>\<open>include/qemu/bitops.h\<close> and \<^verbatim>\<open>include/qemu/host-utils.h\<close>
  that the Xtensa sources call, the result type of a helper that may leave through
  \<^verbatim>\<open>cpu_loop_exit\<close> or a failed \<^verbatim>\<open>assert\<close>, and the generic lemmas on
  words, bits and lists that the component theories share.
\<close>

unbundle bit_operations_syntax

section \<open>C integer types\<close>

type_synonym u8 = "8 word"
type_synonym u32 = "32 word"
type_synonym u64 = "64 word"

section \<open>Collections used by the component proofs\<close>

named_theorems config_simps \<open>projections of concrete core configurations\<close>
named_theorems frame_simps \<open>state fields an operation leaves alone\<close>
named_theorems field_defs \<open>instruction-field and operand codecs\<close>

section \<open>Bit-field helpers (bitops.h, host-utils.h)\<close>

text \<open>\<^verbatim>\<open>extract32(value, start, length)\<close>, for arguments that pass its assertion.\<close>

definition extract32 :: "u32 \<Rightarrow> nat \<Rightarrow> nat \<Rightarrow> u32" where
  "extract32 value start len =
     drop_bit start value AND drop_bit (32 - len) (NOT 0)"

definition sextract32 :: "u32 \<Rightarrow> nat \<Rightarrow> nat \<Rightarrow> u32" where
  "sextract32 value start len =
     signed_drop_bit (32 - len) (push_bit (32 - len - start) value)"

definition deposit32 :: "u32 \<Rightarrow> nat \<Rightarrow> nat \<Rightarrow> u32 \<Rightarrow> u32" where
  "deposit32 value start len fieldval =
     (let mask = push_bit start (drop_bit (32 - len) (NOT 0)) in
      (value AND NOT mask) OR (push_bit start fieldval AND mask))"

text \<open>
  \<^verbatim>\<open>ctz32\<close> and \<^verbatim>\<open>clz32\<close> count from bit 0 and from bit 31; both return 32
  for zero, as the guards in \<^verbatim>\<open>host-utils.h\<close> make them do.
\<close>

fun ctz_from :: "nat \<Rightarrow> nat \<Rightarrow> u32 \<Rightarrow> nat" where
  "ctz_from 0 i v = i"
| "ctz_from (Suc k) i v = (if bit v i then i else ctz_from k (Suc i) v)"

definition ctz32 :: "u32 \<Rightarrow> nat" where
  "ctz32 v = ctz_from 32 0 v"

fun clz_from :: "nat \<Rightarrow> u32 \<Rightarrow> nat" where
  "clz_from 0 v = 32"
| "clz_from (Suc k) v = (if bit v k then 31 - k else clz_from k v)"

definition clz32 :: "u32 \<Rightarrow> nat" where
  "clz32 v = clz_from 32 v"

definition clo32 :: "u32 \<Rightarrow> nat" where
  "clo32 v = clz32 (NOT v)"

section \<open>Results of helpers\<close>

text \<open>
  A helper returns a value and the new state, leaves through \<^verbatim>\<open>cpu_loop_exit\<close>
  (a \<^verbatim>\<open>longjmp\<close> to the execution loop that keeps the state it has reached), or
  fails an \<^verbatim>\<open>assert\<close>.
\<close>

datatype ('s, 'a) outcome = Ret 'a 's | LoopExit 's | AssertFail

fun obind :: "('s, 'a) outcome \<Rightarrow> ('a \<Rightarrow> 's \<Rightarrow> ('s, 'b) outcome) \<Rightarrow> ('s, 'b) outcome" where
  "obind (Ret a s) k = k a s"
| "obind (LoopExit s) k = LoopExit s"
| "obind AssertFail k = AssertFail"

lemma obind_assoc: "obind (obind m f) g = obind m (\<lambda>a s. obind (f a s) g)"
  by (cases m) auto

lemma obind_ret [simp]: "obind m Ret = m"
  by (cases m) auto

lemma obind_eq_Ret:
  "obind m k = Ret b s \<longleftrightarrow> (\<exists>a s'. m = Ret a s' \<and> k a s' = Ret b s)"
  by (cases m) auto

section \<open>Lemmas on words and bits\<close>

lemma bit_ones32 [simp]: "bit (NOT 0 :: u32) n \<longleftrightarrow> n < 32"
  by (auto simp: bit_simps)

lemma bit_extract32:
  assumes "start + len \<le> 32"
  shows "bit (extract32 v start len) n \<longleftrightarrow> n < len \<and> bit v (start + n)"
  using assms by (auto simp: extract32_def bit_simps)

lemma bit_deposit32:
  assumes "start + len \<le> 32"
  shows "bit (deposit32 v start len f) n \<longleftrightarrow>
    (if start \<le> n \<and> n < start + len then bit f (n - start) else bit v n)"
  using assms by (auto simp: deposit32_def Let_def bit_simps dest: bit_imp_le_length)

lemma extract_deposit32:
  assumes "start + len \<le> 32"
  shows "extract32 (deposit32 v start len f) start len = take_bit len f"
  using assms by (intro bit_word_eqI) (auto simp: bit_extract32 bit_deposit32 bit_take_bit_iff)

lemma deposit_extract32:
  assumes "start + len \<le> 32"
  shows "deposit32 v start len (extract32 v start len) = v"
  using assms by (intro bit_word_eqI) (auto simp: bit_extract32 bit_deposit32)

text \<open>Unsigned values of shifted, masked and concatenated words.\<close>

lemma unat_take_bit: "unat (take_bit n w) = unat w mod 2 ^ n" for w :: "'a::len word"
  unfolding unsigned_take_bit_eq by (rule take_bit_eq_mod)

lemma unat_and_mask: "unat (w AND mask n) = unat w mod 2 ^ n" for w :: "'a::len word"
  unfolding take_bit_eq_mask [symmetric] by (rule unat_take_bit)

lemma unat_drop_bit: "unat (drop_bit n w) = unat w div 2 ^ n" for w :: "'a::len word"
  unfolding unat_drop_bit_eq by (rule drop_bit_eq_div)

lemma unat_push_bit_small:
  fixes w :: "'a::len word"
  assumes "unat w * 2 ^ n < 2 ^ LENGTH('a)"
  shows "unat (push_bit n w) = unat w * 2 ^ n"
  unfolding unsigned_push_bit_eq
  using assms by (simp only: push_bit_eq_mult take_bit_eq_mod mod_less)

lemma and_pow_eq_0: "w AND 2 ^ n = 0 \<longleftrightarrow> even (unat w div 2 ^ n)" for w :: "'a::len word"
proof -
  have "bit w n \<longleftrightarrow> odd (unat w div 2 ^ n)"
    using bit_unsigned_iff [where ?'a = nat, of w n] by (auto simp: bit_iff_odd dest: bit_imp_le_length)
  then show ?thesis by (simp add: and_exp_eq_0_iff_not_bit)
qed

lemma unat_ucast_up:
  "LENGTH('a) \<le> LENGTH('b) \<Longrightarrow> unat (ucast w :: 'b::len word) = unat w" for w :: "'a::len word"
  unfolding unsigned_ucast_eq by (rule take_bit_nat_eq_self) (metis less_le_trans one_le_numeral power_increasing unsigned_less)

lemma unat_concat:
  fixes a b :: "'a::len word"
  assumes "unat b < 2 ^ n" "unat a * 2 ^ n + unat b < 2 ^ LENGTH('a)"
  shows "unat (push_bit n a OR b) = unat a * 2 ^ n + unat b"
proof -
  have "take_bit n b = b"
    using assms(1) by (simp add: word_unat_eq_iff unat_take_bit)
  then have "push_bit n a AND b = 0"
    by (metis (no_types, lifting) bit_and_iff bit_eq_iff bit_push_bit_iff bit_take_bit_iff bit_0_eq bot_apply bot_bool_def linorder_not_le)
  then have "push_bit n a OR b = push_bit n a + b"
    by (rule disjunctive_add_eq_or [symmetric])
  moreover have "unat (push_bit n a) = unat a * 2 ^ n"
    using assms(2) by (intro unat_push_bit_small) simp
  ultimately show ?thesis
    using assms(2) by (simp add: unat_word_ariths)
qed

lemma sint32: "sint (w :: u32) = int (unat w) - 2 ^ 32 * of_bool (bit w 31)"
proof -
  have "sint w = signed_take_bit 31 (uint w)" by (simp add: sint_uint)
  also have "\<dots> = take_bit 32 (uint w) - 2 ^ 32 * of_bool (bit (uint w) 31)"
    by (subst signed_take_bit_eq_take_bit_minus) simp
  also have "take_bit 32 (uint w) = uint w" 
    using unsigned_less [where ?'a = int, of w] by (simp add: take_bit_int_eq_self_iff)
  finally show ?thesis by (simp add: bit_uint_iff)
qed

lemma word_of_int_diff_nat: "n \<le> k \<Longrightarrow> word_of_int (int k - int n) = (of_nat (k - n) :: 'a::len word)"
  by (metis of_int_of_nat_eq of_nat_diff)

lemma sint32_of_int: "- (2 ^ 31) \<le> k \<Longrightarrow> k < 2 ^ 31 \<Longrightarrow> sint (word_of_int k :: u32) = k"
  by (simp add: signed_of_int signed_take_bit_int_eq_self)

section \<open>Counting zeros\<close>

lemma ctz_from_eq:
  "bit v k \<Longrightarrow> i \<le> k \<Longrightarrow> k < i + n \<Longrightarrow> (\<And>j. i \<le> j \<Longrightarrow> j < k \<Longrightarrow> \<not> bit v j) \<Longrightarrow> ctz_from n i v = k"
proof (induction n arbitrary: i)
  case (Suc n)
  then show ?case by (cases "i = k") auto
qed simp

lemma ctz32_eqI: "bit v k \<Longrightarrow> (\<And>j. j < k \<Longrightarrow> \<not> bit v j) \<Longrightarrow> ctz32 v = k"
  unfolding ctz32_def by (rule ctz_from_eq) (auto dest: bit_imp_le_length)

lemma clz_from_eq: "bit v k \<Longrightarrow> k < n \<Longrightarrow> n \<le> 32 \<Longrightarrow> (\<And>j. k < j \<Longrightarrow> j < n \<Longrightarrow> \<not> bit v j) \<Longrightarrow> clz_from n v = 31 - k"
proof (induction n)
  case (Suc n)
  then show ?case by (cases "k = n") auto
qed simp

lemma clz32_eqI: "bit v k \<Longrightarrow> (\<And>j. k < j \<Longrightarrow> \<not> bit v j) \<Longrightarrow> clz32 v = 31 - k"
  unfolding clz32_def by (rule clz_from_eq) (auto dest: bit_imp_le_length)

lemma clz32_0 [simp]: "clz32 0 = 32"
proof -
  have "clz_from n 0 = 32" for n by (induction n) auto
  then show ?thesis by (simp add: clz32_def)
qed

end
