(* ===== verification/Softfloat.thy ===== *)
theory Softfloat
  imports Prelude
begin

text \<open>
  The soft-float routines of the boot-ROM stub, \<^verbatim>\<open>tools/softfloat.c\<close>: IEEE-754
  binary64 values as 64-bit words. Every function of the file has a definition here with
  the same name (without the leading underscores of the libgcc entry points). C's
  \<^verbatim>\<open>int\<close> variables are \<^typ>\<open>int\<close>: they hold signs, exponents and shift
  counts, whose magnitude stays below 5000, so no \<^verbatim>\<open>int\<close> operation of the file can
  overflow. The two normalisation loops that would not end on a zero mantissa are
  \<^theory_text>\<open>partial_function (option)\<close>, so that termination is a theorem and not
  an artefact of the model.
\<close>

section \<open>Constants and 64-bit helpers\<close>

definition DF_SIGN :: u64 where "DF_SIGN = 0x8000000000000000"
definition DF_EXP :: u64 where "DF_EXP = 0x7FF0000000000000"
definition DF_MANT :: u64 where "DF_MANT = 0x000FFFFFFFFFFFFF"

text \<open>The quiet NaN the file returns, \<^verbatim>\<open>0x7FF8000000000000ULL\<close>.\<close>

abbreviation DF_QNAN :: u64 where "DF_QNAN \<equiv> 0x7FF8000000000000"

definition shl64 :: "u64 \<Rightarrow> u32 \<Rightarrow> u64" where
  "shl64 x n =
     (let lo = ucast x :: u32; hi = ucast (drop_bit 32 x) :: u32 in
      if n \<ge> 64 then 0
      else if n = 0 then x
      else
        let (hi, lo) =
          (if n < 32 then
             (push_bit (unat n) hi OR drop_bit (unat (32 - n)) lo, push_bit (unat n) lo)
           else (push_bit (unat (n - 32)) lo, 0))
        in push_bit 32 (ucast hi) OR ucast lo)"

definition shr64 :: "u64 \<Rightarrow> u32 \<Rightarrow> u64" where
  "shr64 x n =
     (let lo = ucast x :: u32; hi = ucast (drop_bit 32 x) :: u32 in
      if n \<ge> 64 then 0
      else if n = 0 then x
      else
        let (hi, lo) =
          (if n < 32 then
             (drop_bit (unat n) hi, drop_bit (unat n) lo OR push_bit (unat (32 - n)) hi)
           else (0, drop_bit (unat (n - 32)) hi))
        in push_bit 32 (ucast hi) OR ucast lo)"

definition mul64 :: "u64 \<Rightarrow> u64 \<Rightarrow> u64" where
  "mul64 a b =
     (let al = ucast a :: u32; ah = ucast (drop_bit 32 a) :: u32;
          bl = ucast b :: u32; bh = ucast (drop_bit 32 b) :: u32;
          r = ucast al * ucast bl;
          r = r + push_bit 32 (ucast al * ucast bh);
          r = r + push_bit 32 (ucast ah * ucast bl)
      in r)"

section \<open>Unpacking and packing\<close>

text \<open>The result is the biased exponent (1 for denormals), the sign and the mantissa.\<close>

definition unpack :: "u64 \<Rightarrow> int \<times> int \<times> u64" where
  "unpack x =
     (let e = uint (drop_bit 52 x AND 0x7FF);
          m = x AND DF_MANT;
          sign = (if drop_bit 63 x \<noteq> 0 then 1 else 0);
          (e, m) = (if e = 0 then (1, m) else (e, m OR 0x10000000000000))
      in (e, sign, push_bit 3 m))"

text \<open>The two renormalisation loops of \<^verbatim>\<open>pack\<close>.\<close>

function pack_up :: "u64 \<Rightarrow> int \<Rightarrow> u64 \<times> int" where
  "pack_up m e = (if e > 1 \<and> m < 2 ^ 55 then pack_up (push_bit 1 m) (e - 1) else (m, e))"
  by pat_completeness auto
termination
  by (relation "measure (\<lambda>(m, e). nat e)") auto

function pack_down :: "u64 \<Rightarrow> int \<Rightarrow> u64 \<times> int" where
  "pack_down m e = (if m \<ge> 2 ^ 56 then pack_down (drop_bit 1 m) (e + 1) else (m, e))"
  by pat_completeness auto
termination
proof (relation "measure (\<lambda>(m, e). unat m)")
  fix m :: u64 and e :: int
  assume "2 ^ 56 \<le> m"
  then have "unat m \<noteq> 0"
    by (auto simp: word_le_nat_alt)
  then show "((drop_bit 1 m, e + 1), (m, e)) \<in> measure (\<lambda>(m, e). unat m)"
    by (simp add: unat_drop_bit_eq drop_bit_eq_div unat_div)
qed auto

declare pack_up.simps [simp del] pack_down.simps [simp del]

definition pack :: "u64 \<Rightarrow> int \<Rightarrow> int \<Rightarrow> u64" where
  "pack m e sign =
     (let (m, e) = pack_up m e; (m, e) = pack_down m e in
      if e \<le> 0 then 0
      else if e \<ge> 0x7FF then push_bit 63 (word_of_int sign) OR DF_EXP
      else
        let m = (if m AND 7 > 4 \<or> (m AND 7 = 4 \<and> m AND 8 \<noteq> 0) then m + 8 else m);
            m = drop_bit 3 m;
            (m, e) = (if m AND 2 ^ 53 \<noteq> 0 then (drop_bit 1 m, e + 1) else (m, e))
        in if e \<ge> 0x7FF then push_bit 63 (word_of_int sign) OR DF_EXP
           else push_bit 63 (word_of_int sign) OR push_bit 52 (word_of_int e) OR (m AND DF_MANT))"

section \<open>Arithmetic\<close>

abbreviation sign_of :: "u64 \<Rightarrow> int" where
  "sign_of a \<equiv> (if drop_bit 63 a \<noteq> 0 then 1 else 0)"

definition addsub :: "u64 \<Rightarrow> u64 \<Rightarrow> int \<Rightarrow> u64" where
  "addsub a b sub =
     (let ra = (drop_bit 52 a AND 0x7FF = 0x7FF \<or> a AND DF_MANT \<noteq> 0);
          rb = (drop_bit 52 b AND 0x7FF = 0x7FF \<or> b AND DF_MANT \<noteq> 0) in
      if ra \<or> rb then
        (if a AND DF_EXP = DF_EXP \<and> a AND DF_MANT \<noteq> 0 then DF_QNAN
         else if b AND DF_EXP = DF_EXP \<and> b AND DF_MANT \<noteq> 0 then DF_QNAN
         else
           let sa = sign_of a; sb = sign_of b;
               sb = (if sub \<noteq> 0 then sb XOR 1 else sb) in
           if a AND DF_EXP = DF_EXP \<and> b AND DF_EXP = DF_EXP \<and> sa \<noteq> sb then DF_QNAN
           else if a AND DF_EXP = DF_EXP then push_bit 63 (word_of_int sa) OR DF_EXP
           else push_bit 63 (word_of_int sb) OR DF_EXP)
      else if a AND (DF_EXP OR DF_MANT) = 0 then
        let sb = sign_of b; sb = (if sub \<noteq> 0 then sb XOR 1 else sb) in
        push_bit 63 (word_of_int sb) OR (b AND (DF_EXP OR DF_MANT))
      else if b AND (DF_EXP OR DF_MANT) = 0 then a
      else
        let sa = sign_of a; sb = sign_of b;
            sb = (if sub \<noteq> 0 then sb XOR 1 else sb);
            (ea, sa, ma) = unpack a;
            (eb, sb, mb) = unpack b in
        if sa = sb then
          let (ma, mb, e) =
                (if ea < eb then (shr64 ma (word_of_int (eb - ea)), mb, eb)
                 else (ma, shr64 mb (word_of_int (ea - eb)), ea));
              m = ma + mb; s = sa;
              (m, e) = (if m AND 2 ^ 56 \<noteq> 0 then (drop_bit 1 m, e + 1) else (m, e))
          in pack m e s
        else
          let (ma, mb, e) =
                (if ea < eb then (shr64 ma (word_of_int (eb - ea)), mb, eb)
                 else (ma, shr64 mb (word_of_int (ea - eb)), ea));
              (m, s) = (if ma \<ge> mb then (ma - mb, sa) else (mb - ma, sb))
          in if m = 0 then 0 else pack m e s)"

definition adddf3 :: "u64 \<Rightarrow> u64 \<Rightarrow> u64" where "adddf3 a b = addsub a b 0"
definition subdf3 :: "u64 \<Rightarrow> u64 \<Rightarrow> u64" where "subdf3 a b = addsub a b 1"

definition muldf3 :: "u64 \<Rightarrow> u64 \<Rightarrow> u64" where
  "muldf3 a b =
     (if drop_bit 52 a = 0x7FF \<or> a AND DF_MANT \<noteq> 0 \<or>
         drop_bit 52 b = 0x7FF \<or> b AND DF_MANT \<noteq> 0 then
        (if a AND DF_EXP = DF_EXP \<and> a AND DF_MANT \<noteq> 0 then DF_QNAN
         else if b AND DF_EXP = DF_EXP \<and> b AND DF_MANT \<noteq> 0 then DF_QNAN
         else if a AND DF_EXP = DF_EXP \<and> b AND (DF_EXP OR DF_MANT) = 0 then DF_QNAN
         else if b AND DF_EXP = DF_EXP \<and> a AND (DF_EXP OR DF_MANT) = 0 then DF_QNAN
         else let sa = sign_of a; sb = sign_of b in
           push_bit 63 (word_of_int (sa XOR sb)) OR DF_EXP)
      else if a AND (DF_EXP OR DF_MANT) = 0 \<or> b AND (DF_EXP OR DF_MANT) = 0 then 0
      else
        let (ea, sa, ma) = unpack a;
            (eb, sb, mb) = unpack b;
            r = mul64 ma mb;
            m = drop_bit 56 r;
            m = (if r AND 0xFFFFFFFFFFFFFF \<noteq> 0 then m OR 1 else m);
            e = ea + eb - 1023;
            s = sa XOR sb;
            (m, e) = (if m AND 2 ^ 56 \<noteq> 0 then (drop_bit 1 m, e + 1) else (m, e))
        in pack m e s)"

text \<open>The 56 rounds of the restoring division: remainder, shifted dividend, quotient.\<close>

fun div_loop :: "nat \<Rightarrow> u64 \<Rightarrow> u64 \<Rightarrow> u64 \<Rightarrow> u64 \<Rightarrow> u64" where
  "div_loop 0 m ma q mb = q"
| "div_loop (Suc i) m ma q mb =
     (let m = push_bit 1 m OR (drop_bit 55 ma AND 1);
          ma = push_bit 1 ma;
          q = push_bit 1 q
      in if m \<ge> mb then div_loop i (m - mb) ma (q OR 1) mb else div_loop i m ma q mb)"

definition divdf3 :: "u64 \<Rightarrow> u64 \<Rightarrow> u64" where
  "divdf3 a b =
     (if drop_bit 52 a = 0x7FF \<or> a AND DF_MANT \<noteq> 0 \<or>
         drop_bit 52 b = 0x7FF \<or> b AND DF_MANT \<noteq> 0 then
        (if a AND DF_EXP = DF_EXP \<and> a AND DF_MANT \<noteq> 0 then DF_QNAN
         else if b AND DF_EXP = DF_EXP \<and> b AND DF_MANT \<noteq> 0 then DF_QNAN
         else if a AND DF_EXP = DF_EXP \<and> b AND DF_EXP = DF_EXP then DF_QNAN
         else let sa = sign_of a; sb = sign_of b in
           if a AND DF_EXP = DF_EXP then push_bit 63 (word_of_int (sa XOR sb)) OR DF_EXP
           else 0)
      else if b AND (DF_EXP OR DF_MANT) = 0 then
        (if a AND (DF_EXP OR DF_MANT) = 0 then DF_QNAN
         else let sa = sign_of a; sb = sign_of b in
           push_bit 63 (word_of_int (sa XOR sb)) OR DF_EXP)
      else if a AND (DF_EXP OR DF_MANT) = 0 then 0
      else
        let (ea, sa, ma) = unpack a;
            (eb, sb, mb) = unpack b;
            q = div_loop 56 0 ma 0 mb
        in if q = 0 then 0
           else let e = ea - eb + 1023; s = sa XOR sb in pack q e s)"

section \<open>Conversions\<close>

partial_function (option) norm_sf :: "u32 \<Rightarrow> int \<Rightarrow> (u32 \<times> int) option" where
  "norm_sf m n =
     (if m AND 0x800000 = 0 then norm_sf (push_bit 1 m) (n + 1) else Some (m, n))"

declare norm_sf.simps [code]

definition extendsfdf2 :: "u32 \<Rightarrow> u64 option" where
  "extendsfdf2 f =
     (let s = (if drop_bit 31 f \<noteq> 0 then 1 else 0) :: int;
          e = uint (drop_bit 23 f AND 0xFF);
          m = f AND 0x7FFFFF in
      if e = 0xFF then
        (if m \<noteq> 0 then Some DF_QNAN else Some (push_bit 63 (word_of_int s) OR DF_EXP))
      else if e = 0 \<and> m = 0 then Some (push_bit 63 (word_of_int s))
      else if e = 0 then
        (case norm_sf m 0 of None \<Rightarrow> None
         | Some (m, n) \<Rightarrow>
             Some (push_bit 63 (word_of_int s) OR push_bit 52 (word_of_int (1 + 896 - n)) OR
                   push_bit 29 (ucast m)))
      else Some (push_bit 63 (word_of_int s) OR push_bit 52 (word_of_int (e + 896)) OR
                 push_bit 29 (ucast m)))"

definition fixdfsi :: "u64 \<Rightarrow> u32" where
  "fixdfsi a =
     (let e = uint (drop_bit 52 a AND 0x7FF); s = sign_of a in
      if e = 0x7FF then (if s \<noteq> 0 then 0x80000000 else 0x7FFFFFFF)
      else if e = 0 \<and> a AND DF_MANT = 0 then 0
      else
        let m = (a AND DF_MANT) OR 0x10000000000000 in
        if e < 1023 then 0
        else if e - 1023 \<ge> 32 then (if s \<noteq> 0 then 0x80000000 else 0x7FFFFFFF)
        else
          let m = shr64 m (word_of_int (1078 - e)); r = ucast m :: u32
          in if s \<noteq> 0 then - r else r)"

partial_function (option) norm_df :: "u64 \<Rightarrow> int \<Rightarrow> (u64 \<times> int) option" where
  "norm_df m k = (if m < 2 ^ 55 then norm_df (push_bit 1 m) (k + 1) else Some (m, k))"

declare norm_df.simps [code]

definition floatsidf :: "u32 \<Rightarrow> u64 option" where
  "floatsidf i =
     (let u = i; s = 0; (s, u) = (if sint i < 0 then (1, 0 - u) else (s, u)) in
      if u = 0 then Some 0
      else case norm_df (ucast u) 0 of None \<Rightarrow> None
        | Some (m, k) \<Rightarrow> Some (pack m (1023 + 55 - k) s))"

definition floatunsidf :: "u32 \<Rightarrow> u64 option" where
  "floatunsidf u =
     (if u = 0 then Some 0
      else case norm_df (ucast u) 0 of None \<Rightarrow> None
        | Some (m, k) \<Rightarrow> Some (pack m (1023 + 55 - k) 0))"

section \<open>Comparison and byte swap\<close>

definition cmp :: "u64 \<Rightarrow> u64 \<Rightarrow> int" where
  "cmp a b =
     (if a AND DF_EXP = DF_EXP \<and> a AND DF_MANT \<noteq> 0 then 2
      else if b AND DF_EXP = DF_EXP \<and> b AND DF_MANT \<noteq> 0 then 2
      else
        let ea = uint (drop_bit 52 a AND 0x7FF);
            eb = uint (drop_bit 52 b AND 0x7FF);
            ma = a AND DF_MANT; mb = b AND DF_MANT in
        if ea = 0 \<and> ma = 0 \<and> eb = 0 \<and> mb = 0 then 0
        else
          let sa = sign_of a; sb = sign_of b in
          if sa \<noteq> sb then (if sa \<noteq> 0 then - 1 else 1)
          else if ea \<noteq> eb then (if (ea < eb) \<noteq> (sa \<noteq> 0) then - 1 else 1)
          else if ma \<noteq> mb then (if (ma < mb) \<noteq> (sa \<noteq> 0) then - 1 else 1)
          else 0)"

definition eqdf2 :: "u64 \<Rightarrow> u64 \<Rightarrow> int" where "eqdf2 a b = (if cmp a b = 0 then 0 else 1)"
definition nedf2 :: "u64 \<Rightarrow> u64 \<Rightarrow> int" where "nedf2 a b = (if cmp a b \<noteq> 0 then 0 else 1)"
definition gtdf2 :: "u64 \<Rightarrow> u64 \<Rightarrow> int" where "gtdf2 a b = (if cmp a b > 0 then 1 else 0)"
definition ledf2 :: "u64 \<Rightarrow> u64 \<Rightarrow> int" where "ledf2 a b = (if cmp a b \<le> 0 then 0 else 1)"
definition ltdf2 :: "u64 \<Rightarrow> u64 \<Rightarrow> int" where "ltdf2 a b = (if cmp a b < 0 then - 1 else 0)"
definition unorddf2 :: "u64 \<Rightarrow> u64 \<Rightarrow> int" where "unorddf2 a b = (if cmp a b = 2 then 1 else 0)"

definition bswapsi2 :: "u32 \<Rightarrow> u32" where
  "bswapsi2 x =
     push_bit 24 (x AND 0xFF) OR push_bit 8 (x AND 0xFF00) OR
     (drop_bit 8 x AND 0xFF00) OR (drop_bit 24 x AND 0xFF)"

section \<open>What a double denotes\<close>

text \<open>
  The sign, exponent and fraction of a double, and its value as an integer multiple of
  $2^{-1074}$, the smallest denormal. With the exponent 2047 and fraction 0 the formula
  gives a magnitude above every finite one, so infinities compare as they should.
\<close>

definition df_exp :: "u64 \<Rightarrow> nat" where "df_exp x = unat x div 2 ^ 52 mod 2 ^ 11"
definition df_man :: "u64 \<Rightarrow> nat" where "df_man x = unat x mod 2 ^ 52"
definition df_neg :: "u64 \<Rightarrow> bool" where "df_neg x \<longleftrightarrow> 2 ^ 63 \<le> unat x"
definition df_nan :: "u64 \<Rightarrow> bool" where "df_nan x \<longleftrightarrow> df_exp x = 2047 \<and> df_man x \<noteq> 0"

definition df_mag :: "nat \<Rightarrow> nat \<Rightarrow> nat" where
  "df_mag e m = (if e = 0 then m else 2 ^ 52 + m) * 2 ^ (max 1 e - 1)"

definition df_val :: "u64 \<Rightarrow> int" where
  "df_val x = (if df_neg x then - 1 else 1) * int (df_mag (df_exp x) (df_man x))"

text \<open>Division by eight, rounded to nearest with ties to even.\<close>

definition rne8 :: "nat \<Rightarrow> nat" where
  "rne8 m = (let q = m div 8; r = m mod 8 in if r > 4 \<or> (r = 4 \<and> odd q) then q + 1 else q)"

lemma mask_consts: "(0x7FF :: u64) = mask 11" "DF_MANT = mask 52" "(7::u64) = mask 3"
  by (simp_all add: mask_eq_exp_minus_1 DF_MANT_def)

lemma exp_field [simp]: "uint (drop_bit 52 x AND 0x7FF) = int (df_exp x)"
  unfolding mask_consts(1) df_exp_def uint_nat unat_and_mask unat_drop_bit ..

lemma unat_man_field [simp]: "unat (x AND DF_MANT) = df_man x"
  unfolding mask_consts(2) df_man_def unat_and_mask ..

lemma man_field_0 [simp]: "x AND DF_MANT = 0 \<longleftrightarrow> df_man x = 0"
  by (metis unat_man_field unat_eq_zero)

lemma df_exp_less: "df_exp x < 2048" by (simp add: df_exp_def)

lemma df_man_less: "df_man x < 4503599627370496" by (simp add: df_man_def)

lemma sign_field [simp]: "drop_bit 63 x = 0 \<longleftrightarrow> \<not> df_neg x" for x :: u64
proof -
  have "drop_bit 63 x = 0 \<longleftrightarrow> unat x div 2 ^ 63 = 0"
    by (metis unat_drop_bit unat_eq_zero)
  then show ?thesis by (simp add: df_neg_def div_eq_0_iff not_le)
qed

lemma exp_ones [simp]: "x AND DF_EXP = DF_EXP \<longleftrightarrow> df_exp x = 2047"
proof -
  have m: "DF_EXP = push_bit 52 (mask 11)"
    by (simp add: DF_EXP_def mask_eq_exp_minus_1)
  have p: "x AND push_bit 52 (mask 11) = push_bit 52 (drop_bit 52 x AND mask 11)"
    by (rule bit_word_eqI) (auto simp only: bit_and_iff bit_push_bit_iff bit_mask_iff bit_drop_bit_eq o_def le_add_diff_inverse)
  have "unat (x AND DF_EXP) = df_exp x * 2 ^ 52"
    unfolding m p df_exp_def
    by (subst unat_push_bit_small) (simp_all only: unat_and_mask unat_drop_bit, simp)
  moreover have "unat DF_EXP = 2047 * 2 ^ 52" by (simp add: DF_EXP_def)
  ultimately show ?thesis by (metis mult_right_cancel word_unat_eq_iff zero_neq_numeral power_not_zero numeral_eq_iff)
qed

lemma df_assemble:
  assumes "s < 2" "e < 2048" "m < 2 ^ 52"
  shows "unat (push_bit 63 (of_nat s) OR push_bit 52 (of_nat e) OR of_nat m :: u64) =
         s * 2 ^ 63 + e * 2 ^ 52 + m"
proof -
  have u: "unat (of_nat m :: u64) = m" "unat (of_nat e :: u64) = e" "unat (of_nat s :: u64) = s"
    using assms by (simp_all add: unat_of_nat)
  have em: "unat (push_bit 52 (of_nat e) OR of_nat m :: u64) = e * 2 ^ 52 + m"
    using assms by (subst unat_concat) (simp_all add: u)
  have "unat (push_bit 63 (of_nat s) OR (push_bit 52 (of_nat e) OR of_nat m) :: u64) =
      s * 2 ^ 63 + (e * 2 ^ 52 + m)"
    using assms by (subst unat_concat) (simp_all only: em u, simp_all)
  then show ?thesis by (simp only: or.assoc add.assoc)
qed

lemma df_fields_assemble:
  assumes "s < 2" "e < 2048" "m < 2 ^ 52"
    and "x = push_bit 63 (of_nat s) OR push_bit 52 (of_nat e) OR of_nat m"
  shows "df_exp x = e" "df_man x = m" "df_neg x \<longleftrightarrow> s = 1"
proof -
  have x: "unat x = s * 2 ^ 63 + e * 2 ^ 52 + m"
    using df_assemble [OF assms(1-3)] assms(4) by simp
  then have "unat x = 2 ^ 52 * (s * 2 ^ 11 + e) + m" by simp
  then have x': "unat x div 2 ^ 52 = s * 2 ^ 11 + e" "unat x mod 2 ^ 52 = m"
    using assms(3) by (simp_all only: div_mult_self4 mod_mult_self4) auto
  with assms show "df_exp x = e" "df_man x = m"
    by (simp_all only: df_exp_def df_man_def) auto
  have "s = 0 \<or> s = 1" using assms(1) by auto
  with assms x show "df_neg x \<longleftrightarrow> s = 1"
    unfolding df_neg_def x by auto
qed

lemma df_mag_less:
  assumes "e1 < e2" "m1 < 2 ^ 52"
  shows "df_mag e1 m1 < df_mag e2 m2"
proof -
  have "df_mag e1 m1 < 2 ^ 52 * 2 ^ (e2 - 1)"
  proof (cases "e1 = 0")
    case True
    have "m1 * 1 < 2 ^ 52 * 2 ^ (e2 - 1)"
      using assms(2) by (rule mult_less_le_imp_less) auto
    with True show ?thesis by (simp add: df_mag_def)
  next
    case False
    have "(2 ^ 52 + m1) * 2 ^ (e1 - 1) < 2 ^ 53 * 2 ^ (e1 - 1)"
      using assms(2) by simp
    also have "\<dots> = 2 ^ 52 * 2 ^ e1"
      using False by (cases e1) auto
    also have "\<dots> \<le> 2 ^ 52 * 2 ^ (e2 - 1)"
      using assms(1) by (intro mult_le_mono2 power_increasing) auto
    finally show ?thesis using False by (simp add: df_mag_def max_def)
  qed
  also have "\<dots> \<le> df_mag e2 m2"
    using assms(1) by (simp add: df_mag_def max_def)
  finally show ?thesis .
qed

lemma df_mag_less_same: "m1 < m2 \<Longrightarrow> df_mag e m1 < df_mag e m2"
  by (simp add: df_mag_def)

lemma df_mag_0 [simp]: "df_mag e m = 0 \<longleftrightarrow> e = 0 \<and> m = 0"
  by (auto simp: df_mag_def)

lemma df_mag_pos [simp]: "0 < df_mag e m \<longleftrightarrow> e \<noteq> 0 \<or> m \<noteq> 0"
  using df_mag_0 [of e m] by linarith

lemma mant_less [simp]: "a AND DF_MANT < b AND DF_MANT \<longleftrightarrow> df_man a < df_man b"
  by (simp add: word_less_nat_alt)

lemma mant_eq [simp]: "a AND DF_MANT = b AND DF_MANT \<longleftrightarrow> df_man a = df_man b"
  by (metis word_unat_eq_iff unat_man_field)

lemma cmp_spec:
  "cmp a b =
     (if df_nan a \<or> df_nan b then 2
      else if df_val a < df_val b then - 1 else if df_val a = df_val b then 0 else 1)"
proof (cases "df_nan a \<or> df_nan b")
  case True
  then show ?thesis by (auto simp: cmp_def df_nan_def)
next
  case False
  have lt: "df_exp a < df_exp b \<Longrightarrow> df_mag (df_exp a) (df_man a) < df_mag (df_exp b) (df_man b)"
    "df_exp b < df_exp a \<Longrightarrow> df_mag (df_exp b) (df_man b) < df_mag (df_exp a) (df_man a)"
    using df_man_less by (auto intro: df_mag_less)
  have lt2: "df_man a < df_man b \<Longrightarrow> df_mag (df_exp b) (df_man a) < df_mag (df_exp b) (df_man b)"
    "df_man b < df_man a \<Longrightarrow> df_mag (df_exp b) (df_man b) < df_mag (df_exp b) (df_man a)"
    by (auto intro: df_mag_less_same)
  consider (zero) "df_exp a = 0" "df_man a = 0" "df_exp b = 0" "df_man b = 0"
    | (sign) "\<not> (df_exp a = 0 \<and> df_man a = 0 \<and> df_exp b = 0 \<and> df_man b = 0)" "df_neg a \<noteq> df_neg b"
    | (same) "df_neg a = df_neg b" "\<not> (df_exp a = 0 \<and> df_man a = 0 \<and> df_exp b = 0 \<and> df_man b = 0)" by metis
  then show ?thesis
  proof cases
    case zero
    with False show ?thesis by (simp add: cmp_def df_nan_def df_val_def)
  next
    case sign
    have "0 < df_mag (df_exp a) (df_man a) + df_mag (df_exp b) (df_man b)"
      using sign(1) by (simp only: zero_less_iff_neq_zero add_eq_0_iff_both_eq_0 df_mag_0) blast
    with sign(2) have v: "df_val a < df_val b \<longleftrightarrow> df_neg a" "df_val a \<noteq> df_val b"
      by (auto simp: df_val_def simp del: df_mag_pos df_mag_0)
    from False sign have "cmp a b = (if df_neg a then - 1 else 1)"
      by (simp add: cmp_def df_nan_def Let_def)
    with v False show ?thesis by simp
  next
    case same
    have v: "df_val a < df_val b \<longleftrightarrow> (df_mag (df_exp a) (df_man a) < df_mag (df_exp b) (df_man b)) \<noteq> df_neg a"
      if "df_mag (df_exp a) (df_man a) \<noteq> df_mag (df_exp b) (df_man b)"
      using that same(1) by (auto simp: df_val_def)
    have v': "df_val a = df_val b \<longleftrightarrow> df_mag (df_exp a) (df_man a) = df_mag (df_exp b) (df_man b)"
      using same(1) by (auto simp: df_val_def)
    from False same have c: "cmp a b =
      (if df_exp a \<noteq> df_exp b then (if (df_exp a < df_exp b) \<noteq> df_neg a then - 1 else 1)
       else if df_man a \<noteq> df_man b then (if (df_man a < df_man b) \<noteq> df_neg a then - 1 else 1) else 0)"
      by (simp add: cmp_def df_nan_def Let_def)
    show ?thesis
    proof (cases "df_exp a = df_exp b")
      case True
      then show ?thesis
        using lt2 False c v v' by (cases "df_man a" "df_man b" rule: linorder_cases) auto
    next
      case ne: False
      then show ?thesis
        using lt False c v v' by (cases "df_exp a" "df_exp b" rule: linorder_cases) auto
    qed
  qed
qed

lemma man_field_of_nat: "x AND DF_MANT = of_nat (df_man x)"
  by (metis unat_man_field of_nat_unat ucast_id)

lemma rne8_nearest: "\<bar>8 * int (rne8 m) - int m\<bar> \<le> 4"
  unfolding rne8_def Let_def by (auto simp: abs_le_iff) presburger+

lemma rne8_tie: "\<bar>8 * int (rne8 m) - int m\<bar> = 4 \<Longrightarrow> even (rne8 m)"
  unfolding rne8_def Let_def by (auto split: if_splits) presburger+

lemma pack_up_stop: "2 ^ 55 \<le> m \<Longrightarrow> pack_up m e = (m, e)"
  by (subst pack_up.simps) auto

lemma pack_down_stop: "m < 2 ^ 56 \<Longrightarrow> pack_down m e = (m, e)"
  by (subst pack_down.simps) auto

lemma round_step:
  fixes m :: u64
  assumes "unat m < 2 ^ 56"
  shows "unat (drop_bit 3 (if m AND 7 > 4 \<or> (m AND 7 = 4 \<and> m AND 8 \<noteq> 0) then m + 8 else m)) = rne8 (unat m)"
proof -
  have 1: "unat (m AND 7) = unat m mod 8"
    unfolding mask_consts(3) by (simp add: unat_and_mask)
  have 2: "m AND 8 \<noteq> 0 \<longleftrightarrow> odd (unat m div 8)"
    using and_pow_eq_0 [of m 3] by simp
  have 3: "m AND 7 > 4 \<longleftrightarrow> unat m mod 8 > 4" "m AND 7 = 4 \<longleftrightarrow> unat m mod 8 = 4"
    by (simp_all add: word_less_nat_alt word_unat_eq_iff 1)
  have 4: "unat (m + 8) = unat m + 8"
    using assms by (simp add: unat_word_ariths)
  show ?thesis
    using 2 3 4 by (simp add: rne8_def Let_def unat_drop_bit div_add_self2)
qed

lemma pack_normal:
  assumes m: "2 ^ 55 \<le> m" "m < 2 ^ 56" and e: "1 \<le> e" "e < 2046" and s: "s < 2"
  shows "df_val (pack m (int e) (int s)) = (- 1) ^ s * int (rne8 (unat m)) * 2 ^ (e - 1)"
    and "df_exp (pack m (int e) (int s)) < 2047"
proof -
  define r where "r = drop_bit 3 (if m AND 7 > 4 \<or> (m AND 7 = 4 \<and> m AND 8 \<noteq> 0) then m + 8 else m)"
  have m': "2 ^ 55 \<le> unat m" "unat m < 2 ^ 56"
    using m by (simp_all add: word_le_nat_alt word_less_nat_alt)
  have r: "unat r = rne8 (unat m)"
    unfolding r_def using m'(2) by (rule round_step)
  have r_lo: "2 ^ 52 \<le> unat r" and r_hi: "unat r \<le> 2 ^ 53"
    using m' unfolding r rne8_def Let_def by auto
  have p: "pack m (int e) (int s) =
    (let (m, e) = (if r AND 2 ^ 53 \<noteq> 0 then (drop_bit 1 r, int e + 1) else (r, int e)) in
       push_bit 63 (of_nat s) OR push_bit 52 (word_of_int e) OR (m AND DF_MANT))"
    using e m by (simp add: pack_def pack_up_stop pack_down_stop Let_def flip: r_def)
  have c: "r AND 2 ^ 53 \<noteq> 0 \<longleftrightarrow> unat r = 2 ^ 53"
    unfolding and_pow_eq_0 using r_lo r_hi
    by (cases "unat r = 2 ^ 53") auto
  have "df_val (pack m (int e) (int s)) = (- 1) ^ s * int (unat r) * 2 ^ (e - 1) \<and>
        df_exp (pack m (int e) (int s)) < 2047"
  proof (cases "unat r = 2 ^ 53")
    case True
    have "df_man (drop_bit 1 r) = 0"
      unfolding df_man_def unat_drop_bit True by simp
    then have x: "pack m (int e) (int s) =
        push_bit 63 (of_nat s) OR push_bit 52 (of_nat (e + 1)) OR of_nat 0"
      using c True by (simp add: p man_field_of_nat add.commute)
    show ?thesis
      using df_fields_assemble [OF s _ _ x] e s True
      by (auto simp: df_val_def df_mag_def less_2_cases_iff power_Suc [symmetric] simp del: power_Suc)
  next
    case False
    have man: "df_man r = unat r - 2 ^ 52"
      using False r_lo r_hi unfolding df_man_def by (simp add: le_mod_geq)
    then have x: "pack m (int e) (int s) =
        push_bit 63 (of_nat s) OR push_bit 52 (of_nat e) OR of_nat (unat r - 2 ^ 52)"
      using c False by (simp add: p man_field_of_nat)
    show ?thesis
      using df_fields_assemble [OF s _ _ x] e s False r_lo r_hi
      by (auto simp: df_val_def df_mag_def less_2_cases_iff)
  qed
  then show "df_val (pack m (int e) (int s)) = (- 1) ^ s * int (rne8 (unat m)) * 2 ^ (e - 1)"
    and "df_exp (pack m (int e) (int s)) < 2047" by (simp_all add: r)
qed

lemma norm_df_total:
  assumes "0 < unat m" "unat m < 2 ^ 55"
  shows "\<exists>j. j \<ge> 1 \<and> 2 ^ 55 \<le> unat m * 2 ^ j \<and> unat m * 2 ^ j < 2 ^ 56 \<and>
     norm_df m k = Some (push_bit j m, k + int j)"
  using assms
proof (induction "2 ^ 55 - unat m" arbitrary: m k rule: less_induct)
  case less
  have lt: "m < 2 ^ 55" using less.prems by (simp add: word_less_nat_alt)
  have p: "unat (m * 2) = unat m * 2"
    using less.prems by (simp add: unat_word_ariths)
  show ?case
  proof (cases "unat m * 2 < 2 ^ 55")
    case True
    have "2 ^ 55 - unat (m * 2) < 2 ^ 55 - unat m" using less.prems p True by simp
    from less.hyps [OF this, of "k + 1"] obtain j where j: "j \<ge> 1" "2 ^ 55 \<le> unat (m * 2) * 2 ^ j" "unat (m * 2) * 2 ^ j < 2 ^ 56"
      "norm_df (m * 2) (k + 1) = Some (push_bit j (m * 2), k + 1 + int j)"
      using less.prems p True by auto
    show ?thesis
      using j lt by (intro exI [of _ "Suc j"])
        (simp add: norm_df.simps [of m k] p push_bit_Suc mult.commute)
  next
    case False
    then have "norm_df (m * 2) (k + 1) = Some (m * 2, k + 1)"
      by (subst norm_df.simps) (simp add: word_less_nat_alt p)
    then show ?thesis
      using lt False less.prems by (intro exI [of _ 1]) (simp add: norm_df.simps [of m k])
  qed
qed

lemma float_mag:
  assumes u: "u \<noteq> 0" and s: "s < 2"
  shows "\<exists>m k. norm_df (ucast (u :: u32)) 0 = Some (m, k) \<and>
     df_val (pack m (1023 + 55 - k) (int s)) = (- 1) ^ s * int (unat u) * 2 ^ 1074"
proof -
  have uu: "unat (ucast u :: u64) = unat u"
    by (simp add: unat_ucast_up)
  have lim: "0 < unat u" "unat u < 2 ^ 32"
    using u unsigned_less [where ?'a = nat, of u] by (auto simp: unat_gt_0)
  obtain j where j: "j \<ge> 1" "2 ^ 55 \<le> unat u * 2 ^ j" "unat u * 2 ^ j < 2 ^ 56"
     "norm_df (ucast u) 0 = Some (push_bit j (ucast u), 0 + int j)"
    using norm_df_total [of "ucast u" 0] lim by (auto simp: uu)
  have "24 \<le> j"
  proof (rule ccontr)
    assume "\<not> 24 \<le> j"
    then have "(2::nat) ^ j \<le> 2 ^ 23" by (intro power_increasing) auto
    then have "unat u * 2 ^ j < 2 ^ 32 * 2 ^ 23"
      using lim by (intro mult_less_le_imp_less) auto
    with j(2) show False by simp
  qed
  have "j < 56"
  proof (rule ccontr)
    assume "\<not> j < 56"
    then have "(2::nat) ^ 56 \<le> 2 ^ j" by (intro power_increasing) auto
    with j(3) lim(1) show False by (metis One_nat_def Suc_leI dual_order.trans linorder_not_le mult_1 mult_le_mono1)
  qed
  have um: "unat (push_bit j (ucast u) :: u64) = unat u * 2 ^ j"
    using j(3) by (subst unat_push_bit_small) (simp_all add: uu)
  obtain i where i: "j = i + 24" using \<open>24 \<le> j\<close> by (metis add.commute le_Suc_ex)
  have "rne8 (unat u * 2 ^ j) = unat u * 2 ^ (j - 3)"
    by (simp add: rne8_def Let_def i power_add mod_eq_0_iff_dvd dvd_mult)
  then have "df_val (pack (push_bit j (ucast u)) (int (1078 - j)) (int s)) =
      (- 1) ^ s * int (unat u * 2 ^ (j - 3)) * 2 ^ (1078 - j - 1)"
    using pack_normal(1) [of "push_bit j (ucast u)" "1078 - j" s] j um s \<open>j < 56\<close>
    by (simp add: word_le_nat_alt word_less_nat_alt)
  also have "\<dots> = (- 1) ^ s * int (unat u) * 2 ^ 1074"
  proof -
    have "(2::int) ^ (j - 3) * 2 ^ (1078 - j - 1) = 2 ^ 1074"
      using \<open>24 \<le> j\<close> \<open>j < 56\<close> by (subst power_add [symmetric]) (rule arg_cong [where f = "\<lambda>n. 2 ^ n"], simp)
    then show ?thesis by (simp only: of_nat_mult of_nat_power mult.assoc) (simp)
  qed
  finally show ?thesis
    using j(4) \<open>j < 56\<close> by (intro exI [of _ "push_bit j (ucast u)"] exI [of _ "int j"]) (simp add: of_nat_diff)
qed

section \<open>The 64-bit helpers are the word operations\<close>

lemma shl64_eq: "shl64 x n = push_bit (unat n) x"
proof -
  consider "n \<ge> 64" | "n = 0" | "n \<noteq> 0" "n < 32" | "32 \<le> n" "n < 64" by force
  then show ?thesis
  proof cases
    case 1
    then show ?thesis by (simp add: shl64_def word_le_nat_alt)
  next
    case 2
    then show ?thesis by (simp add: shl64_def)
  next
    case 3
    have u: "unat n < 32" "unat n \<noteq> 0" using 3 by (auto simp: word_less_nat_alt unat_eq_zero)
    have d: "unat (32 - n) = 32 - unat n" using 3 by (simp add: unat_sub word_le_nat_alt word_less_nat_alt)
    have "\<not> 64 \<le> n" using u by (simp add: word_le_nat_alt)
    with 3 show ?thesis
      by (intro bit_word_eqI) (use u in \<open>auto simp: shl64_def Let_def bit_simps d\<close>)
  next
    case 4
    have u: "32 \<le> unat n" "unat n < 64" using 4 by (auto simp: word_less_nat_alt word_le_nat_alt)
    have d: "unat (n - 32) = unat n - 32" using 4 by (simp add: unat_sub)
    have "\<not> 64 \<le> n" "\<not> n < 32" "n \<noteq> 0" using 4 u by (auto simp: not_le not_less)
    with 4 show ?thesis
      by (intro bit_word_eqI) (use u in \<open>auto simp: shl64_def Let_def bit_simps d\<close>)
  qed
qed

lemma shr64_eq: "shr64 x n = drop_bit (unat n) x"
proof -
  consider "n \<ge> 64" | "n = 0" | "n \<noteq> 0" "n < 32" | "32 \<le> n" "n < 64" by force
  then show ?thesis
  proof cases
    case 1
    then show ?thesis
      by (intro bit_word_eqI) (auto simp: shr64_def word_le_nat_alt bit_simps dest: bit_imp_le_length)
  next
    case 2
    then show ?thesis by (simp add: shr64_def)
  next
    case 3
    have u: "unat n < 32" "unat n \<noteq> 0" using 3 by (auto simp: word_less_nat_alt unat_eq_zero)
    have d: "unat (32 - n) = 32 - unat n" using 3 by (simp add: unat_sub word_le_nat_alt word_less_nat_alt)
    have "\<not> 64 \<le> n" using u by (simp add: word_le_nat_alt)
    with 3 show ?thesis
      by (intro bit_word_eqI) (use u in \<open>auto simp: shr64_def Let_def bit_simps d add.commute [of _ "unat n"] dest: bit_imp_le_length\<close>)
  next
    case 4
    have u: "32 \<le> unat n" "unat n < 64" using 4 by (auto simp: word_less_nat_alt word_le_nat_alt)
    have d: "unat (n - 32) = unat n - 32" using 4 by (simp add: unat_sub)
    have "\<not> 64 \<le> n" "\<not> n < 32" "n \<noteq> 0" using 4 u by (auto simp: not_le not_less)
    with 4 show ?thesis
      by (intro bit_word_eqI) (use u in \<open>auto simp: shr64_def Let_def bit_simps d dest: bit_imp_le_length\<close>)
  qed
qed

lemma split_halves: "x = ucast (ucast x :: u32) + push_bit 32 (ucast (ucast (drop_bit 32 x) :: u32))" for x :: u64
proof -
  have "ucast (ucast x :: u32) AND push_bit 32 (ucast (ucast (drop_bit 32 x) :: u32)) = (0 :: u64)"
    by (rule bit_word_eqI) (auto simp: bit_simps)
  moreover have "ucast (ucast x :: u32) OR push_bit 32 (ucast (ucast (drop_bit 32 x) :: u32)) = x"
    by (rule bit_word_eqI) (auto simp: bit_simps)
  ultimately show ?thesis by (simp add: disjunctive_add_eq_or)
qed

lemma mul64_eq: "mul64 a b = a * b"
proof -
  define al ah bl bh :: u64 where "al = ucast (ucast a :: u32)" and "ah = ucast (ucast (drop_bit 32 a) :: u32)"
    and "bl = ucast (ucast b :: u32)" and "bh = ucast (ucast (drop_bit 32 b) :: u32)"
  have a: "a = al + ah * 2 ^ 32" and b: "b = bl + bh * 2 ^ 32"
    using split_halves [of a] split_halves [of b]
    by (simp_all only: al_def ah_def bl_def bh_def push_bit_eq_mult)
  have "a * b = al * bl + al * bh * 2 ^ 32 + ah * bl * 2 ^ 32 + ah * bh * (2 ^ 32 * 2 ^ 32)"
    by (simp only: a b) (simp add: algebra_simps)
  also have "(2 ^ 32 * 2 ^ 32 :: u64) = 0" by simp
  finally show ?thesis
    by (simp add: mul64_def Let_def al_def ah_def bl_def bh_def push_bit_eq_mult)
qed

lemma bit_bswapsi2:
  assumes "j < 8" "k < 4"
  shows "bit (bswapsi2 x) (8 * k + j) \<longleftrightarrow> bit x (8 * (3 - k) + j)"
proof -
  have m: "0xFF = (mask 8 :: u32)" "0xFF00 = (push_bit 8 (mask 8) :: u32)"
    by (simp_all add: mask_eq_exp_minus_1)
  have "k = 0 \<or> k = 1 \<or> k = 2 \<or> k = 3" using assms(2) by auto
  then show ?thesis
    unfolding bswapsi2_def m using assms(1)
    by (elim disjE) (simp_all only: bit_or_iff bit_push_bit_iff bit_and_iff bit_mask_iff bit_drop_bit_eq o_def, auto simp: nat_diff_split)
qed

lemma bswapsi2_bswapsi2: "bswapsi2 (bswapsi2 x) = x"
proof (rule bit_word_eqI)
  fix n
  assume "n < LENGTH(32)"
  then have k: "n div 8 < 4" "3 - n div 8 < 4" "n mod 8 < 8" "3 - (3 - n div 8) = n div 8" by auto
  have n: "n = 8 * (n div 8) + n mod 8" by simp
  show "bit (bswapsi2 (bswapsi2 x)) n = bit x n"
    by (subst n, subst bit_bswapsi2 [OF k(3,1)], subst bit_bswapsi2 [OF k(3,2)]) (simp add: k(4))
qed

section \<open>Integer conversions\<close>

lemma df_val_0 [simp]: "df_val 0 = 0"
  by (simp add: df_val_def df_mag_def df_exp_def df_man_def)

lemma floatunsidf_val: "\<exists>d. floatunsidf u = Some d \<and> df_val d = int (unat u) * 2 ^ 1074"
proof (cases "u = 0")
  case False
  obtain m k where "norm_df (ucast u) 0 = Some (m, k)"
    "df_val (pack m (1023 + 55 - k) 0) = int (unat u) * 2 ^ 1074"
    using float_mag [OF False, of 0] by auto
  with False show ?thesis by (simp add: floatunsidf_def)
qed (simp add: floatunsidf_def)

lemma floatsidf_val: "\<exists>d. floatsidf i = Some d \<and> df_val d = sint i * 2 ^ 1074"
proof (cases "sint i < 0")
  case False
  then have v: "sint i = int (unat i)"
    using unsigned_less [where ?'a = int, of i] by (auto simp: sint32 split: if_splits)
  show ?thesis
  proof (cases "i = 0")
    case nz: False
    obtain m k where "norm_df (ucast i) 0 = Some (m, k)"
      "df_val (pack m (1023 + 55 - k) 0) = int (unat i) * 2 ^ 1074"
      using float_mag [OF nz, of 0] by auto
    with nz False v show ?thesis by (simp add: floatsidf_def)
  qed (simp add: floatsidf_def)
next
  case True
  have v: "sint i = - int (unat (0 - i))"
    using True unsigned_less [where ?'a = int, of i]
    by (cases "bit i 31"; cases "i = 0")
      (auto simp: sint32 uint_word_ariths zmod_zminus1_eq_if uint_0_iff split: if_splits)
  have nz: "0 - i \<noteq> 0" using True by auto
  obtain m k where "norm_df (ucast (0 - i)) 0 = Some (m, k)"
    "df_val (pack m (1023 + 55 - k) 1) = - (int (unat (0 - i)) * 2 ^ 1074)"
    using float_mag [OF nz, of 1] by auto
  with nz True v show ?thesis by (simp add: floatsidf_def)
qed

lemma df_implicit: "unat ((a AND DF_MANT) OR 0x10000000000000) = 2 ^ 52 + df_man a"
proof -
  have "unat (push_bit 52 1 OR (a AND DF_MANT)) = unat (1::u64) * 2 ^ 52 + unat (a AND DF_MANT)"
    using df_man_less [of a] by (intro unat_concat) simp_all
  then show ?thesis by (simp add: or.commute)
qed

lemma fixdfsi_val:
  assumes "1023 \<le> df_exp a" "df_exp a < 1055"
  shows "fixdfsi a = (if df_neg a then -1 else 1) * of_nat (nat \<bar>df_val a\<bar> div 2 ^ 1077)"
proof -
  have e: "unat (word_of_int (1078 - int (df_exp a)) :: u32) = 1078 - df_exp a"
    using assms word_of_int_diff_nat [of "df_exp a" 1078, where ?'a = 32]
    by (simp add: unat_of_nat del: of_nat_diff)
  define m where "m = (a AND DF_MANT) OR 0x10000000000000"
  have f: "fixdfsi a = (if df_neg a then - ucast (drop_bit (1078 - df_exp a) m) else ucast (drop_bit (1078 - df_exp a) m))"
    using assms unfolding fixdfsi_def Let_def shr64_eq exp_field m_def [symmetric] e by simp
  have "ucast (drop_bit (1078 - df_exp a) m) = (of_nat (unat (drop_bit (1078 - df_exp a) m)) :: u32)"
    by simp
  also have "unat (drop_bit (1078 - df_exp a) m) = (2 ^ 52 + df_man a) div 2 ^ (1078 - df_exp a)"
    unfolding unat_drop_bit m_def df_implicit ..
  also have "\<dots> = nat \<bar>df_val a\<bar> div 2 ^ 1077"
  proof -
    have "nat \<bar>df_val a\<bar> = (2 ^ 52 + df_man a) * 2 ^ (df_exp a - 1)"
      using assms by (simp only: df_val_def abs_mult) (simp add: df_mag_def del: of_nat_mult of_nat_add of_nat_power)
    moreover have "(2::nat) ^ 1077 = 2 ^ (1078 - df_exp a) * 2 ^ (df_exp a - 1)"
      using assms by (subst power_add [symmetric]) (rule arg_cong [where f = "\<lambda>n. 2 ^ n"], simp)
    ultimately show ?thesis by (metis div_mult_mult2 power_not_zero zero_neq_numeral)
  qed
  finally show ?thesis by (simp add: f)
qed

end
