(* ===== verification/Softfloat_Arith.thy ===== *)
theory Softfloat_Arith
  imports Softfloat
begin

text \<open>
  What the arithmetic and the conversions of \<^verbatim>\<open>tools/softfloat.c\<close> compute, on the
  definitions of theory \<^verbatim>\<open>Softfloat\<close>: the quotient loop, renormalisation and
  rounding in \<^verbatim>\<open>pack\<close>, sums, products and quotients, single-to-double and
  double-to-integer conversion, and the properties of the file.
\<close>

section \<open>Values of singles, and the aligned sum\<close>

definition sf_exp :: "u32 \<Rightarrow> nat" where "sf_exp f = unat f div 2 ^ 23 mod 2 ^ 8"
definition sf_man :: "u32 \<Rightarrow> nat" where "sf_man f = unat f mod 2 ^ 23"
definition sf_neg :: "u32 \<Rightarrow> bool" where "sf_neg f \<longleftrightarrow> 2 ^ 31 \<le> unat f"

text \<open>The magnitude of a finite single, as a multiple of $2^{-149}$.\<close>

definition sf_mag :: "u32 \<Rightarrow> nat" where
  "sf_mag f = (if sf_exp f = 0 then sf_man f else (2 ^ 23 + sf_man f) * 2 ^ (sf_exp f - 1))"

text \<open>What the two arms of \<^const>\<open>addsub\<close> make of the aligned mantissas $2^{55}$ and $t = 2^{55-d}$.\<close>

definition aligned_sum :: "bool \<Rightarrow> bool \<Rightarrow> nat \<Rightarrow> u64 \<Rightarrow> u64 \<Rightarrow> u64" where
  "aligned_sum na nb e m t =
     (if na = nb then
        case (if (m + t) AND 2 ^ 56 \<noteq> 0 then (drop_bit 1 (m + t), int e + 1) else (m + t, int e))
        of (m, e) \<Rightarrow> pack m e (int (of_bool na))
      else if m - t = 0 then 0 else pack (m - t) (int e) (int (of_bool na)))"

section \<open>The restoring division\<close>

lemma div_bits:
  fixes ma :: u64
  assumes "i < 56"
  shows "take_bit (Suc i) (drop_bit (56 - Suc i) ma) =
    push_bit i (drop_bit 55 ma AND 1) OR take_bit i (drop_bit (56 - i) (push_bit 1 ma))"
proof (rule bit_word_eqI)
  fix n
  assume "n < LENGTH(64)"
  with assms consider "n < i" | "n = i" | "i < n" by linarith
  then show "bit (take_bit (Suc i) (drop_bit (56 - Suc i) ma)) n =
    bit (push_bit i (drop_bit 55 ma AND 1) OR take_bit i (drop_bit (56 - i) (push_bit 1 ma))) n"
    by cases (use assms in \<open>simp_all only: bit_take_bit_iff bit_drop_bit_eq bit_or_iff bit_push_bit_iff bit_and_iff o_def bit_1_iff, auto\<close>)
qed

lemma unat_double_or:
  fixes m :: u64
  assumes "unat m < 2 ^ 63"
  shows "unat (push_bit 1 m OR (w AND 1)) = 2 * unat m + unat (w AND 1)"
proof -
  have "unat (w AND 1) < 2" using unat_and_mask [of w 1] by (simp add: mask_Suc_0)
  then show ?thesis using unat_concat [of "w AND 1" 1 m] assms by simp
qed

lemma div_loop_spec:
  assumes "unat m < unat mb" "unat mb < 2 ^ 63" "i \<le> 56" "(unat q + 1) * 2 ^ i \<le> 2 ^ 63"
  shows "unat (div_loop i m ma q mb) =
    unat q * 2 ^ i + (unat m * 2 ^ i + unat (take_bit i (drop_bit (56 - i) ma))) div unat mb"
  using assms
proof (induction i arbitrary: m ma q)
  case 0
  then show ?case by simp
next
  case (Suc i)
  define b where "b = drop_bit 55 ma AND 1"
  define m' where "m' = push_bit 1 m OR b"
  define t where "t = unat (take_bit i (drop_bit (56 - i) (push_bit 1 ma)))"
  have t_lt: "t < 2 ^ i" unfolding t_def unat_take_bit by simp
  have b: "unat b < 2" unfolding b_def using unat_and_mask [of "drop_bit 55 ma" 1] by (simp add: mask_Suc_0)
  have m': "unat m' = 2 * unat m + unat b"
    unfolding m'_def b_def using Suc.prems by (intro unat_double_or) linarith
  have top: "unat (take_bit (Suc i) (drop_bit (56 - Suc i) ma)) = unat b * 2 ^ i + t"
  proof -
    have "(2::nat) * 2 ^ i \<le> 2 ^ 56" using Suc.prems power_increasing [of "Suc i" 56 "2::nat"] by simp
    moreover have "unat b * 2 ^ i \<le> 1 * 2 ^ i" using b by (intro mult_le_mono1) linarith
    ultimately have "unat b * 2 ^ i + t < 2 ^ 56" using t_lt by linarith
    then show ?thesis unfolding t_def b_def div_bits [OF Suc_le_lessD [OF Suc.prems(3)]]
      using t_lt by (subst unat_concat) (simp_all add: t_def b_def)
  qed
  have split: "unat m * 2 ^ Suc i + (unat b * 2 ^ i + t) = unat m' * 2 ^ i + t"
    by (simp add: m' algebra_simps)
  have qb: "unat q < 2 ^ 63"
  proof -
    have "unat q + 1 \<le> (unat q + 1) * 2 ^ Suc i"
      using mult_le_mono2 [of 1 "2 ^ Suc i" "unat q + 1"] by (simp only: mult_1_right one_le_power one_le_numeral)
    with Suc.prems(4) show ?thesis by linarith
  qed
  have q2: "unat (push_bit 1 q) = 2 * unat q" "unat (push_bit 1 q OR 1) = 2 * unat q + 1"
    using unat_push_bit_small [of q 1] unat_double_or [of q 1] qb by simp_all
  show ?case
  proof (cases "m' \<ge> mb")
    case True
    then have le: "unat mb \<le> unat m'" by (simp add: word_le_nat_alt)
    have s: "unat (m' - mb) = unat m' - unat mb" using True by (simp add: unat_sub)
    have "div_loop (Suc i) m ma q mb = div_loop i (m' - mb) (push_bit 1 ma) (push_bit 1 q OR 1) mb"
      using True by (simp only: div_loop.simps Let_def m'_def b_def if_True)
    also have "unat \<dots> = (2 * unat q + 1) * 2 ^ i + (unat (m' - mb) * 2 ^ i + t) div unat mb"
      unfolding t_def q2(2) [symmetric]
    proof (rule Suc.IH)
      show "unat (m' - mb) < unat mb" unfolding s using Suc.prems(1) b m' by linarith
      show "(unat (push_bit 1 q OR 1) + 1) * 2 ^ i \<le> 2 ^ 63" unfolding q2 using Suc.prems(4) by simp
    qed (use Suc.prems in simp_all)
    also have "\<dots> = unat q * 2 ^ Suc i + (unat m' * 2 ^ i + t) div unat mb"
    proof -
      have "unat m' * 2 ^ i + t = unat mb * 2 ^ i + (unat (m' - mb) * 2 ^ i + t)"
        using mult_le_mono1 [OF le, of "2 ^ i"] unfolding s diff_mult_distrib by linarith
      moreover have "unat mb \<noteq> 0" using Suc.prems(1) by linarith
      ultimately have "(unat m' * 2 ^ i + t) div unat mb = 2 ^ i + (unat (m' - mb) * 2 ^ i + t) div unat mb"
        using div_mult_self4 [of "unat mb"] by presburger
      then show ?thesis by (simp add: algebra_simps)
    qed
    finally show ?thesis by (simp only: top split)
  next
    case False
    then have lt: "unat m' < unat mb" by (simp add: word_le_nat_alt)
    have "div_loop (Suc i) m ma q mb = div_loop i m' (push_bit 1 ma) (push_bit 1 q) mb"
      using False by (simp only: div_loop.simps Let_def m'_def b_def if_False)
    also have "unat \<dots> = (2 * unat q) * 2 ^ i + (unat m' * 2 ^ i + t) div unat mb"
      unfolding t_def q2(1) [symmetric]
    proof (rule Suc.IH)
      have "(2 * unat q + 1) * 2 ^ i \<le> (unat q + 1) * 2 ^ Suc i" by (simp add: algebra_simps)
      then show "(unat (push_bit 1 q) + 1) * 2 ^ i \<le> 2 ^ 63" unfolding q2 using Suc.prems(4) by linarith
    qed (use Suc.prems lt in simp_all)
    finally show ?thesis by (simp only: top split) (simp add: algebra_simps)
  qed
qed

lemma div_loop_quotient:
  assumes "unat ma < 2 ^ 56" "0 < unat mb" "unat mb < 2 ^ 63"
  shows "unat (div_loop 56 0 ma 0 mb) = unat ma div unat mb"
  using div_loop_spec [of 0 mb 56 0 ma] assms by (simp add: unat_take_bit)

section \<open>Renormalisation in pack\<close>

lemma pack_up_shift:
  assumes "0 < unat m" "unat m * 2 ^ j < 2 ^ 56" "2 ^ 55 \<le> unat m * 2 ^ j" "int j < e"
  shows "pack_up m e = (push_bit j m, e - int j)"
  using assms
proof (induction j arbitrary: m e)
  case 0
  then show ?case by (simp add: pack_up_stop word_le_nat_alt)
next
  case (Suc j)
  have "unat m * 2 ^ Suc j < 2 ^ 56" by (rule Suc.prems)
  then have "unat m * 2 < 2 ^ 56"
    by (metis (no_types, lifting) le_less_trans mult.assoc mult_le_mono2 one_le_numeral one_le_power power_Suc mult.right_neutral)
  then have d: "unat (push_bit 1 m) = unat m * 2" and lt: "m < 2 ^ 55"
    using unat_push_bit_small [of m 1] by (simp_all add: word_less_nat_alt)
  have "pack_up (push_bit 1 m) (e - 1) = (push_bit j (push_bit 1 m), e - 1 - int j)"
    using Suc.prems by (intro Suc.IH) (simp_all only: d, simp_all)
  then show ?case
    using lt Suc.prems(4) by (subst pack_up.simps) (simp add: push_bit_Suc mult.commute)
qed

lemma pack_up_zero: "pack_up 0 e = (0, if 1 < e then 1 else e)"
proof (induction "nat e" arbitrary: e rule: less_induct)
  case less
  then show ?case by (subst pack_up.simps) auto
qed

lemma pack_zero: "pack 0 e s = (if e \<le> 0 then 0 else push_bit 63 (word_of_int s) OR push_bit 52 1)"
proof (cases "e = 1")
  case True
  then show ?thesis by (simp add: pack_def pack_up_zero pack_down_stop)
next
  case False
  then show ?thesis by (auto simp: pack_def pack_up_zero pack_down_stop)
qed

lemma unpack_normal:
  assumes "0 < df_exp a"
  obtains m where "unpack a = (int (df_exp a), of_bool (df_neg a), m)"
    "unat m = (2 ^ 52 + df_man a) * 8"
proof
  show "unpack a = (int (df_exp a), of_bool (df_neg a), push_bit 3 ((a AND DF_MANT) OR 0x10000000000000))"
    using assms unfolding unpack_def Let_def exp_field by simp
  show "unat (push_bit 3 ((a AND DF_MANT) OR 0x10000000000000)) = (2 ^ 52 + df_man a) * 8"
    using df_man_less [of a] by (subst unat_push_bit_small) (simp_all only: df_implicit, simp_all)
qed

lemma abs_zero [simp]: "a AND (DF_EXP OR DF_MANT) = 0 \<longleftrightarrow> df_exp a = 0 \<and> df_man a = 0"
proof -
  have m: "DF_EXP OR DF_MANT = mask 63" by (simp add: DF_EXP_def DF_MANT_def mask_eq_exp_minus_1)
  have "a AND mask 63 = 0 \<longleftrightarrow> unat a mod 2 ^ 63 = 0"
    by (metis unat_and_mask unat_eq_zero)
  also have "unat a mod 2 ^ 63 = df_exp a * 2 ^ 52 + df_man a"
    using mod_mult2_eq [of "unat a" "2 ^ 52" "2 ^ 11"] by (simp add: df_exp_def df_man_def)
  finally show ?thesis by (simp add: m)
qed

lemma exp_raw [simp]: "drop_bit 52 a = 0x7FF \<longleftrightarrow> df_exp a = 2047 \<and> \<not> df_neg a"
proof -
  have "drop_bit 52 a = 0x7FF \<longleftrightarrow> unat a div 2 ^ 52 = 2047"
    by (simp add: word_unat_eq_iff unat_drop_bit)
  also have "unat a div 2 ^ 52 = (if df_neg a then 2048 else 0) + df_exp a"
  proof (cases "df_neg a")
    case True
    then have "2 ^ 63 div 2 ^ 52 \<le> unat a div 2 ^ 52" unfolding df_neg_def by (rule div_le_mono)
    moreover have "unat a div 2 ^ 52 < 4096" using unsigned_less [where ?'a = nat, of a] by auto
    ultimately show ?thesis using True by (simp add: df_exp_def le_mod_geq)
  next
    case False
    then show ?thesis by (simp add: df_neg_def df_exp_def)
  qed
  finally show ?thesis by auto
qed

lemma exp_ones' [simp]: "drop_bit 52 x AND 0x7FF = 0x7FF \<longleftrightarrow> df_exp x = 2047" for x :: u64
proof -
  have "drop_bit 52 x AND 0x7FF = 0x7FF \<longleftrightarrow> uint (drop_bit 52 x AND 0x7FF) = 0x7FF"
    by (simp add: word_uint_eq_iff del: exp_field)
  then show ?thesis by simp
qed

lemma df_inf: "s < 2 \<Longrightarrow> df_exp (push_bit 63 (of_nat s) OR DF_EXP) = 2047"
  "s < 2 \<Longrightarrow> df_man (push_bit 63 (of_nat s) OR DF_EXP) = 0"
  "s < 2 \<Longrightarrow> df_neg (push_bit 63 (of_nat s) OR DF_EXP) \<longleftrightarrow> s = 1"
  using df_fields_assemble [of s 2047 0, OF _ _ _ refl] by (simp_all add: DF_EXP_def)

section \<open>What the arithmetic computes\<close>

lemma addsub_fraction:
  assumes "df_exp a < 2047" "df_exp b < 2047" "df_man a \<noteq> 0 \<or> df_man b \<noteq> 0"
  shows "addsub a b sub = push_bit 63 (of_bool (df_neg b \<noteq> (sub \<noteq> 0))) OR DF_EXP"
  using assms by (auto simp: addsub_def Let_def)

lemma muldf3_pow2:
  assumes "0 < df_exp a" "df_exp a < 2047" "df_man a = 0" "0 < df_exp b" "df_exp b < 2047" "df_man b = 0"
  shows "muldf3 a b = (if df_exp a + df_exp b \<le> 1023 then 0
    else push_bit 63 (of_bool (df_neg a \<noteq> df_neg b)) OR push_bit 52 1)"
proof -
  obtain ma where a: "unpack a = (int (df_exp a), of_bool (df_neg a), ma)" "unat ma = 2 ^ 55"
    using unpack_normal [OF assms(1)] assms(3) by auto
  obtain mb where b: "unpack b = (int (df_exp b), of_bool (df_neg b), mb)" "unat mb = 2 ^ 55"
    using unpack_normal [OF assms(4)] assms(6) by auto
  have "ma = 2 ^ 55" "mb = 2 ^ 55" using a(2) b(2) by (simp_all add: word_unat_eq_iff)
  then have r: "mul64 ma mb = 0" by (simp add: mul64_eq)
  show ?thesis
    using assms by (auto simp: muldf3_def a(1) b(1) r Let_def pack_zero)
qed

lemma divdf3_pow2:
  assumes "0 < df_exp a" "df_exp a < 2047" "df_man a = 0" "0 < df_exp b" "df_exp b < 2047" "df_man b = 0"
    and e: "df_exp b < df_exp a + 968" "df_exp a + 968 < df_exp b + 2046"
  shows "df_exp (divdf3 a b) = df_exp a + 968 - df_exp b \<and> df_man (divdf3 a b) = 0 \<and>
    df_neg (divdf3 a b) = (df_neg a \<noteq> df_neg b)"
proof -
  obtain ma where a: "unpack a = (int (df_exp a), of_bool (df_neg a), ma)" "unat ma = 2 ^ 55"
    using unpack_normal [OF assms(1)] assms(3) by auto
  obtain mb where b: "unpack b = (int (df_exp b), of_bool (df_neg b), mb)" "unat mb = 2 ^ 55"
    using unpack_normal [OF assms(4)] assms(6) by auto
  define q where "q = div_loop 56 0 ma 0 mb"
  have "unat q = 1" unfolding q_def using a b by (subst div_loop_quotient) auto
  then have q: "q = 1" by (simp add: word_unat_eq_iff)
  define E where "E = df_exp a + 968 - df_exp b"
  define s :: nat where "s = of_bool (df_neg a \<noteq> df_neg b)"
  have "pack_up 1 (int (df_exp a) - int (df_exp b) + 1023) = (2 ^ 55, int E)"
    using pack_up_shift [of 1 55 "int (df_exp a) - int (df_exp b) + 1023"] e
    by (simp add: E_def of_nat_diff)
  then have "pack 1 (int (df_exp a) - int (df_exp b) + 1023) (int s) =
      push_bit 63 (of_nat s) OR push_bit 52 (of_nat E) OR of_nat 0"
    using e unfolding pack_def E_def by (simp add: pack_down_stop DF_MANT_def)
  moreover have "divdf3 a b = pack 1 (int (df_exp a) - int (df_exp b) + 1023) (int s)"
    using assms by (auto simp: divdf3_def a(1) b(1) Let_def s_def q q_def [symmetric])
  ultimately have x: "divdf3 a b = push_bit 63 (of_nat s) OR push_bit 52 (of_nat E) OR of_nat 0" by simp
  show ?thesis
    using df_fields_assemble [OF _ _ _ x] e by (auto simp: s_def E_def)
qed


lemma rne8_exact: "rne8 (8 * n) = n"
  by (simp add: rne8_def)

lemma pack_sum:
  assumes m: "unat m = 2 ^ 55 + 2 ^ (55 - d)" and d: "d \<le> 52" and e: "1 \<le> e" "e < 2045" and s: "s < 2"
  shows "df_val (case (if m AND 2 ^ 56 \<noteq> 0 then (drop_bit 1 m, int e + 1) else (m, int e)) of
      (m, e) \<Rightarrow> pack m e (int s)) = (- 1) ^ s * int ((2 ^ 52 + 2 ^ (52 - d)) * 2 ^ (e - 1))"
proof (cases "d = 0")
  case True
  then have "unat m = 2 ^ 56" using m by simp
  then have "m = 2 ^ 56" by (simp add: word_unat_eq_iff)
  then have "m AND 2 ^ 56 \<noteq> 0" "drop_bit 1 m = 2 ^ 55" by simp_all
  moreover have "df_val (pack (2 ^ 55) (int (e + 1)) (int s)) = (- 1) ^ s * int (rne8 (unat (2 ^ 55 :: u64))) * 2 ^ e"
    using e s by (subst pack_normal) auto
  moreover have "rne8 (unat (2 ^ 55 :: u64)) = 2 ^ 52" by (simp add: rne8_def)
  moreover have "(2::int) ^ e = 2 * 2 ^ (e - 1)" using e by (cases e) auto
  ultimately show ?thesis using True by (simp add: add.commute)
next
  case False
  have m8: "unat m = 8 * (2 ^ 52 + 2 ^ (52 - d))"
  proof -
    have "(2::nat) ^ (55 - d) = 2 ^ 3 * 2 ^ (52 - d)"
      using d by (subst power_add [symmetric]) (rule arg_cong [where f = "\<lambda>n. 2 ^ n"], simp)
    then show ?thesis by (simp add: m)
  qed
  have "(2::nat) ^ (52 - d) \<le> 2 ^ 51" using False by (intro power_increasing) auto
  then have lim: "2 ^ 55 \<le> unat m" "unat m < 2 ^ 56" unfolding m8 by simp_all
  then have "m AND 2 ^ 56 = 0" unfolding and_pow_eq_0 by simp
  moreover have "df_val (pack m (int e) (int s)) = (- 1) ^ s * int (rne8 (unat m)) * 2 ^ (e - 1)"
    using lim e s by (intro pack_normal) (simp_all add: word_le_nat_alt word_less_nat_alt)
  ultimately show ?thesis unfolding m8 rne8_exact by simp
qed

lemma pack_diff:
  assumes m: "unat m = 2 ^ 55 - 2 ^ (55 - d)" and d: "1 \<le> d" "d \<le> 52" and e: "2 \<le> e" "e < 2047" and s: "s < 2"
  shows "df_val (pack m (int e) (int s)) = (- 1) ^ s * int ((2 ^ 52 - 2 ^ (52 - d)) * 2 ^ (e - 1))"
proof -
  have m4: "unat m = 8 * (2 ^ 52 - 2 ^ (52 - d))"
  proof -
    have "(2::nat) ^ (55 - d) = 2 ^ 3 * 2 ^ (52 - d)"
      using d by (subst power_add [symmetric]) (rule arg_cong [where f = "\<lambda>n. 2 ^ n"], simp)
    then show ?thesis by (simp add: m)
  qed
  have "(2::nat) ^ (52 - d) \<le> 2 ^ 51" using d by (intro power_increasing) auto
  moreover have "(0::nat) < 2 ^ (52 - d)" by simp
  ultimately have lim: "2 ^ 55 \<le> unat m * 2" "unat m * 2 < 2 ^ 56" unfolding m4 by (simp_all del: zero_less_power)
  have u: "unat (push_bit 1 m) = unat m * 2"
    using lim by (subst unat_push_bit_small) simp_all
  have up: "pack_up m (int e) = (push_bit 1 m, int (e - 1))"
    using pack_up_shift [of m 1 "int e"] lim e by (simp add: of_nat_diff)
  have "pack m (int e) (int s) = pack (push_bit 1 m) (int (e - 1)) (int s)"
    unfolding pack_def up using lim u by (subst pack_up_stop) (simp_all add: word_le_nat_alt)
  also have "df_val \<dots> = (- 1) ^ s * int (rne8 (unat m * 2)) * 2 ^ (e - 1 - 1)"
    using lim e s u by (subst pack_normal) (simp_all add: word_le_nat_alt word_less_nat_alt)
  also have "rne8 (unat m * 2) = 2 * (2 ^ 52 - 2 ^ (52 - d))"
    using rne8_exact [of "2 * (2 ^ 52 - 2 ^ (52 - d))"] by (simp add: m4 algebra_simps)
  also have "(- 1) ^ s * int (2 * (2 ^ 52 - 2 ^ (52 - d))) * 2 ^ (e - 1 - 1) =
      (- 1) ^ s * int ((2 ^ 52 - 2 ^ (52 - d)) * (2 * 2 ^ (e - 1 - 1)))"
    by (simp only: of_nat_mult of_nat_power of_nat_numeral ac_simps)
  also have "(2::nat) * 2 ^ (e - 1 - 1) = 2 ^ (e - 1)"
    using e power_Suc [of "2::nat" "e - 2"] by (simp add: numeral_2_eq_2 Suc_diff_Suc)
  finally show ?thesis .
qed


lemma pow2_man: "df_man x = 0 \<Longrightarrow> 0 < df_exp x \<Longrightarrow>
    df_val x = (- 1) ^ of_bool (df_neg x) * int (2 ^ 52 * 2 ^ (df_exp x - 1))"
  by (simp add: df_val_def df_mag_def)

lemma align_pow2:
  assumes "d \<le> 55"
  shows "unat (shr64 (2 ^ 55) (word_of_int (int d))) = 2 ^ (55 - d)"
proof -
  have "unat (word_of_int (int d) :: u32) = d" using assms by (simp add: unat_of_nat)
  then have "unat (shr64 (2 ^ 55) (word_of_int (int d))) = 2 ^ 55 div 2 ^ d"
    by (simp only: shr64_eq unat_drop_bit) simp
  also have "(2::nat) ^ 55 div 2 ^ d = 2 ^ (55 - d)"
    using assms by (simp only: power_diff)
  finally show ?thesis .
qed

lemma pow2_parts:
  fixes t :: u64
  assumes t: "unat t = 2 ^ (55 - d)" and d: "d \<le> 52"
  shows "t \<le> 2 ^ 55" "unat (2 ^ 55 - t) = 2 ^ 55 - 2 ^ (55 - d)" "2 ^ 55 - t = 0 \<longleftrightarrow> d = 0"
    "unat (2 ^ 55 + t) = 2 ^ 55 + 2 ^ (55 - d)"
proof -
  show le: "t \<le> 2 ^ 55"
    by (simp add: word_le_nat_alt t power_increasing [of "55 - d" 55 "2::nat", simplified])
  then show "unat (2 ^ 55 - t) = 2 ^ 55 - 2 ^ (55 - d)" by (simp add: unat_sub t)
  have "2 ^ 55 - t = 0 \<longleftrightarrow> t = 2 ^ 55" by auto
  also have "\<dots> \<longleftrightarrow> (2::nat) ^ (55 - d) = 2 ^ 55" by (simp add: word_unat_eq_iff t)
  also have "\<dots> \<longleftrightarrow> d = 0" using d by (subst power_inject_exp) auto
  finally show "2 ^ 55 - t = 0 \<longleftrightarrow> d = 0" .
  show "unat (2 ^ 55 + t) = 2 ^ 55 + 2 ^ (55 - d)"
    using le by (simp add: unat_word_ariths t word_le_nat_alt)
qed

lemma aligned_sum_val:
  assumes t: "unat t = 2 ^ (55 - d)" and d: "d \<le> 52" and e: "2 \<le> e" "e < 2045"
  shows "df_val (aligned_sum na nb e (2 ^ 55) t) =
    (- 1) ^ of_bool na * int (2 ^ 52 * 2 ^ (e - 1)) + (- 1) ^ of_bool nb * int (2 ^ (52 - d) * 2 ^ (e - 1))"
proof (cases "na = nb")
  case True
  have "df_val (aligned_sum na nb e (2 ^ 55) t) = (- 1) ^ of_bool na * int ((2 ^ 52 + 2 ^ (52 - d)) * 2 ^ (e - 1))"
    unfolding aligned_sum_def if_P [OF True] using e d by (intro pack_sum pow2_parts [OF t d]) auto
  then show ?thesis using True by (simp add: algebra_simps)
next
  case False
  show ?thesis
  proof (cases "d = 0")
    case True
    then have "2 ^ 55 - t = 0" using pow2_parts(3) [OF t d] by simp
    then show ?thesis unfolding aligned_sum_def using True False by (cases nb) simp_all
  next
    case nz: False
    then have "2 ^ 55 - t \<noteq> 0" using pow2_parts(3) [OF t d] by simp
    then have "df_val (aligned_sum na nb e (2 ^ 55) t) = (- 1) ^ of_bool na * int ((2 ^ 52 - 2 ^ (52 - d)) * 2 ^ (e - 1))"
      unfolding aligned_sum_def if_not_P [OF False] if_not_P [OF \<open>2 ^ 55 - t \<noteq> 0\<close>]
      using e d nz by (intro pack_diff pow2_parts [OF t d]) auto
    moreover have "(2::nat) ^ (52 - d) \<le> 2 ^ 52" by (intro power_increasing) auto
    ultimately show ?thesis using False by (cases nb) (simp_all add: of_nat_diff algebra_simps)
  qed
qed

lemma addsub_aligned:
  assumes "2 \<le> df_exp a" "df_exp a < 2045" "df_man a = 0" "2 \<le> df_exp b" "df_man b = 0"
    and "df_exp b \<le> df_exp a" "df_exp a \<le> df_exp b + 52"
  obtains t where "unat t = 2 ^ (55 - (df_exp a - df_exp b))"
    "addsub a b sub = aligned_sum (df_neg a) (df_neg b) (df_exp a) (2 ^ 55) t"
    "df_exp b < df_exp a \<Longrightarrow> addsub b a sub = aligned_sum (df_neg a) (df_neg b) (df_exp a) (2 ^ 55) t"
proof -
  obtain ma where a: "unpack a = (int (df_exp a), of_bool (df_neg a), ma)" "unat ma = 2 ^ 55"
    using unpack_normal [of a] assms(1,3) by auto
  obtain mb where b: "unpack b = (int (df_exp b), of_bool (df_neg b), mb)" "unat mb = 2 ^ 55"
    using unpack_normal [of b] assms(4,5) by auto
  have ma: "2 ^ 55 = ma" and mb: "mb = ma" using a(2) b(2) by (simp_all add: word_unat_eq_iff)
  define d where "d = df_exp a - df_exp b"
  have d: "d \<le> 52" and dd: "int (df_exp a) - int (df_exp b) = int d"
    using assms(6,7) by (simp_all add: d_def of_nat_diff)
  define t where "t = shr64 ma (word_of_int (int d))"
  have t: "unat t = 2 ^ (55 - d)" unfolding t_def ma [symmetric] using d by (intro align_pow2) simp
  note parts = pow2_parts [OF t d, unfolded ma]
  have flags: "df_exp a \<noteq> 2047" "df_exp b \<noteq> 2047" "df_exp a \<noteq> 0" "df_exp b \<noteq> 0"
    using assms by auto
  have ab: "addsub a b sub = aligned_sum (df_neg a) (df_neg b) (df_exp a) ma t"
    using flags parts(1) assms unfolding addsub_def Let_def a(1) b(1) mb aligned_sum_def
    by (auto simp: dd t_def)
  have ba: "addsub b a sub = aligned_sum (df_neg a) (df_neg b) (df_exp a) ma t" if "df_exp b < df_exp a"
  proof -
    have "d \<noteq> 0" using that by (simp add: d_def)
    then have "\<not> ma \<le> t" using parts(1,3) by auto
    with that show ?thesis
      using flags parts(1) assms unfolding addsub_def Let_def a(1) b(1) mb aligned_sum_def
      by (auto simp: dd t_def add.commute)
  qed
  show thesis using that t ab ba unfolding ma d_def by blast
qed

lemma addsub_pow2_le:
  assumes "2 \<le> df_exp a" "df_exp a < 2045" "df_man a = 0" "2 \<le> df_exp b" "df_man b = 0"
    and "df_exp b \<le> df_exp a" "df_exp a \<le> df_exp b + 52"
  shows "df_val (addsub a b sub) = df_val a + df_val b"
    and "df_exp b < df_exp a \<Longrightarrow> df_val (addsub b a sub) = df_val a + df_val b"
proof -
  define d where "d = df_exp a - df_exp b"
  have d: "d \<le> 52" using assms(7) by (simp add: d_def)
  have scale: "(2::nat) ^ 52 * 2 ^ (df_exp b - 1) = 2 ^ (52 - d) * 2 ^ (df_exp a - 1)"
    using assms(4,6) d by (simp only: power_add [symmetric]) (rule arg_cong [where f = "\<lambda>n. 2 ^ n"], simp add: d_def)
  have v: "df_val a = (- 1) ^ of_bool (df_neg a) * int (2 ^ 52 * 2 ^ (df_exp a - 1))"
    "df_val b = (- 1) ^ of_bool (df_neg b) * int (2 ^ (52 - d) * 2 ^ (df_exp a - 1))"
    using pow2_man [of a] pow2_man [of b] assms(1,3,4,5) unfolding scale by simp_all
  obtain t where t: "unat t = 2 ^ (55 - d)"
    "addsub a b sub = aligned_sum (df_neg a) (df_neg b) (df_exp a) (2 ^ 55) t"
    "df_exp b < df_exp a \<Longrightarrow> addsub b a sub = aligned_sum (df_neg a) (df_neg b) (df_exp a) (2 ^ 55) t"
    unfolding d_def using addsub_aligned [OF assms] by metis
  note val = aligned_sum_val [OF t(1) d assms(1,2), of "df_neg a" "df_neg b", folded v]
  show "df_val (addsub a b sub) = df_val a + df_val b" unfolding t(2) by (rule val)
  show "df_val (addsub b a sub) = df_val a + df_val b" if "df_exp b < df_exp a"
    unfolding t(3) [OF that] by (rule val)
qed

lemma addsub_pow2:
  assumes "2 \<le> df_exp a" "df_exp a < 2045" "df_man a = 0" "2 \<le> df_exp b" "df_exp b < 2045" "df_man b = 0"
    and "df_exp b \<le> df_exp a + 52" "df_exp a \<le> df_exp b + 52"
  shows "df_val (addsub a b sub) = df_val a + df_val b"
proof (cases "df_exp b \<le> df_exp a")
  case True
  then show ?thesis using assms by (intro addsub_pow2_le) auto
next
  case False
  then show ?thesis using addsub_pow2_le(2) [of b a sub] assms by simp
qed

section \<open>Single to double\<close>

lemma sf_fields [simp]:
  "uint (drop_bit 23 f AND 0xFF) = int (sf_exp f)"
  "f AND 0x7FFFFF = of_nat (sf_man f)"
  "drop_bit 31 f = 0 \<longleftrightarrow> \<not> sf_neg f" for f :: u32
proof -
  have m: "(0xFF :: u32) = mask 8" "(0x7FFFFF :: u32) = mask 23" by (simp_all add: mask_eq_exp_minus_1)
  show "uint (drop_bit 23 f AND 0xFF) = int (sf_exp f)"
    unfolding m(1) sf_exp_def uint_nat unat_and_mask unat_drop_bit ..
  have "unat (f AND 0x7FFFFF) = sf_man f"
    unfolding m(2) sf_man_def unat_and_mask ..
  then show "f AND 0x7FFFFF = of_nat (sf_man f)" by (metis of_nat_unat ucast_id)
  have "drop_bit 31 f = 0 \<longleftrightarrow> unat f div 2 ^ 31 = 0"
    by (metis unat_drop_bit unat_eq_zero)
  then show "drop_bit 31 f = 0 \<longleftrightarrow> \<not> sf_neg f" by (simp add: sf_neg_def div_eq_0_iff not_le)
qed

lemma sf_limits: "sf_man f < 2 ^ 23" "sf_exp f < 256"
  by (simp_all add: sf_man_def sf_exp_def)

lemma push_bit_of_nat: "push_bit n (of_nat k) = (of_nat (k * 2 ^ n) :: 'a::len word)"
  by (simp add: push_bit_eq_mult)

lemma extendsfdf2_normal:
  assumes "0 < sf_exp f" "sf_exp f < 255"
  shows "\<exists>d. extendsfdf2 f = Some d \<and> df_exp d < 2047 \<and> df_neg d = sf_neg f \<and>
    df_val d = (if sf_neg f then - 1 else 1) * int (sf_mag f) * 2 ^ 925"
proof -
  define d :: u64 where "d = push_bit 63 (of_nat (of_bool (sf_neg f))) OR push_bit 52 (of_nat (sf_exp f + 896)) OR of_nat (sf_man f * 2 ^ 29)"
  have u: "ucast (of_nat (sf_man f) :: u32) = (of_nat (sf_man f) :: u64)"
    using sf_limits(1) [of f] by (simp add: word_unat_eq_iff unat_of_nat unat_ucast_up)
  have x: "extendsfdf2 f = Some d"
    using assms by (simp add: extendsfdf2_def Let_def d_def u push_bit_of_nat)
  have p: "(2::int) ^ (sf_exp f + 895) * 2 ^ 29 = 2 ^ (sf_exp f - 1) * 2 ^ 925"
    using assms(1) by (simp only: power_add [symmetric]) (rule arg_cong [where f = "\<lambda>n. 2 ^ n"], simp)
  note fl = df_fields_assemble [OF _ _ _ d_def]
  have "df_val d = (if sf_neg f then - 1 else 1) * int ((2 ^ 23 + sf_man f)) * (2 ^ (sf_exp f + 895) * 2 ^ 29)"
    using fl assms sf_limits(1) [of f] by (simp add: df_val_def df_mag_def algebra_simps)
  then show ?thesis
    using x fl assms sf_limits(1) [of f] unfolding p by (auto simp: sf_mag_def)
qed


lemma norm_sf_total:
  assumes "0 < unat m" "unat m < 2 ^ 23"
  shows "\<exists>j. j \<ge> 1 \<and> 2 ^ 23 \<le> unat m * 2 ^ j \<and> unat m * 2 ^ j < 2 ^ 24 \<and>
     norm_sf m k = Some (push_bit j m, k + int j)"
  using assms
proof (induction "2 ^ 23 - unat m" arbitrary: m k rule: less_induct)
  case less
  have z: "m AND 0x800000 = 0" using less.prems and_pow_eq_0 [of m 23] by simp
  have p: "unat (m * 2) = unat m * 2"
    using less.prems by (simp add: unat_word_ariths)
  show ?case
  proof (cases "unat m * 2 < 2 ^ 23")
    case True
    have "2 ^ 23 - unat (m * 2) < 2 ^ 23 - unat m" using less.prems p True by simp
    from less.hyps [OF this, of "k + 1"] obtain j where j: "j \<ge> 1" "2 ^ 23 \<le> unat (m * 2) * 2 ^ j" "unat (m * 2) * 2 ^ j < 2 ^ 24"
      "norm_sf (m * 2) (k + 1) = Some (push_bit j (m * 2), k + 1 + int j)"
      using less.prems p True by auto
    show ?thesis
      using j z by (intro exI [of _ "Suc j"])
        (simp add: norm_sf.simps [of m k] p push_bit_Suc mult.commute)
  next
    case False
    have "(m * 2) AND 2 ^ 23 \<noteq> 0"
    proof -
      have "unat m * 2 div 2 ^ 23 = 1" using False less.prems by (intro div_nat_eqI) auto
      then show ?thesis unfolding and_pow_eq_0 p by simp
    qed
    then have "norm_sf (m * 2) (k + 1) = Some (m * 2, k + 1)"
      by (subst norm_sf.simps) simp
    then show ?thesis
      using z False less.prems by (intro exI [of _ 1]) (simp add: norm_sf.simps [of m k])
  qed
qed

lemma or_one_of_nat: "of_nat k OR 1 = (of_nat (if even k then k + 1 else k) :: u64)"
  by (simp add: or_one_eq)


lemma extendsfdf2_denormal:
  assumes "sf_exp f = 0" "sf_man f \<noteq> 0"
  shows "\<exists>n d. 2 ^ 23 \<le> sf_man f * 2 ^ n \<and> sf_man f * 2 ^ n < 2 ^ 24 \<and> extendsfdf2 f = Some d \<and>
    df_val d = (if sf_neg f then - 1 else 1) * (if odd n then 2 else 1) * int (sf_mag f) * 2 ^ 925"
proof -
  have um: "unat (of_nat (sf_man f) :: u32) = sf_man f"
    using sf_limits(1) [of f] by (simp add: unat_of_nat)
  obtain n where n: "n \<ge> 1" "2 ^ 23 \<le> sf_man f * 2 ^ n" "sf_man f * 2 ^ n < 2 ^ 24"
    "norm_sf (of_nat (sf_man f)) 0 = Some (push_bit n (of_nat (sf_man f)), int n)"
    using norm_sf_total [of "of_nat (sf_man f)" 0] assms(2) sf_limits(1) [of f] by (auto simp: um)
  have nz: "(of_nat (sf_man f) :: u32) \<noteq> 0" using um assms(2) by (metis unat_0)
  define r where "r = sf_man f * 2 ^ n - 2 ^ 23"
  have r: "sf_man f * 2 ^ n = 2 ^ 23 + r" "r < 2 ^ 23" using n by (simp_all add: r_def)
  have n24: "n < 24"
  proof (rule ccontr)
    assume "\<not> n < 24"
    then have "1 * (2::nat) ^ 24 \<le> sf_man f * 2 ^ n"
      using assms(2) by (intro mult_le_mono power_increasing) auto
    with n(3) show False by simp
  qed
  define E where "E = (if even n then 897 - n else 898 - n)"
  have m': "push_bit 29 (ucast (push_bit n (of_nat (sf_man f) :: u32))) = (push_bit 52 1 OR of_nat (r * 2 ^ 29) :: u64)"
  proof -
    have "unat (push_bit n (of_nat (sf_man f)) :: u32) = 2 ^ 23 + r"
      using n(3) by (subst unat_push_bit_small) (simp_all add: um r)
    then have "unat (push_bit 29 (ucast (push_bit n (of_nat (sf_man f) :: u32))) :: u64) = (2 ^ 23 + r) * 2 ^ 29"
      using r(2) by (subst unat_push_bit_small) (simp_all add: unat_ucast_up)
    also have "\<dots> = unat (push_bit 52 1 OR of_nat (r * 2 ^ 29) :: u64)"
    proof -
      have "unat (of_nat (r * 2 ^ 29) :: u64) = r * 2 ^ 29" unfolding unat_of_nat using r(2) by simp
      then show ?thesis using r(2) by (subst unat_concat) (simp_all only:, simp_all)
    qed
    finally show ?thesis by (simp add: word_unat_eq_iff)
  qed
  define d :: u64 where "d = push_bit 63 (of_nat (of_bool (sf_neg f))) OR push_bit 52 (of_nat E) OR of_nat (r * 2 ^ 29)"
  have e: "push_bit 52 (of_nat (897 - n)) OR push_bit 52 1 = (push_bit 52 (of_nat E) :: u64)"
    using or_one_of_nat [of "897 - n"] n24 unfolding push_bit_or [symmetric] E_def by (simp add: Suc_diff_le)
  have "word_of_int (1 + 896 - int n) = (of_nat (897 - n) :: u64)"
    using word_of_int_diff_nat [of n 897, where ?'a = 64] n24 by simp
  then have x: "extendsfdf2 f = Some d"
    using assms unfolding extendsfdf2_def d_def Let_def sf_fields n(4) e [symmetric]
    using nz by (simp add: m' or.assoc del: push_bit_of_1)
  have fl: "df_exp d = E" "df_man d = r * 2 ^ 29" "df_neg d = sf_neg f"
  proof -
    have "(of_bool (sf_neg f) :: nat) < 2" "E < 2048" by (simp_all add: E_def less_imp_diff_less)
    from df_fields_assemble [OF this _ d_def] r(2)
    show "df_exp d = E" "df_man d = r * 2 ^ 29" "df_neg d = sf_neg f" by simp_all
  qed
  have "df_val d = (if sf_neg f then - 1 else 1) * int ((2 ^ 23 + r) * 2 ^ 29 * 2 ^ (E - 1))"
    using n24 by (simp add: df_val_def df_mag_def fl E_def algebra_simps)
  also have "(2 ^ 23 + r) * 2 ^ 29 * 2 ^ (E - 1) = sf_man f * ((if odd n then 2 else 1) * 2 ^ 925)"
  proof -
    have "n + 29 + (E - 1) = (if odd n then 926 else 925)" using n24 by (simp add: E_def)
    then have "(2::nat) ^ n * 2 ^ 29 * 2 ^ (E - 1) = (if odd n then 2 else 1) * 2 ^ 925"
      by (simp only: power_add [symmetric]) simp
    then show ?thesis unfolding r(1) [symmetric] by (metis mult.assoc)
  qed
  finally show ?thesis
    using n x assms(1) by (intro exI [of _ n] exI [of _ d]) (auto simp: sf_mag_def)
qed


lemma df_exp_bounds:
  assumes v: "\<bar>df_val d\<bar> = int n * 2 ^ 1074" and n: "0 < n" "n \<le> 2 ^ 31"
  shows "1023 \<le> df_exp d" "df_exp d < 1055"
proof -
  have mag: "df_mag (df_exp d) (df_man d) = n * 2 ^ 1074"
  proof -
    have "int (df_mag (df_exp d) (df_man d)) = int (n * 2 ^ 1074)"
      using v by (cases "df_neg d") (simp_all add: df_val_def)
    then show ?thesis by (simp only: of_nat_eq_iff)
  qed
  show "1023 \<le> df_exp d"
  proof (rule ccontr)
    assume "\<not> 1023 \<le> df_exp d"
    then have "df_mag (df_exp d) (df_man d) < df_mag 1023 0"
      using df_man_less [of d] by (intro df_mag_less) auto
    also have "df_mag 1023 0 = 2 ^ 1074" by (simp add: df_mag_def)
    also have "\<dots> \<le> n * 2 ^ 1074" using n(1) by simp
    finally show False unfolding mag by simp
  qed
  show "df_exp d < 1055"
  proof (rule ccontr)
    assume "\<not> df_exp d < 1055"
    then have "df_mag 1054 (2 ^ 52 - 1) < df_mag (df_exp d) (df_man d)"
      by (intro df_mag_less) auto
    moreover have "n * 2 ^ 1074 \<le> 2 ^ 31 * 2 ^ 1074" using n(2) by (rule mult_le_mono1)
    moreover have "(2::nat) ^ 31 * 2 ^ 1074 \<le> df_mag 1054 (2 ^ 52 - 1)" by (simp add: df_mag_def)
    ultimately show False unfolding mag by linarith
  qed
qed

lemma df_val_neg: "df_val d \<noteq> 0 \<Longrightarrow> df_neg d \<longleftrightarrow> df_val d < 0"
  by (cases "df_neg d") (auto simp: df_val_def)

lemma fixdfsi_exact:
  assumes v: "df_val d = sint i * 2 ^ 1074" and i: "i \<noteq> (0 :: u32)"
  shows "sint (fixdfsi d) = sgn (sint i) * (\<bar>sint i\<bar> div 8)"
proof -
  define n where "n = nat \<bar>sint i\<bar>"
  have si: "sint i \<noteq> 0" 
    using i unsigned_less [where ?'a = int, of i] by (auto simp: sint32 uint_0_iff split: if_splits)
  have n: "0 < n" "n \<le> 2 ^ 31" "\<bar>sint i\<bar> = int n"
    using si sint_ge [of i] sint_lt [of i] by (auto simp: n_def)
  have a: "\<bar>df_val d\<bar> = int n * 2 ^ 1074" by (simp add: v abs_mult n(3))
  have neg: "df_neg d \<longleftrightarrow> sint i < 0"
    using si df_val_neg [of d] by (simp add: v mult_less_0_iff)
  have "nat \<bar>df_val d\<bar> div 2 ^ 1077 = n div 8"
  proof -
    have "nat \<bar>df_val d\<bar> = n * 2 ^ 1074" unfolding a by (simp add: nat_mult_distrib nat_power_eq)
    moreover have "(2::nat) ^ 1077 = 8 * 2 ^ 1074" by simp
    ultimately show ?thesis by (metis div_mult_mult2 power_not_zero zero_neq_numeral)
  qed
  then have f: "fixdfsi d = (if sint i < 0 then - 1 else 1) * of_nat (n div 8)"
    using fixdfsi_val [OF df_exp_bounds [OF a n(1,2)]] by (simp only: neg)
  have "fixdfsi d = word_of_int (sgn (sint i) * int (n div 8))"
    using si unfolding f by (cases "sint i < 0") simp_all
  moreover have "- (2 ^ 31) \<le> sgn (sint i) * int (n div 8)" "sgn (sint i) * int (n div 8) < 2 ^ 31"
    using n(2) si by (cases "sint i < 0"; auto)+
  ultimately have "sint (fixdfsi d) = sgn (sint i) * int (n div 8)"
    by (simp only: sint32_of_int)
  then show ?thesis by (simp add: n(3) zdiv_int)
qed


section \<open>Properties\<close>

text \<open>
  C20. The comparison routines implement the IEEE order on the values of the operands:
  \<^verbatim>\<open>__eqdf2\<close>, \<^verbatim>\<open>__ltdf2\<close> and \<^verbatim>\<open>__ledf2\<close> answer equality, strictly less and less-or-equal
  exactly on ordered operands (both zeros being equal), and \<^verbatim>\<open>__unorddf2\<close> answers
  whether an operand is a NaN.
\<close>

theorem comparison_order:
  "(eqdf2 a b = 0) = (\<not> df_nan a \<and> \<not> df_nan b \<and> df_val a = df_val b) \<and>
   (ltdf2 a b < 0) = (\<not> df_nan a \<and> \<not> df_nan b \<and> df_val a < df_val b) \<and>
   (ledf2 a b \<le> 0) = (\<not> df_nan a \<and> \<not> df_nan b \<and> df_val a \<le> df_val b) \<and>
   (unorddf2 a b \<noteq> 0) = (df_nan a \<or> df_nan b)"
  by (auto simp: eqdf2_def ltdf2_def ledf2_def unorddf2_def cmp_spec)

text \<open>
  Two comparison entry points deviate from the libgcc contract. \<^verbatim>\<open>__nedf2\<close> is
  the negation of \<^verbatim>\<open>__eqdf2\<close>: it returns 0, which callers read as equal, exactly when the
  operands differ. \<^verbatim>\<open>__gtdf2\<close> also answers greater when an operand is a NaN.
\<close>

theorem comparison_deviations:
  "nedf2 a b = 1 - eqdf2 a b \<and>
   (gtdf2 a b > 0) = (df_nan a \<or> df_nan b \<or> df_val b < df_val a)"
  by (auto simp: eqdf2_def nedf2_def gtdf2_def cmp_spec)

text \<open>
  C21. \<^verbatim>\<open>pack\<close> rounds to nearest, ties to even: for a normalised mantissa with three
  guard bits and an exponent in the finite range the packed double is finite, its value is
  some significand times the weight of the exponent, that significand is within half a
  unit of the mantissa, and it is even when the distance is exactly one half.
\<close>

theorem pack_rounds_to_nearest_even:
  assumes "2 ^ 55 \<le> m" "m < 2 ^ 56" "1 \<le> e" "e < 2046" "s < 2"
  shows "\<exists>q. df_val (pack m (int e) (int s)) = (- 1) ^ s * int q * 2 ^ (e - 1) \<and>
    df_exp (pack m (int e) (int s)) < 2047 \<and>
    \<bar>8 * int q - int (unat m)\<bar> \<le> 4 \<and> (\<bar>8 * int q - int (unat m)\<bar> = 4 \<longrightarrow> even q)"
  using pack_normal [OF assms] rne8_nearest [of "unat m"] rne8_tie [of "unat m"] by blast

theorem pack_rounds_to_nearest_even_witness:
  "\<exists>q. df_val (pack (2 ^ 55 + 12) (int 1023) (int 1)) = (- 1) ^ 1 * int q * 2 ^ (1023 - 1) \<and>
    df_exp (pack (2 ^ 55 + 12) (int 1023) (int 1)) < 2047 \<and>
    \<bar>8 * int q - int (unat (2 ^ 55 + 12 :: u64))\<bar> \<le> 4 \<and>
    (\<bar>8 * int q - int (unat (2 ^ 55 + 12 :: u64))\<bar> = 4 \<longrightarrow> even q)"
  by (rule pack_rounds_to_nearest_even) (simp_all add: word_le_nat_alt word_less_nat_alt)

text \<open>
  C22. The integer-to-double conversions always return (their normalisation loops end) and
  are exact: the double denotes the signed, respectively unsigned, value of the argument.
\<close>

theorem float_conversions_exact:
  "(\<exists>d. floatsidf i = Some d \<and> df_val d = sint i * 2 ^ 1074) \<and>
   (\<exists>d. floatunsidf u = Some d \<and> df_val d = int (unat u) * 2 ^ 1074)"
  by (intro conjI floatsidf_val floatunsidf_val)

text \<open>
  C37. Converting an integer to double and back does not return it: \<^verbatim>\<open>__fixdfsi\<close>
  shifts the significand by \<^verbatim>\<open>1078 - e\<close> where the binary point needs
  \<^verbatim>\<open>1075 - e\<close>, so the result is the integer divided by eight, rounded towards zero.
\<close>

theorem fixdfsi_divides_by_eight:
  "\<exists>d. floatsidf i = Some d \<and> sint (fixdfsi d) = sgn (sint i) * (\<bar>sint i\<bar> div 8)"
proof (cases "i = 0")
  case True
  then show ?thesis by (simp add: floatsidf_def fixdfsi_def df_exp_def df_man_def)
next
  case False
  then show ?thesis using floatsidf_val [of i] fixdfsi_exact by blast
qed

text \<open>
  \<^verbatim>\<open>__extendsfdf2\<close> is exact on every normal single: it returns a finite double of
  the same sign and value.
\<close>

theorem extendsfdf2_exact_normal:
  assumes "0 < sf_exp f" "sf_exp f < 255"
  shows "\<exists>d. extendsfdf2 f = Some d \<and> df_exp d < 2047 \<and> df_neg d = sf_neg f \<and>
    df_val d = (if sf_neg f then - 1 else 1) * int (sf_mag f) * 2 ^ 925"
  by (rule extendsfdf2_normal [OF assms])

theorem extendsfdf2_exact_normal_witness:
  "\<exists>d. extendsfdf2 0xC0490FDB = Some d \<and> df_exp d < 2047 \<and> df_neg d = sf_neg 0xC0490FDB \<and>
    df_val d = (if sf_neg 0xC0490FDB then - 1 else 1) * int (sf_mag 0xC0490FDB) * 2 ^ 925"
  by (rule extendsfdf2_exact_normal) (simp_all add: sf_exp_def)

text \<open>
  C38. On a nonzero denormal single the normalisation loop of \<^verbatim>\<open>__extendsfdf2\<close> ends
  after the $n$ doublings that bring the fraction to bit 23, but the implicit bit is then
  ORed into the exponent field: the result has the right value only for even $n$ and is
  twice too large for odd $n$.
\<close>

theorem extendsfdf2_denormal_doubles:
  assumes "sf_exp f = 0" "sf_man f \<noteq> 0"
  shows "\<exists>n d. 2 ^ 23 \<le> sf_man f * 2 ^ n \<and> sf_man f * 2 ^ n < 2 ^ 24 \<and> extendsfdf2 f = Some d \<and>
    df_val d = (if sf_neg f then - 1 else 1) * (if odd n then 2 else 1) * int (sf_mag f) * 2 ^ 925"
  by (rule extendsfdf2_denormal [OF assms])

theorem extendsfdf2_denormal_doubles_witness:
  "\<exists>n d. 2 ^ 23 \<le> sf_man 1 * 2 ^ n \<and> sf_man 1 * 2 ^ n < 2 ^ 24 \<and> extendsfdf2 1 = Some d \<and>
    df_val d = (if sf_neg 1 then - 1 else 1) * (if odd n then 2 else 1) * int (sf_mag 1) * 2 ^ 925"
  by (rule extendsfdf2_denormal_doubles) (simp_all add: sf_exp_def sf_man_def)

text \<open>
  C39. \<^verbatim>\<open>__adddf3\<close> and \<^verbatim>\<open>__subdf3\<close> on two normal powers of two whose exponents
  are at most 52 apart: both return the exact sum. For \<^verbatim>\<open>__subdf3\<close> that is wrong: the
  flipped sign of the second operand is overwritten by \<^verbatim>\<open>unpack\<close>.
\<close>

theorem subdf3_adds:
  assumes "2 \<le> df_exp a" "df_exp a < 2045" "df_man a = 0" "2 \<le> df_exp b" "df_exp b < 2045" "df_man b = 0"
    and "df_exp b \<le> df_exp a + 52" "df_exp a \<le> df_exp b + 52"
  shows "df_val (adddf3 a b) = df_val a + df_val b \<and> df_val (subdf3 a b) = df_val a + df_val b"
  unfolding adddf3_def subdf3_def by (intro conjI addsub_pow2 [OF assms])

text \<open>The witness: $2 - 1$ evaluates to the value of $2 + 1$.\<close>

theorem subdf3_adds_witness:
  "df_val (adddf3 0x4000000000000000 0x3FF0000000000000) =
     df_val 0x4000000000000000 + df_val 0x3FF0000000000000 \<and>
   df_val (subdf3 0x4000000000000000 0x3FF0000000000000) =
     df_val 0x4000000000000000 + df_val 0x3FF0000000000000"
  by (rule subdf3_adds) (simp_all add: df_exp_def df_man_def)

text \<open>
  The special-case test of \<^verbatim>\<open>__adddf3\<close> and \<^verbatim>\<open>__subdf3\<close> also catches finite
  operands: whenever either fraction is nonzero the sum of two finite numbers is an
  infinity with the (effective) sign of the second operand.
\<close>

theorem adddf3_fraction_is_infinite:
  assumes "df_exp a < 2047" "df_exp b < 2047" "df_man a \<noteq> 0 \<or> df_man b \<noteq> 0"
  shows "adddf3 a b = push_bit 63 (of_bool (df_neg b)) OR DF_EXP \<and>
    subdf3 a b = push_bit 63 (of_bool (\<not> df_neg b)) OR DF_EXP"
  using addsub_fraction [OF assms, of 0] addsub_fraction [OF assms, of 1]
  by (simp_all add: adddf3_def subdf3_def)

text \<open>The witness: $1.5 + 1.0$.\<close>

theorem adddf3_fraction_is_infinite_witness:
  "adddf3 0x3FF8000000000000 0x3FF0000000000000 = push_bit 63 (of_bool (df_neg 0x3FF0000000000000)) OR DF_EXP \<and>
   subdf3 0x3FF8000000000000 0x3FF0000000000000 = push_bit 63 (of_bool (\<not> df_neg 0x3FF0000000000000)) OR DF_EXP"
  by (rule adddf3_fraction_is_infinite) (simp_all add: df_exp_def df_man_def)

text \<open>
  The products and quotients of normal powers of two. \<^verbatim>\<open>__muldf3\<close> keeps the low 64
  bits of the 112-bit product, which are zero here, so the result does not depend on the
  magnitudes: 0, or the smallest normal number with the sign of the product.
  \<^verbatim>\<open>__divdf3\<close> develops the quotient of the mantissas only to its integer part, so the
  result is the correct power of two divided by $2^{55}$.
\<close>

theorem mul_div_pow2:
  assumes "0 < df_exp a" "df_exp a < 2047" "df_man a = 0" "0 < df_exp b" "df_exp b < 2047" "df_man b = 0"
    and "df_exp b < df_exp a + 968" "df_exp a + 968 < df_exp b + 2046"
  shows "muldf3 a b = (if df_exp a + df_exp b \<le> 1023 then 0
      else push_bit 63 (of_bool (df_neg a \<noteq> df_neg b)) OR push_bit 52 1) \<and>
    df_man (divdf3 a b) = 0 \<and> df_neg (divdf3 a b) = (df_neg a \<noteq> df_neg b) \<and>
    df_exp (divdf3 a b) + df_exp b + 55 = df_exp a + 1023"
  using muldf3_pow2 [OF assms(1-6)] divdf3_pow2 [OF assms] assms(7) by auto

text \<open>The witness: $8 \times 4$ is $2^{-1022}$, and $8 / 4$ is $2^{1-55}$.\<close>

theorem mul_div_pow2_witness:
  "muldf3 0x4020000000000000 0x4010000000000000 = push_bit 52 1 \<and>
   df_exp (divdf3 0x4020000000000000 0x4010000000000000) = 1024 - 55"
  using mul_div_pow2 [of "0x4020000000000000" "0x4010000000000000"]
  by (simp add: df_exp_def df_man_def df_neg_def)

text \<open>
  The 32-bit-half implementations of the 64-bit shifts and of the truncated 64-bit
  product are the machine operations, for every shift count (64 and above included).
\<close>

theorem halves_implement_words:
  "shl64 x n = push_bit (unat n) x \<and> shr64 x n = drop_bit (unat n) x \<and> mul64 x y = x * y"
  by (simp only: shl64_eq shr64_eq mul64_eq)

text \<open>
  C23. The 56 rounds of the restoring division in \<^verbatim>\<open>__divdf3\<close> compute the integer
  quotient of the two mantissas, for any dividend below $2^{56}$ and any nonzero divisor
  below $2^{63}$.
\<close>

theorem div_loop_is_quotient:
  assumes "unat ma < 2 ^ 56" "0 < unat mb" "unat mb < 2 ^ 63"
  shows "unat (div_loop 56 0 ma 0 mb) = unat ma div unat mb"
  by (rule div_loop_quotient [OF assms])

theorem div_loop_is_quotient_witness:
  "unat (div_loop 56 0 1000 0 7) = unat (1000 :: u64) div unat (7 :: u64)"
  by (rule div_loop_is_quotient) simp_all

end
