(* ===== verification/Xtensa_Cpu.thy ===== *)
theory Xtensa_Cpu
  imports Prelude
begin

text \<open>
  The Xtensa CPU state of \<^verbatim>\<open>target/xtensa/cpu.h\<close>: the core configuration, the
  architectural state, and the inline functions of the header. The state record holds the
  fields of \<^verbatim>\<open>CPUArchState\<close> and those fields of the enclosing
  \<^verbatim>\<open>CPUState\<close> that the target code reads or writes (\<^verbatim>\<open>exception_index\<close>,
  \<^verbatim>\<open>halted\<close>, the breakpoint list, the watchpoint that was hit and the flags of the
  watchpoint at each address). C arrays are functions from the index. Calls into
  parts of QEMU whose sources are not in the repository (the soft-TLB, the timer list, the
  interrupt-request word of the execution loop, watchpoints) have no definition here: the
  record keeps the sequence of those calls, most recent first, in its field \<^verbatim>\<open>calls\<close>.
\<close>

section \<open>Constants\<close>

text \<open>Configuration options, numbered in the order of the enumeration.\<close>

abbreviation (input) "XTENSA_OPTION_LOOP \<equiv> 1 :: nat"
abbreviation (input) "XTENSA_OPTION_EXTENDED_L32R \<equiv> 2 :: nat"
abbreviation (input) "XTENSA_OPTION_COPROCESSOR \<equiv> 12 :: nat"
abbreviation (input) "XTENSA_OPTION_DFP_COPROCESSOR \<equiv> 15 :: nat"
abbreviation (input) "XTENSA_OPTION_ATOMCTL \<equiv> 19 :: nat"
abbreviation (input) "XTENSA_OPTION_RELOCATABLE_VECTOR \<equiv> 22 :: nat"
abbreviation (input) "XTENSA_OPTION_UNALIGNED_EXCEPTION \<equiv> 23 :: nat"
abbreviation (input) "XTENSA_OPTION_INTERRUPT \<equiv> 24 :: nat"
abbreviation (input) "XTENSA_OPTION_TIMER_INTERRUPT \<equiv> 26 :: nat"
abbreviation (input) "XTENSA_OPTION_ICACHE \<equiv> 27 :: nat"
abbreviation (input) "XTENSA_OPTION_DCACHE \<equiv> 30 :: nat"
abbreviation (input) "XTENSA_OPTION_HW_ALIGNMENT \<equiv> 38 :: nat"
abbreviation (input) "XTENSA_OPTION_REGION_PROTECTION \<equiv> 40 :: nat"
abbreviation (input) "XTENSA_OPTION_REGION_TRANSLATION \<equiv> 41 :: nat"
abbreviation (input) "XTENSA_OPTION_MPU \<equiv> 42 :: nat"
abbreviation (input) "XTENSA_OPTION_MMU \<equiv> 43 :: nat"
abbreviation (input) "XTENSA_OPTION_CACHEATTR \<equiv> 44 :: nat"
abbreviation (input) "XTENSA_OPTION_WINDOWED_REGISTER \<equiv> 45 :: nat"
abbreviation (input) "XTENSA_OPTION_DEBUG \<equiv> 50 :: nat"

text \<open>Special-register numbers.\<close>

abbreviation (input) "LBEG \<equiv> 0 :: nat"
abbreviation (input) "LEND \<equiv> 1 :: nat"
abbreviation (input) "LCOUNT \<equiv> 2 :: nat"
abbreviation (input) "LITBASE \<equiv> 5 :: nat"
abbreviation (input) "WINDOW_BASE \<equiv> 72 :: nat"
abbreviation (input) "WINDOW_START \<equiv> 73 :: nat"
abbreviation (input) "PTEVADDR \<equiv> 83 :: nat"
abbreviation (input) "RASID \<equiv> 90 :: nat"
abbreviation (input) "MPUENB \<equiv> 90 :: nat"
abbreviation (input) "ITLBCFG \<equiv> 91 :: nat"
abbreviation (input) "DTLBCFG \<equiv> 92 :: nat"
abbreviation (input) "MPUCFG \<equiv> 92 :: nat"
abbreviation (input) "IBREAKENABLE \<equiv> 96 :: nat"
abbreviation (input) "MEMCTL \<equiv> 97 :: nat"
abbreviation (input) "CACHEATTR \<equiv> 98 :: nat"
abbreviation (input) "CACHEADRDIS \<equiv> 98 :: nat"
abbreviation (input) "ATOMCTL \<equiv> 99 :: nat"
abbreviation (input) "IBREAKA \<equiv> 128 :: nat"
abbreviation (input) "DBREAKA \<equiv> 144 :: nat"
abbreviation (input) "DBREAKC \<equiv> 160 :: nat"
abbreviation (input) "CONFIGID0 \<equiv> 176 :: nat"
abbreviation (input) "EPC1 \<equiv> 177 :: nat"
abbreviation (input) "DEPC \<equiv> 192 :: nat"
abbreviation (input) "EPS2 \<equiv> 194 :: nat"
abbreviation (input) "CONFIGID1 \<equiv> 208 :: nat"
abbreviation (input) "CPENABLE \<equiv> 224 :: nat"
abbreviation (input) "INTSET \<equiv> 226 :: nat"
abbreviation (input) "INTENABLE \<equiv> 228 :: nat"
abbreviation (input) "PS \<equiv> 230 :: nat"
abbreviation (input) "VECBASE \<equiv> 231 :: nat"
abbreviation (input) "EXCCAUSE \<equiv> 232 :: nat"
abbreviation (input) "DEBUGCAUSE \<equiv> 233 :: nat"
abbreviation (input) "CCOUNT \<equiv> 234 :: nat"
abbreviation (input) "ICOUNT \<equiv> 236 :: nat"
abbreviation (input) "ICOUNTLEVEL \<equiv> 237 :: nat"
abbreviation (input) "EXCVADDR \<equiv> 238 :: nat"
abbreviation (input) "CCOMPARE \<equiv> 240 :: nat"

text \<open>Fields of PS and of the debug registers.\<close>

definition PS_INTLEVEL :: u32 where "PS_INTLEVEL = 0xf"
definition PS_EXCM :: u32 where "PS_EXCM = 0x10"
definition PS_UM :: u32 where "PS_UM = 0x20"
definition PS_RING :: u32 where "PS_RING = 0xc0"
definition PS_OWB :: u32 where "PS_OWB = 0xf00"
definition PS_CALLINC :: u32 where "PS_CALLINC = 0x30000"
definition PS_WOE :: u32 where "PS_WOE = 0x40000"

abbreviation (input) "PS_RING_SHIFT \<equiv> 6 :: nat"
abbreviation (input) "PS_OWB_SHIFT \<equiv> 8 :: nat"
abbreviation (input) "PS_CALLINC_SHIFT \<equiv> 16 :: nat"
abbreviation (input) "PS_CALLINC_LEN \<equiv> 2 :: nat"

definition DBREAKC_SB :: u32 where "DBREAKC_SB = 0x80000000"
definition DBREAKC_LB :: u32 where "DBREAKC_LB = 0x40000000"
definition DBREAKC_SB_LB :: u32 where "DBREAKC_SB_LB = DBREAKC_SB OR DBREAKC_LB"
definition DBREAKC_MASK :: u32 where "DBREAKC_MASK = 0x3f"

text \<open>Exception vectors, exception causes and the generic exception numbers of the execution loop.\<close>

abbreviation (input) "EXC_RESET0 \<equiv> 0 :: int"
abbreviation (input) "EXC_WINDOW_OVERFLOW4 \<equiv> 3 :: int"
abbreviation (input) "EXC_WINDOW_UNDERFLOW4 \<equiv> 4 :: int"
abbreviation (input) "EXC_WINDOW_OVERFLOW8 \<equiv> 5 :: int"
abbreviation (input) "EXC_WINDOW_UNDERFLOW8 \<equiv> 6 :: int"
abbreviation (input) "EXC_WINDOW_OVERFLOW12 \<equiv> 7 :: int"
abbreviation (input) "EXC_WINDOW_UNDERFLOW12 \<equiv> 8 :: int"
abbreviation (input) "EXC_IRQ \<equiv> 9 :: int"
abbreviation (input) "EXC_KERNEL \<equiv> 10 :: int"
abbreviation (input) "EXC_USER \<equiv> 11 :: int"
abbreviation (input) "EXC_DOUBLE \<equiv> 12 :: int"
abbreviation (input) "EXC_DEBUG \<equiv> 13 :: int"
abbreviation (input) "EXCP_HLT \<equiv> 0x10001 :: int"
abbreviation (input) "EXCP_YIELD \<equiv> 0x10004 :: int"

abbreviation (input) "ILLEGAL_INSTRUCTION_CAUSE \<equiv> 0 :: u32"
abbreviation (input) "INSTRUCTION_FETCH_ERROR_CAUSE \<equiv> 2 :: u32"
abbreviation (input) "LOAD_STORE_ERROR_CAUSE \<equiv> 3 :: u32"
abbreviation (input) "LEVEL1_INTERRUPT_CAUSE \<equiv> 4 :: u32"
abbreviation (input) "ALLOCA_CAUSE \<equiv> 5 :: u32"
abbreviation (input) "LOAD_STORE_ALIGNMENT_CAUSE \<equiv> 9 :: u32"
abbreviation (input) "EXCLUSIVE_ERROR_CAUSE \<equiv> 11 :: u32"
abbreviation (input) "INSTR_PIF_ADDR_ERROR_CAUSE \<equiv> 14 :: u32"
abbreviation (input) "LOAD_STORE_PIF_ADDR_ERROR_CAUSE \<equiv> 15 :: u32"
abbreviation (input) "INST_TLB_MISS_CAUSE \<equiv> 16 :: u32"
abbreviation (input) "INST_TLB_MULTI_HIT_CAUSE \<equiv> 17 :: u32"
abbreviation (input) "INST_FETCH_PRIVILEGE_CAUSE \<equiv> 18 :: u32"
abbreviation (input) "INST_FETCH_PROHIBITED_CAUSE \<equiv> 20 :: u32"
abbreviation (input) "LOAD_STORE_TLB_MISS_CAUSE \<equiv> 24 :: u32"
abbreviation (input) "LOAD_STORE_TLB_MULTI_HIT_CAUSE \<equiv> 25 :: u32"
abbreviation (input) "LOAD_STORE_PRIVILEGE_CAUSE \<equiv> 26 :: u32"
abbreviation (input) "LOAD_PROHIBITED_CAUSE \<equiv> 28 :: u32"
abbreviation (input) "STORE_PROHIBITED_CAUSE \<equiv> 29 :: u32"

section \<open>Configuration and state\<close>

datatype interrupt_type =
    INTTYPE_LEVEL | INTTYPE_EDGE | INTTYPE_NMI | INTTYPE_SOFTWARE | INTTYPE_TIMER
  | INTTYPE_DEBUG | INTTYPE_WRITE_ERR | INTTYPE_PROFILING | INTTYPE_IDMA_DONE
  | INTTYPE_IDMA_ERR | INTTYPE_GS_ERR

record xtensa_tlb_entry =
  te_vaddr :: u32
  te_paddr :: u32
  te_asid :: u8
  te_attr :: u8
  te_variable :: bool

record xtensa_tlb =
  nways :: nat
  way_size :: "nat \<Rightarrow> nat"
  varway56 :: bool
  nrefillentries :: nat

record xtensa_mpu_entry =
  me_vaddr :: u32
  me_attr :: u32

record XtensaConfig =
  options :: u64
  nareg :: nat
  excm_level :: int
  ndepc :: int
  max_insn_size :: u32
  vecbase :: u32
  exception_vector :: "int \<Rightarrow> u32"
  ninterrupt :: nat
  nlevel :: nat
  nmi_level :: nat
  interrupt_vector :: "nat \<Rightarrow> u32"
  level_mask :: "nat \<Rightarrow> u32"
  inttype_mask :: "interrupt_type \<Rightarrow> u32"
  interrupt_level :: "nat \<Rightarrow> nat"
  interrupt_inttype :: "nat \<Rightarrow> interrupt_type"
  nccompare :: nat
  timerint :: "nat \<Rightarrow> nat"
  nextint :: nat
  extint :: "nat \<Rightarrow> nat"
  debug_level :: nat
  nibreak :: nat
  ndbreak :: nat
  icache_ways :: u32
  dcache_ways :: u32
  memctl_mask :: u32
  configid :: "nat \<Rightarrow> u32"
  cfg_itlb :: xtensa_tlb
  cfg_dtlb :: xtensa_tlb
  mpu_align :: u32
  n_mpu_fg_segments :: nat
  n_mpu_bg_segments :: nat
  mpu_bg :: "nat \<Rightarrow> xtensa_mpu_entry"

text \<open>A breakpoint of \<^verbatim>\<open>CPUState.breakpoints\<close>; \<^verbatim>\<open>bp_ref\<close> is its address.\<close>

record CPUBreakpoint =
  bp_ref :: nat
  bp_pc :: u32
  bp_flags :: u32

text \<open>The calls into code outside the repository, with their arguments.\<close>

datatype qcall =
    Cpu_interrupt u32
  | Cpu_reset_interrupt u32
  | Timer_mod nat u64
  | Tlb_flush
  | Tlb_flush_page u32
  | Tlb_set_page u32 u32 u32 nat u32
  | Watchpoint_insert u32 u32 u32
  | Watchpoint_remove nat
  | Cpu_kick

record CPUXtensaState =
  config :: XtensaConfig
  regs :: "nat \<Rightarrow> u32"
  env_pc :: u32
  sregs :: "nat \<Rightarrow> u32"
  phys_regs :: "nat \<Rightarrow> u32"
  windowbase_next :: u32
  exclusive_addr :: u32
  itlb :: "nat \<Rightarrow> nat \<Rightarrow> xtensa_tlb_entry"
  dtlb :: "nat \<Rightarrow> nat \<Rightarrow> xtensa_tlb_entry"
  mpu_fg :: "nat \<Rightarrow> xtensa_mpu_entry"
  autorefill_idx :: u32
  runstall :: bool
  pending_irq_level :: nat
  time_base :: u64
  ccount_time :: u64
  ccount_base :: u32
  yield_needed :: bool
  static_vectors :: nat
  cpu_watchpoint :: "nat \<Rightarrow> nat option"
  cpu_breakpoint :: "nat \<Rightarrow> nat option"
  exception_index :: int
  halted :: bool
  breakpoints :: "CPUBreakpoint list"
  watchpoint_flags :: "nat \<Rightarrow> u32"
  watchpoint_hit :: "nat option"
  calls :: "qcall list"

type_synonym env = CPUXtensaState

text \<open>Updates of one special or address register.\<close>

definition set_sreg :: "nat \<Rightarrow> u32 \<Rightarrow> env \<Rightarrow> env" where
  "set_sreg r v env = env\<lparr>sregs := (sregs env)(r := v)\<rparr>"

definition call :: "qcall \<Rightarrow> env \<Rightarrow> env" where
  "call c env = env\<lparr>calls := c # calls env\<rparr>"

section \<open>Inline functions of cpu.h\<close>

definition xtensa_select_static_vectors :: "env \<Rightarrow> nat \<Rightarrow> (env, unit) outcome" where
  "xtensa_select_static_vectors env n =
     (if n < 2 then Ret () (env\<lparr>static_vectors := n\<rparr>) else AssertFail)"

definition XTENSA_OPTION_BIT :: "nat \<Rightarrow> u64" where
  "XTENSA_OPTION_BIT opt = push_bit opt 1"

definition xtensa_option_bits_enabled :: "XtensaConfig \<Rightarrow> u64 \<Rightarrow> bool" where
  "xtensa_option_bits_enabled cfg opt \<longleftrightarrow> options cfg AND opt \<noteq> 0"

definition xtensa_option_enabled :: "XtensaConfig \<Rightarrow> nat \<Rightarrow> bool" where
  "xtensa_option_enabled cfg opt \<longleftrightarrow> xtensa_option_bits_enabled cfg (XTENSA_OPTION_BIT opt)"

definition xtensa_get_cintlevel :: "env \<Rightarrow> int" where
  "xtensa_get_cintlevel env =
     (let level = uint (sregs env PS AND PS_INTLEVEL) in
      if sregs env PS AND PS_EXCM \<noteq> 0 \<and> excm_level (config env) > level
      then excm_level (config env) else level)"

definition xtensa_get_ring :: "env \<Rightarrow> nat" where
  "xtensa_get_ring env =
     (if xtensa_option_bits_enabled (config env)
           (XTENSA_OPTION_BIT XTENSA_OPTION_MMU OR XTENSA_OPTION_BIT XTENSA_OPTION_MPU)
      then unat (drop_bit PS_RING_SHIFT (sregs env PS AND PS_RING)) else 0)"

definition xtensa_get_cring :: "env \<Rightarrow> nat" where
  "xtensa_get_cring env =
     (if xtensa_option_bits_enabled (config env)
           (XTENSA_OPTION_BIT XTENSA_OPTION_MMU OR XTENSA_OPTION_BIT XTENSA_OPTION_MPU)
         \<and> sregs env PS AND PS_EXCM = 0
      then unat (drop_bit PS_RING_SHIFT (sregs env PS AND PS_RING)) else 0)"

definition xtensa_replicate_windowstart :: "env \<Rightarrow> u32" where
  "xtensa_replicate_windowstart env =
     sregs env WINDOW_START OR push_bit (nareg (config env) div 4) (sregs env WINDOW_START)"

text \<open>
  \<^verbatim>\<open>cpu_get_tb_cpu_state\<close>: the key (pc, cs_base, flags) under which the translator looks
  up compiled code. Its result must determine everything the translation depends on.
\<close>

definition XTENSA_TBFLAG_EXCM :: u32 where "XTENSA_TBFLAG_EXCM = 0x4"
definition XTENSA_TBFLAG_LITBASE :: u32 where "XTENSA_TBFLAG_LITBASE = 0x8"
definition XTENSA_TBFLAG_DEBUG :: u32 where "XTENSA_TBFLAG_DEBUG = 0x10"
definition XTENSA_TBFLAG_ICOUNT :: u32 where "XTENSA_TBFLAG_ICOUNT = 0x20"
definition XTENSA_TBFLAG_YIELD :: u32 where "XTENSA_TBFLAG_YIELD = 0x20000"
definition XTENSA_TBFLAG_CWOE :: u32 where "XTENSA_TBFLAG_CWOE = 0x40000"

definition tb_cs_base :: "env \<Rightarrow> u64" where
  "tb_cs_base env =
     (if sregs env PS AND PS_EXCM \<noteq> 0 then 0
      else if xtensa_option_enabled (config env) XTENSA_OPTION_LOOP then
        let lend_dist = sregs env LEND - (env_pc env AND - push_bit 12 1) in
        if lend_dist < push_bit 12 1 + max_insn_size (config env) then
          let lbeg_off = sregs env LEND - sregs env LBEG in
          if lbeg_off < 256 then ucast (lend_dist OR push_bit 16 lbeg_off) else ucast lend_dist
        else 0
      else 0)"

definition tb_window_flags :: "env \<Rightarrow> u32" where
  "tb_window_flags env =
     (if xtensa_option_enabled (config env) XTENSA_OPTION_WINDOWED_REGISTER \<and>
         sregs env PS AND (PS_WOE OR PS_EXCM) = PS_WOE then
        let windowstart = drop_bit (unat (sregs env WINDOW_BASE + 1)) (xtensa_replicate_windowstart env);
            w = of_nat (ctz32 (windowstart OR 0x8)) :: u32
        in push_bit 15 w OR XTENSA_TBFLAG_CWOE OR
           push_bit 19 (extract32 (sregs env PS) PS_CALLINC_SHIFT PS_CALLINC_LEN)
      else push_bit 15 3)"

definition cpu_get_tb_cpu_state :: "env \<Rightarrow> u32 \<times> u64 \<times> u32" where
  "cpu_get_tb_cpu_state env =
     (let flags = of_nat (xtensa_get_ring env);
          flags = (if sregs env PS AND PS_EXCM \<noteq> 0 then flags OR XTENSA_TBFLAG_EXCM else flags);
          flags = (if xtensa_option_enabled (config env) XTENSA_OPTION_EXTENDED_L32R \<and>
                      sregs env LITBASE AND 1 \<noteq> 0
                   then flags OR XTENSA_TBFLAG_LITBASE else flags);
          flags = (if xtensa_option_enabled (config env) XTENSA_OPTION_DEBUG then
                     let flags = (if xtensa_get_cintlevel env < int (debug_level (config env))
                                  then flags OR XTENSA_TBFLAG_DEBUG else flags)
                     in if xtensa_get_cintlevel env < uint (sregs env ICOUNTLEVEL)
                        then flags OR XTENSA_TBFLAG_ICOUNT else flags
                   else flags);
          flags = (if xtensa_option_enabled (config env) XTENSA_OPTION_COPROCESSOR
                   then flags OR push_bit 6 (sregs env CPENABLE) else flags);
          flags = flags OR tb_window_flags env;
          flags = (if yield_needed env then flags OR XTENSA_TBFLAG_YIELD else flags)
      in (env_pc env, tb_cs_base env, flags))"

section \<open>Fields of PS\<close>

lemma bit_ps_masks:
  "bit PS_INTLEVEL n \<longleftrightarrow> n < 4"
  "bit PS_EXCM n \<longleftrightarrow> n = 4"
  "bit PS_UM n \<longleftrightarrow> n = 5"
  "bit PS_RING n \<longleftrightarrow> n = 6 \<or> n = 7"
  "bit PS_OWB n \<longleftrightarrow> 8 \<le> n \<and> n < 12"
  "bit PS_CALLINC n \<longleftrightarrow> n = 16 \<or> n = 17"
  "bit PS_WOE n \<longleftrightarrow> n = 18"
proof -
  have m: "PS_INTLEVEL = mask 4" "PS_EXCM = push_bit 4 1" "PS_UM = push_bit 5 1"
    "PS_RING = push_bit 6 (mask 2)" "PS_OWB = push_bit 8 (mask 4)"
    "PS_CALLINC = push_bit 16 (mask 2)" "PS_WOE = push_bit 18 1"
    by (simp_all add: PS_INTLEVEL_def PS_EXCM_def PS_UM_def PS_RING_def PS_OWB_def PS_CALLINC_def
        PS_WOE_def mask_eq_exp_minus_1)
  show "bit PS_INTLEVEL n \<longleftrightarrow> n < 4" "bit PS_EXCM n \<longleftrightarrow> n = 4" "bit PS_UM n \<longleftrightarrow> n = 5"
    "bit PS_RING n \<longleftrightarrow> n = 6 \<or> n = 7" "bit PS_OWB n \<longleftrightarrow> 8 \<le> n \<and> n < 12"
    "bit PS_CALLINC n \<longleftrightarrow> n = 16 \<or> n = 17" "bit PS_WOE n \<longleftrightarrow> n = 18"
    unfolding m by (auto simp only: bit_mask_iff bit_push_bit_iff bit_1_iff min_def, auto)
qed

lemma ps_excm_bit: "w AND PS_EXCM = 0 \<longleftrightarrow> \<not> bit w 4"
proof -
  have "PS_EXCM = 2 ^ 4" by (simp add: PS_EXCM_def)
  then show ?thesis using and_exp_eq_0_iff_not_bit [of w 4] by (simp only:)
qed

lemma ps_intlevel: "w AND PS_INTLEVEL = take_bit 4 w"
  by (rule bit_word_eqI) (auto simp: bit_simps bit_ps_masks)

text \<open>What a write of PS that sets EXCM and leaves or raises INTLEVEL does to the current level.\<close>

lemma cintlevel_nonneg: "0 \<le> xtensa_get_cintlevel env"
proof -
  have "0 \<le> uint (sregs env PS AND PS_INTLEVEL)" by (rule unsigned_greater_eq)
  then have "0 \<le> max (excm_level (config env)) (uint (sregs env PS AND PS_INTLEVEL))"
    by (rule max.coboundedI2)
  then show ?thesis by (simp add: xtensa_get_cintlevel_def Let_def max_def split: if_splits)
qed

lemma cintlevel_excm:
  assumes "bit (sregs env PS) 4"
  shows "xtensa_get_cintlevel env = max (excm_level (config env)) (uint (take_bit 4 (sregs env PS)))"
  using assms by (simp add: xtensa_get_cintlevel_def Let_def ps_excm_bit ps_intlevel max_def)

lemma cintlevel_no_excm:
  assumes "\<not> bit (sregs env PS) 4"
  shows "xtensa_get_cintlevel env = uint (take_bit 4 (sregs env PS))"
  using assms by (simp add: xtensa_get_cintlevel_def Let_def ps_excm_bit ps_intlevel)

lemma ps_set_level:
  assumes "l < 16"
  shows "take_bit 4 ((w AND NOT PS_INTLEVEL) OR of_nat l OR PS_EXCM) = (of_nat l :: u32)"
    "bit ((w AND NOT PS_INTLEVEL) OR of_nat l OR PS_EXCM) 4"
proof -
  have l: "take_bit 4 (of_nat l :: u32) = of_nat l"
    using assms by (simp add: word_unat_eq_iff unat_take_bit unat_of_nat)
  have "bit (of_nat l :: u32) n \<Longrightarrow> n < 4" for n
    using l bit_take_bit_iff [of 4 "of_nat l :: u32" n] by simp
  then show "take_bit 4 ((w AND NOT PS_INTLEVEL) OR of_nat l OR PS_EXCM) = (of_nat l :: u32)"
    by (intro bit_word_eqI) (auto simp: bit_simps bit_ps_masks)
  show "bit ((w AND NOT PS_INTLEVEL) OR of_nat l OR PS_EXCM) 4"
    by (simp add: bit_simps bit_ps_masks)
qed

lemma cintlevel_excm_ge: "bit (sregs env PS) 4 \<Longrightarrow> excm_level (config env) \<le> xtensa_get_cintlevel env"
  by (simp add: cintlevel_excm)

lemma cintlevel_after_raise:
  assumes "sregs env PS = (w AND NOT PS_INTLEVEL) OR of_nat l OR PS_EXCM" "l < 16"
  shows "int l \<le> xtensa_get_cintlevel env"
proof -
  have "xtensa_get_cintlevel env = max (excm_level (config env)) (uint (of_nat l :: u32))"
    using cintlevel_excm [of env] ps_set_level [OF assms(2), of w] by (simp only: assms(1))
  moreover have "uint (of_nat l :: u32) = int l"
    using assms(2) by (simp add: unsigned_of_nat take_bit_nat_eq_self)
  ultimately show ?thesis by simp
qed

end
