(* ===== verification/Config_Esp32s3.thy ===== *)
theory Config_Esp32s3
  imports Xtensa_Cpu
begin

text \<open>
  The ESP32-S3 core: the values of \<^verbatim>\<open>core-esp32s3/core-isa.h\<close> put together by the
  macros of \<^verbatim>\<open>overlay_tool.h\<close>, as the initialiser in \<^verbatim>\<open>core-esp32s3.c\<close> does.
  The properties of the other theories are instantiated at this configuration.
\<close>

section \<open>Options\<close>

text \<open>
  \<^verbatim>\<open>XTENSA_OPTIONS\<close>: the list has one entry per \<^verbatim>\<open>XCHAL_OPTION\<close> line, in the same
  order, with the value of its condition in \<^verbatim>\<open>core-isa.h\<close>.
\<close>

fun XCHAL_OPTION :: "bool \<times> nat \<Rightarrow> u64" where
  "XCHAL_OPTION (xchal, opt) = (if xchal then XTENSA_OPTION_BIT opt else 0)"

definition esp32s3_options :: u64 where
  "esp32s3_options = foldr (\<lambda>o1 acc. XCHAL_OPTION o1 OR acc)
     [(True, 0), (True, 1), (False, 2), (True, 3), (True, 4), (True, 5), (True, 6),
      (True, 7), (True, 8), (True, 9), (True, 10), (True, 11), (True, 12), (True, 13),
      (True, 14), (True, 15), (True, 16), (True, 17), (True, 18), (True, 19), (False, 20),
      (True, 21), (True, 22), (False, 23), (True, 24), (True, 25), (True, 26), (False, 27),
      (False, 29), (False, 30), (False, 32), (True, 38), (False, 39), (True, 40), (False, 41),
      (False, 42), (False, 43), (False, 44), (True, 45), (True, 50), (True, 47), (True, 48),
      (True, 49), (True, 52)] 0"

section \<open>Vectors and interrupts\<close>

definition esp32s3_exception_vector :: "int \<Rightarrow> u32" where
  "esp32s3_exception_vector n =
     (if n = 0 then 0x50000000 else if n = 1 then 0x40000400
      else if n = EXC_WINDOW_OVERFLOW4 then 0x40000000 else if n = EXC_WINDOW_UNDERFLOW4 then 0x40000040
      else if n = EXC_WINDOW_OVERFLOW8 then 0x40000080 else if n = EXC_WINDOW_UNDERFLOW8 then 0x400000C0
      else if n = EXC_WINDOW_OVERFLOW12 then 0x40000100 else if n = EXC_WINDOW_UNDERFLOW12 then 0x40000140
      else if n = EXC_KERNEL then 0x40000300 else if n = EXC_USER then 0x40000340
      else if n = EXC_DOUBLE then 0x400003C0 else if n = EXC_DEBUG then 0x40000280 else 0)"

definition table :: "'a list \<Rightarrow> 'a \<Rightarrow> nat \<Rightarrow> 'a" where
  "table xs d i = (if i < length xs then xs ! i else d)"

definition esp32s3_interrupt_vector :: "nat \<Rightarrow> u32" where
  "esp32s3_interrupt_vector =
     table [0, 0, 0x40000180, 0x400001C0, 0x40000200, 0x40000240, 0x40000280, 0x400002C0] 0"

definition esp32s3_level_mask :: "nat \<Rightarrow> u32" where
  "esp32s3_level_mask =
     table [0, 0x000637FF, 0x00380000, 0x28C08800, 0x53000000, 0x84010000, 0x00000000, 0x00004000] 0"

fun esp32s3_inttype_mask :: "interrupt_type \<Rightarrow> u32" where
  "esp32s3_inttype_mask INTTYPE_EDGE = 0x50400400"
| "esp32s3_inttype_mask INTTYPE_NMI = 0x00004000"
| "esp32s3_inttype_mask INTTYPE_SOFTWARE = 0x20000080"
| "esp32s3_inttype_mask _ = 0"

definition esp32s3_interrupt_level :: "nat \<Rightarrow> nat" where
  "esp32s3_interrupt_level =
     table [1, 1, 1, 1, 1, 1, 1, 1, 1, 1, 1, 3, 1, 1, 7, 3,
      5, 1, 1, 2, 2, 2, 3, 3, 4, 4, 5, 3, 4, 3, 4, 5] 0"

definition esp32s3_interrupt_inttype :: "nat \<Rightarrow> interrupt_type" where
  "esp32s3_interrupt_inttype =
     table [INTTYPE_LEVEL, INTTYPE_LEVEL, INTTYPE_LEVEL, INTTYPE_LEVEL,
      INTTYPE_LEVEL, INTTYPE_LEVEL, INTTYPE_TIMER, INTTYPE_SOFTWARE,
      INTTYPE_LEVEL, INTTYPE_LEVEL, INTTYPE_EDGE, INTTYPE_PROFILING,
      INTTYPE_LEVEL, INTTYPE_LEVEL, INTTYPE_NMI, INTTYPE_TIMER,
      INTTYPE_TIMER, INTTYPE_LEVEL, INTTYPE_LEVEL, INTTYPE_LEVEL,
      INTTYPE_LEVEL, INTTYPE_LEVEL, INTTYPE_EDGE, INTTYPE_LEVEL,
      INTTYPE_LEVEL, INTTYPE_LEVEL, INTTYPE_LEVEL, INTTYPE_LEVEL,
      INTTYPE_EDGE, INTTYPE_SOFTWARE, INTTYPE_EDGE, INTTYPE_LEVEL] INTTYPE_LEVEL"

definition esp32s3_timerint :: "nat \<Rightarrow> nat" where
  "esp32s3_timerint = table [6, 15, 16] 0"

definition esp32s3_extint :: "nat \<Rightarrow> nat" where
  "esp32s3_extint =
     table [0, 1, 2, 3, 4, 5, 8, 9, 10, 12, 13, 14, 17, 18, 19, 20,
      21, 22, 23, 24, 25, 26, 27, 28, 30, 31] 0"

text \<open>Region protection: one way of eight entries in each TLB.\<close>

definition esp32s3_tlb :: xtensa_tlb where
  "esp32s3_tlb = \<lparr>nways = 1, way_size = table [8] 0, varway56 = False, nrefillentries = 0\<rparr>"

definition esp32s3_config :: XtensaConfig where
  "esp32s3_config =
     \<lparr>options = esp32s3_options, nareg = 64, excm_level = 3, ndepc = 1, max_insn_size = 4,
      vecbase = 0x40000000, exception_vector = esp32s3_exception_vector,
      ninterrupt = 32, nlevel = 7, nmi_level = 7,
      interrupt_vector = esp32s3_interrupt_vector, level_mask = esp32s3_level_mask,
      inttype_mask = esp32s3_inttype_mask, interrupt_level = esp32s3_interrupt_level,
      interrupt_inttype = esp32s3_interrupt_inttype, nccompare = 3, timerint = esp32s3_timerint,
      nextint = 26, extint = esp32s3_extint, debug_level = 6, nibreak = 2, ndbreak = 2,
      icache_ways = 1, dcache_ways = 1, memctl_mask = 0x7,
      configid = table [0xC2F0FFFE, 0x23090F1F] 0, cfg_itlb = esp32s3_tlb, cfg_dtlb = esp32s3_tlb,
      mpu_align = 0, n_mpu_fg_segments = 0, n_mpu_bg_segments = 0,
      mpu_bg = (\<lambda>_. \<lparr>me_vaddr = 0, me_attr = 0\<rparr>)\<rparr>"

text \<open>A CPU object as allocated, before reset: zero everywhere.\<close>

definition new_cpu :: "XtensaConfig \<Rightarrow> env" where
  "new_cpu cfg =
     \<lparr>config = cfg, regs = (\<lambda>_. 0), env_pc = 0, sregs = (\<lambda>_. 0), phys_regs = (\<lambda>_. 0),
      windowbase_next = 0, exclusive_addr = 0,
      itlb = (\<lambda>_ _. \<lparr>te_vaddr = 0, te_paddr = 0, te_asid = 0, te_attr = 0, te_variable = False\<rparr>),
      dtlb = (\<lambda>_ _. \<lparr>te_vaddr = 0, te_paddr = 0, te_asid = 0, te_attr = 0, te_variable = False\<rparr>),
      mpu_fg = (\<lambda>_. \<lparr>me_vaddr = 0, me_attr = 0\<rparr>), autorefill_idx = 0, runstall = False,
      pending_irq_level = 0, time_base = 0, ccount_time = 0, ccount_base = 0, yield_needed = False,
      static_vectors = 0, cpu_watchpoint = (\<lambda>_. None), cpu_breakpoint = (\<lambda>_. None),
      exception_index = - 1, halted = False, breakpoints = [],
      watchpoint_flags = (\<lambda>_. 0), watchpoint_hit = None, calls = []\<rparr>"

section \<open>Evaluation\<close>

lemma new_cpu_simps [config_simps]:
  "config (new_cpu cfg) = cfg" "sregs (new_cpu cfg) = (\<lambda>_. 0)" "regs (new_cpu cfg) = (\<lambda>_. 0)"
  "phys_regs (new_cpu cfg) = (\<lambda>_. 0)" "env_pc (new_cpu cfg) = 0" "pending_irq_level (new_cpu cfg) = 0"
  "halted (new_cpu cfg) = False" "windowbase_next (new_cpu cfg) = 0" "breakpoints (new_cpu cfg) = []"
  by (simp_all add: new_cpu_def)

lemma table_simps [simp]:
  "table (x # xs) d 0 = x" "table (x # xs) d (Suc n) = table xs d n" "table [] d n = d"
  "table (x # xs) d (numeral k) = table xs d (pred_numeral k)"
  by (simp_all add: table_def numeral_eq_Suc)

lemma option_enabled_bit: "opt < 64 \<Longrightarrow> xtensa_option_enabled cfg opt \<longleftrightarrow> bit (options cfg) opt"
  using and_exp_eq_0_iff_not_bit [of "options cfg" opt]
  by (simp add: xtensa_option_enabled_def xtensa_option_bits_enabled_def XTENSA_OPTION_BIT_def
      push_bit_eq_mult)

lemma esp32s3_options_value: "esp32s3_options = 0x17a140076ffffb"
  by (simp add: esp32s3_options_def XTENSA_OPTION_BIT_def)

lemma esp32s3_simps [config_simps]:
  "options esp32s3_config = 0x17a140076ffffb" "nareg esp32s3_config = 64" "excm_level esp32s3_config = 3"
  "ndepc esp32s3_config = 1" "max_insn_size esp32s3_config = 4" "vecbase esp32s3_config = 0x40000000"
  "exception_vector esp32s3_config = esp32s3_exception_vector"
  "ninterrupt esp32s3_config = 32" "nlevel esp32s3_config = 7" "nmi_level esp32s3_config = 7"
  "interrupt_vector esp32s3_config = esp32s3_interrupt_vector"
  "level_mask esp32s3_config = esp32s3_level_mask" "inttype_mask esp32s3_config = esp32s3_inttype_mask"
  "interrupt_level esp32s3_config = esp32s3_interrupt_level"
  "interrupt_inttype esp32s3_config = esp32s3_interrupt_inttype" "nccompare esp32s3_config = 3"
  "timerint esp32s3_config = esp32s3_timerint" "nextint esp32s3_config = 26"
  "extint esp32s3_config = esp32s3_extint" "debug_level esp32s3_config = 6"
  "nibreak esp32s3_config = 2" "ndbreak esp32s3_config = 2" "icache_ways esp32s3_config = 1"
  "dcache_ways esp32s3_config = 1" "memctl_mask esp32s3_config = 0x7"
  "cfg_itlb esp32s3_config = esp32s3_tlb" "cfg_dtlb esp32s3_config = esp32s3_tlb"
  by (simp_all add: esp32s3_config_def esp32s3_options_value)

lemmas esp32s3_tables =
  esp32s3_exception_vector_def esp32s3_interrupt_vector_def esp32s3_level_mask_def
  esp32s3_interrupt_level_def esp32s3_interrupt_inttype_def esp32s3_timerint_def esp32s3_extint_def

section \<open>The interrupt tables agree\<close>

lemma upt_0_3: "[0..<3] = [0, 1, 2]"
  by code_simp

lemma upt_0_8: "[0..<8] = [0, 1, 2, 3, 4, 5, 6, 7]"
  by code_simp

lemma upt_0_26: "[0..<26] = [0, 1, 2, 3, 4, 5, 6, 7, 8, 9, 10, 11, 12, 13, 14, 15, 16, 17, 18, 19, 20, 21, 22, 23, 24, 25]"
  by code_simp

lemma upt_0_32: "[0..<32] = [0, 1, 2, 3, 4, 5, 6, 7, 8, 9, 10, 11, 12, 13, 14, 15, 16, 17, 18, 19, 20, 21, 22, 23, 24, 25, 26, 27, 28, 29, 30, 31]"
  by code_simp

text \<open>
  The tables generated for the ESP32-S3 describe the same interrupts: interrupt $i$ is in
  the mask of level $l$ exactly when its level is $l$; it is in the edge, NMI or software mask
  exactly when that is its type; the external-interrupt table lists each level-, edge- or
  NMI-type line once, in increasing order; and the three timers raise timer-type lines.
\<close>

theorem esp32s3_interrupt_tables_agree:
  "list_all (\<lambda>i. list_all (\<lambda>l. bit (level_mask esp32s3_config l) i = (interrupt_level esp32s3_config i = l))
      [0..<8]) [0..<32] \<and>
   list_all (\<lambda>i. list_all (\<lambda>t. bit (inttype_mask esp32s3_config t) i = (interrupt_inttype esp32s3_config i = t))
      [INTTYPE_EDGE, INTTYPE_NMI, INTTYPE_SOFTWARE]) [0..<32] \<and>
   map (extint esp32s3_config) [0..<nextint esp32s3_config] =
     filter (\<lambda>i. interrupt_inttype esp32s3_config i = INTTYPE_LEVEL \<or>
       interrupt_inttype esp32s3_config i = INTTYPE_EDGE \<or> interrupt_inttype esp32s3_config i = INTTYPE_NMI) [0..<32] \<and>
   list_all (\<lambda>t. interrupt_inttype esp32s3_config (timerint esp32s3_config t) = INTTYPE_TIMER) [0..<3]"
proof (intro conjI)
  show "list_all (\<lambda>i. list_all (\<lambda>l. bit (level_mask esp32s3_config l) i = (interrupt_level esp32s3_config i = l))
      [0..<8]) [0..<32]"
    by (simp add: config_simps esp32s3_tables upt_0_3 upt_0_8 upt_0_26 upt_0_32)
  show "list_all (\<lambda>i. list_all (\<lambda>t. bit (inttype_mask esp32s3_config t) i = (interrupt_inttype esp32s3_config i = t))
      [INTTYPE_EDGE, INTTYPE_NMI, INTTYPE_SOFTWARE]) [0..<32]"
    by (simp add: config_simps esp32s3_tables upt_0_3 upt_0_8 upt_0_26 upt_0_32)
  show "map (extint esp32s3_config) [0..<nextint esp32s3_config] =
     filter (\<lambda>i. interrupt_inttype esp32s3_config i = INTTYPE_LEVEL \<or>
       interrupt_inttype esp32s3_config i = INTTYPE_EDGE \<or> interrupt_inttype esp32s3_config i = INTTYPE_NMI) [0..<32]"
    by (simp add: config_simps esp32s3_tables upt_0_3 upt_0_8 upt_0_26 upt_0_32)
  show "list_all (\<lambda>t. interrupt_inttype esp32s3_config (timerint esp32s3_config t) = INTTYPE_TIMER) [0..<3]"
    by (simp add: config_simps esp32s3_tables upt_0_3 upt_0_8 upt_0_26 upt_0_32)
qed

end
