(* ===== verification/Pic_Cpu.thy ===== *)
theory Pic_Cpu
  imports Config_Esp32s3
begin

text \<open>
  The on-core interrupt controller, \<^verbatim>\<open>hw/xtensa/pic_cpu.c\<close>: interrupt lines set and
  clear bits of INTSET, and \<^verbatim>\<open>check_interrupts\<close> picks the highest enabled level above
  the current one. A \<^verbatim>\<open>qemu_irq\<close> of \<^verbatim>\<open>irq_inputs\<close> is the call of its handler,
  \<^verbatim>\<open>xtensa_set_irq\<close>, with the line's number.
\<close>

abbreviation (input) "CPU_INTERRUPT_HARD \<equiv> 2 :: u32"

section \<open>Operations\<close>

text \<open>The loop of \<^verbatim>\<open>check_interrupts\<close>, from level \<open>n\<close> down to above \<open>minlevel\<close>.\<close>

fun find_level :: "(nat \<Rightarrow> u32) \<Rightarrow> u32 \<Rightarrow> int \<Rightarrow> nat \<Rightarrow> nat option" where
  "find_level lmask en minlevel 0 =
     (if 0 > minlevel then if lmask 0 AND en \<noteq> 0 then Some 0 else None else None)"
| "find_level lmask en minlevel (Suc m) =
     (if int (Suc m) > minlevel then
        if lmask (Suc m) AND en \<noteq> 0 then Some (Suc m) else find_level lmask en minlevel m
      else None)"

definition int_set_enabled :: "env \<Rightarrow> u32" where
  "int_set_enabled env =
     sregs env INTSET AND (sregs env INTENABLE OR inttype_mask (config env) INTTYPE_NMI)"

definition irq_minlevel :: "env \<Rightarrow> int" where
  "irq_minlevel env =
     (let minlevel = xtensa_get_cintlevel env in
      if minlevel \<ge> int (nmi_level (config env)) then int (nmi_level (config env)) - 1 else minlevel)"

definition check_interrupts :: "env \<Rightarrow> env" where
  "check_interrupts env =
     (case find_level (level_mask (config env)) (int_set_enabled env) (irq_minlevel env)
             (nlevel (config env)) of
        Some level \<Rightarrow> call (Cpu_interrupt CPU_INTERRUPT_HARD) (env\<lparr>pending_irq_level := level\<rparr>)
      | None \<Rightarrow> call (Cpu_reset_interrupt CPU_INTERRUPT_HARD) (env\<lparr>pending_irq_level := 0\<rparr>))"

definition xtensa_set_irq :: "env \<Rightarrow> nat \<Rightarrow> bool \<Rightarrow> env" where
  "xtensa_set_irq env irq active =
     (if irq \<ge> ninterrupt (config env) then env
      else
        let irq_bit = push_bit irq 1 in
        check_interrupts
          (if active then set_sreg INTSET (sregs env INTSET OR irq_bit) env
           else if interrupt_inttype (config env) irq = INTTYPE_LEVEL
             then set_sreg INTSET (sregs env INTSET AND NOT irq_bit) env
           else env))"

definition xtensa_ccompare_cb :: "env \<Rightarrow> nat \<Rightarrow> env" where
  "xtensa_ccompare_cb env i = xtensa_set_irq env (timerint (config env) i) True"

definition xtensa_irq_init :: "u64 \<Rightarrow> env \<Rightarrow> env" where
  "xtensa_irq_init now env =
     (if xtensa_option_enabled (config env) XTENSA_OPTION_TIMER_INTERRUPT
      then env\<lparr>time_base := now, ccount_base := sregs env CCOUNT\<rparr> else env)"

section \<open>The level search\<close>

lemma find_level_None:
  "find_level lmask en minlevel n = None \<longleftrightarrow> (\<forall>k \<le> n. minlevel < int k \<longrightarrow> lmask k AND en = 0)"
  by (induction n) (auto simp: le_Suc_eq)

lemma find_level_Some:
  "find_level lmask en minlevel n = Some l \<Longrightarrow>
     minlevel < int l \<and> l \<le> n \<and> lmask l AND en \<noteq> 0 \<and> (\<forall>k. l < k \<and> k \<le> n \<longrightarrow> lmask k AND en = 0)"
  by (induction n) (auto simp: le_Suc_eq split: if_splits)

lemma find_level_Max:
  "find_level lmask en minlevel n =
     (let L = {l. minlevel < int l \<and> l \<le> n \<and> lmask l AND en \<noteq> 0} in if L = {} then None else Some (Max L))"
proof (cases "find_level lmask en minlevel n")
  case None
  then show ?thesis by (auto simp: find_level_None)
next
  case (Some l)
  let ?L = "{l. minlevel < int l \<and> l \<le> n \<and> lmask l AND en \<noteq> 0}"
  from find_level_Some [OF Some] have "l \<in> ?L" "\<And>k. k \<in> ?L \<Longrightarrow> k \<le> l"
    by (auto simp: not_le [symmetric])
  moreover have "finite ?L" by (rule finite_subset [of _ "{..n}"]) auto
  ultimately have "Max ?L = l" by (auto intro: Max_eqI)
  with Some \<open>l \<in> ?L\<close> show ?thesis by (auto simp: Let_def)
qed

lemma find_level_numeral [simp]:
  "find_level lmask en minlevel (numeral k) =
     (if numeral k > minlevel then
        if lmask (numeral k) AND en \<noteq> 0 then Some (numeral k) else find_level lmask en minlevel (pred_numeral k)
      else None)"
  using find_level.simps(2) [of lmask en minlevel "pred_numeral k"]
  by (simp only: numeral_eq_Suc [symmetric] of_nat_numeral)

section \<open>What checking changes\<close>

lemma check_interrupts_frame [frame_simps]:
  "config (check_interrupts env) = config env"
  "sregs (check_interrupts env) = sregs env"
  "regs (check_interrupts env) = regs env"
  "phys_regs (check_interrupts env) = phys_regs env"
  "env_pc (check_interrupts env) = env_pc env"
  "exception_index (check_interrupts env) = exception_index env"
  "halted (check_interrupts env) = halted env"
  "runstall (check_interrupts env) = runstall env"
  by (simp_all add: check_interrupts_def call_def split: option.splits)

lemma cintlevel_cong:
  "sregs e1 PS = sregs e2 PS \<Longrightarrow> config e1 = config e2 \<Longrightarrow>
   xtensa_get_cintlevel e1 = xtensa_get_cintlevel e2"
  by (simp add: xtensa_get_cintlevel_def Let_def)

lemma irq_minlevel_cong:
  "sregs e1 PS = sregs e2 PS \<Longrightarrow> config e1 = config e2 \<Longrightarrow> irq_minlevel e1 = irq_minlevel e2"
  using cintlevel_cong [of e1 e2] by (simp add: irq_minlevel_def Let_def)

lemma int_set_enabled_cong:
  "sregs e1 = sregs e2 \<Longrightarrow> config e1 = config e2 \<Longrightarrow> int_set_enabled e1 = int_set_enabled e2"
  by (simp add: int_set_enabled_def)

lemma check_interrupts_same [frame_simps]:
  "irq_minlevel (check_interrupts env) = irq_minlevel env"
  "int_set_enabled (check_interrupts env) = int_set_enabled env"
  by (rule irq_minlevel_cong; simp add: frame_simps) (rule int_set_enabled_cong; simp add: frame_simps)

lemma check_interrupts_idem_level:
  "pending_irq_level (check_interrupts (check_interrupts env)) = pending_irq_level (check_interrupts env)"
  by (simp add: check_interrupts_def [of "check_interrupts env"] frame_simps)
     (simp add: check_interrupts_def call_def split: option.splits)

section \<open>Properties\<close>

text \<open>
  C16. \<^verbatim>\<open>check_interrupts\<close> selects by priority: the pending level is the highest level
  above the current minimum (the current interrupt level, but never masking the NMI level)
  that has an interrupt both set and enabled or non-maskable, and 0 if there is none; the
  request line of the execution loop is raised in the first case and dropped in the second.
\<close>

theorem check_interrupts_highest:
  "let L = {l. irq_minlevel env < int l \<and> l \<le> nlevel (config env) \<and>
              level_mask (config env) l AND int_set_enabled env \<noteq> 0}
   in pending_irq_level (check_interrupts env) = (if L = {} then 0 else Max L) \<and>
      calls (check_interrupts env) =
        (if L = {} then Cpu_reset_interrupt CPU_INTERRUPT_HARD else Cpu_interrupt CPU_INTERRUPT_HARD) # calls env"
  by (auto simp: check_interrupts_def find_level_Max Let_def call_def)

lemma set_irq_bits:
  assumes "ninterrupt (config env) \<le> 32"
  shows "bit (sregs (xtensa_set_irq env irq active) INTSET) j =
    (if j = irq \<and> irq < ninterrupt (config env)
     then (if active then True
           else if interrupt_inttype (config env) irq = INTTYPE_LEVEL then False
           else bit (sregs env INTSET) irq)
     else bit (sregs env INTSET) j)"
  using assms by (auto simp: xtensa_set_irq_def Let_def frame_simps set_sreg_def bit_simps dest: bit_imp_le_length)

lemma set_irq_frame [frame_simps]:
  "config (xtensa_set_irq env irq active) = config env"
  "r \<noteq> INTSET \<Longrightarrow> sregs (xtensa_set_irq env irq active) r = sregs env r"
  by (simp_all add: xtensa_set_irq_def Let_def frame_simps set_sreg_def)

text \<open>An interrupt that is set, enabled and above the minimum level is at least pending.\<close>

lemma check_interrupts_pending:
  assumes "bit (int_set_enabled env) k" "bit (level_mask (config env) l) k"
    "irq_minlevel env < int l" "l \<le> nlevel (config env)"
  shows "l \<le> pending_irq_level (check_interrupts env) \<and>
    hd (calls (check_interrupts env)) = Cpu_interrupt CPU_INTERRUPT_HARD"
proof -
  let ?L = "{l. irq_minlevel env < int l \<and> l \<le> nlevel (config env) \<and>
    level_mask (config env) l AND int_set_enabled env \<noteq> 0}"
  have "bit (level_mask (config env) l AND int_set_enabled env) k" using assms by (simp add: bit_simps)
  then have "level_mask (config env) l AND int_set_enabled env \<noteq> 0" by (metis bit_0_eq bot_apply bot_bool_def)
  then have "l \<in> ?L" using assms by simp
  moreover have "finite ?L" by (rule finite_subset [of _ "{..nlevel (config env)}"]) auto
  ultimately show ?thesis
    by (auto simp: check_interrupts_def find_level_Max Let_def call_def)
qed

end
