(* ===== verification/Exc_Helper.thy ===== *)
theory Exc_Helper
  imports Pic_Cpu
begin

text \<open>
  Exceptions and interrupts, \<^verbatim>\<open>target/xtensa/exc_helper.c\<close>. A helper that raises an
  exception leaves through \<^verbatim>\<open>cpu_loop_exit\<close>, the outcome \<^verbatim>\<open>LoopExit\<close>.
\<close>

section \<open>Raising exceptions\<close>

definition exception :: "env \<Rightarrow> int \<Rightarrow> (env, unit) outcome" where
  "exception env excp =
     (let env = env\<lparr>exception_index := excp\<rparr>;
          env = (if excp = EXCP_YIELD then env\<lparr>yield_needed := False\<rparr> else env)
      in LoopExit env)"

definition exception_cause :: "env \<Rightarrow> u32 \<Rightarrow> u32 \<Rightarrow> (env, unit) outcome" where
  "exception_cause env pc cause =
     (let env = env\<lparr>env_pc := pc\<rparr>;
          (env, vector) =
            (if sregs env PS AND PS_EXCM \<noteq> 0 then
               (if ndepc (config env) \<noteq> 0 then set_sreg DEPC pc env else set_sreg EPC1 pc env, EXC_DOUBLE)
             else
               (set_sreg EPC1 pc env, if sregs env PS AND PS_UM \<noteq> 0 then EXC_USER else EXC_KERNEL));
          env = set_sreg EXCCAUSE cause env;
          env = set_sreg PS (sregs env PS OR PS_EXCM) env
      in exception env vector)"

definition exception_cause_vaddr :: "env \<Rightarrow> u32 \<Rightarrow> u32 \<Rightarrow> u32 \<Rightarrow> (env, unit) outcome" where
  "exception_cause_vaddr env pc cause vaddr =
     exception_cause (set_sreg EXCVADDR vaddr env) pc cause"

definition debug_exception :: "env \<Rightarrow> u32 \<Rightarrow> u32 \<Rightarrow> (env, unit) outcome" where
  "debug_exception env pc cause =
     (let level = debug_level (config env);
          env = env\<lparr>env_pc := pc\<rparr>;
          env = set_sreg DEBUGCAUSE cause env;
          env = set_sreg (EPC1 + level - 1) pc env;
          env = set_sreg (EPS2 + level - 2) (sregs env PS) env;
          env = set_sreg PS ((sregs env PS AND NOT PS_INTLEVEL) OR PS_EXCM OR of_nat level) env
      in exception env EXC_DEBUG)"

definition debug_exception_env :: "env \<Rightarrow> u32 \<Rightarrow> (env, unit) outcome" where
  "debug_exception_env env cause =
     (if xtensa_get_cintlevel env < int (debug_level (config env))
      then debug_exception env (env_pc env) cause else Ret () env)"

definition waiti :: "env \<Rightarrow> u32 \<Rightarrow> u32 \<Rightarrow> (env, unit) outcome" where
  "waiti env pc intlevel =
     (let env = env\<lparr>env_pc := pc\<rparr>;
          env = set_sreg PS ((sregs env PS AND NOT PS_INTLEVEL) OR intlevel) env;
          env = check_interrupts env
      in if pending_irq_level env \<noteq> 0 then LoopExit env
         else exception (env\<lparr>halted := True\<rparr>) EXCP_HLT)"

section \<open>Interrupt registers\<close>

definition helper_intset :: "env \<Rightarrow> u32 \<Rightarrow> env" where
  "helper_intset env v =
     set_sreg INTSET (sregs env INTSET OR (v AND inttype_mask (config env) INTTYPE_SOFTWARE)) env"

definition intclear :: "env \<Rightarrow> u32 \<Rightarrow> env" where
  "intclear env v = set_sreg INTSET (sregs env INTSET AND NOT v) env"

definition helper_intclear :: "env \<Rightarrow> u32 \<Rightarrow> env" where
  "helper_intclear env v =
     intclear env (v AND (inttype_mask (config env) INTTYPE_SOFTWARE OR
                          inttype_mask (config env) INTTYPE_EDGE))"

definition relocated_vector :: "env \<Rightarrow> u32 \<Rightarrow> u32" where
  "relocated_vector env vector =
     (if xtensa_option_enabled (config env) XTENSA_OPTION_RELOCATABLE_VECTOR
      then vector - vecbase (config env) + sregs env VECBASE else vector)"

section \<open>Taking an interrupt\<close>

text \<open>The two arms of \<^verbatim>\<open>handle_interrupt\<close>: a level above 1, and level 1.\<close>

definition take_high_level :: "env \<Rightarrow> nat \<Rightarrow> (env, unit) outcome" where
  "take_high_level env level =
     (if level < 8 then
        let env = set_sreg (EPC1 + level - 1) (env_pc env) env;
            env = set_sreg (EPS2 + level - 2) (sregs env PS) env;
            env = set_sreg PS ((sregs env PS AND NOT PS_INTLEVEL) OR of_nat level OR PS_EXCM) env;
            env = env\<lparr>env_pc := relocated_vector env (interrupt_vector (config env) level)\<rparr>;
            env = (if level = nmi_level (config env)
                   then intclear env (inttype_mask (config env) INTTYPE_NMI) else env)
        in Ret () env
      else AssertFail)"

definition take_level1 :: "env \<Rightarrow> env" where
  "take_level1 env =
     (let env = set_sreg EXCCAUSE LEVEL1_INTERRUPT_CAUSE env;
          env =
            (if sregs env PS AND PS_EXCM \<noteq> 0 then
               (if ndepc (config env) \<noteq> 0 then set_sreg DEPC (env_pc env) env
                else set_sreg EPC1 (env_pc env) env)\<lparr>exception_index := EXC_DOUBLE\<rparr>
             else
               (set_sreg EPC1 (env_pc env) env)
                 \<lparr>exception_index := (if sregs env PS AND PS_UM \<noteq> 0 then EXC_USER else EXC_KERNEL)\<rparr>)
      in set_sreg PS (sregs env PS OR PS_EXCM) env)"

definition handle_interrupt :: "env \<Rightarrow> (env, unit) outcome" where
  "handle_interrupt env =
     (let level = pending_irq_level env in
      if (int level > xtensa_get_cintlevel env \<and> level \<le> nlevel (config env) \<and>
          level_mask (config env) level AND sregs env INTSET AND sregs env INTENABLE \<noteq> 0) \<or>
         level = nmi_level (config env)
      then if level > 1 then take_high_level env level else Ret () (take_level1 env)
      else Ret () env)"

definition vectored :: "int \<Rightarrow> bool" where
  "vectored n \<longleftrightarrow>
     n = EXC_WINDOW_OVERFLOW4 \<or> n = EXC_WINDOW_UNDERFLOW4 \<or>
     n = EXC_WINDOW_OVERFLOW8 \<or> n = EXC_WINDOW_UNDERFLOW8 \<or>
     n = EXC_WINDOW_OVERFLOW12 \<or> n = EXC_WINDOW_UNDERFLOW12 \<or>
     n = EXC_KERNEL \<or> n = EXC_USER \<or> n = EXC_DOUBLE \<or> n = EXC_DEBUG"

definition xtensa_cpu_do_interrupt :: "env \<Rightarrow> (env, unit) outcome" where
  "xtensa_cpu_do_interrupt env =
     obind (if exception_index env = EXC_IRQ then handle_interrupt env else Ret () env)
       (\<lambda>_ env.
          let env =
            (if vectored (exception_index env) \<and> exception_vector (config env) (exception_index env) \<noteq> 0
             then env\<lparr>env_pc := relocated_vector env (exception_vector (config env) (exception_index env))\<rparr>
             else env)
          in Ret () (check_interrupts env))"

definition xtensa_cpu_exec_interrupt :: "env \<Rightarrow> u32 \<Rightarrow> (env, bool) outcome" where
  "xtensa_cpu_exec_interrupt env interrupt_request =
     (if interrupt_request AND CPU_INTERRUPT_HARD \<noteq> 0
      then obind (xtensa_cpu_do_interrupt (env\<lparr>exception_index := EXC_IRQ\<rparr>)) (\<lambda>_ env. Ret True env)
      else Ret False env)"

text \<open>
  What the interrupt properties require of a configuration: at least one level, the NMI level
  is the top one and carries exactly the NMI lines, EXCM masks at least level 1.
\<close>

definition irq_config_ok :: "XtensaConfig \<Rightarrow> bool" where
  "irq_config_ok cfg \<longleftrightarrow>
     1 \<le> nmi_level cfg \<and> nlevel cfg \<le> nmi_level cfg \<and> nmi_level cfg \<le> 7 \<and> 1 \<le> excm_level cfg \<and>
     level_mask cfg (nmi_level cfg) AND NOT (inttype_mask cfg INTTYPE_NMI) = 0 \<and>
     (\<forall>l. l < nmi_level cfg \<longrightarrow> level_mask cfg l AND inttype_mask cfg INTTYPE_NMI = 0)"

section \<open>Frame facts\<close>

lemma set_sreg_simps [simp]:
  "sregs (set_sreg r v env) = (sregs env)(r := v)"
  "config (set_sreg r v env) = config env"
  "env_pc (set_sreg r v env) = env_pc env"
  "regs (set_sreg r v env) = regs env"
  "phys_regs (set_sreg r v env) = phys_regs env"
  "windowbase_next (set_sreg r v env) = windowbase_next env"
  "exception_index (set_sreg r v env) = exception_index env"
  "pending_irq_level (set_sreg r v env) = pending_irq_level env"
  "halted (set_sreg r v env) = halted env"
  "calls (set_sreg r v env) = calls env"
  by (simp_all add: set_sreg_def)

lemma relocated_vector_cong:
  "config e1 = config e2 \<Longrightarrow> sregs e1 VECBASE = sregs e2 VECBASE \<Longrightarrow>
   relocated_vector e1 v = relocated_vector e2 v"
  by (simp add: relocated_vector_def)

lemma irq_minlevel_nonneg: "irq_config_ok (config env) \<Longrightarrow> 0 \<le> irq_minlevel env"
  using cintlevel_nonneg [of env] by (simp add: irq_minlevel_def irq_config_ok_def Let_def)

text \<open>After a check, the pending level is one the search found.\<close>

lemma pending_level_found:
  assumes "env = check_interrupts env0" "pending_irq_level env \<noteq> 0"
  shows "irq_minlevel env < int (pending_irq_level env)" "pending_irq_level env \<le> nlevel (config env)"
    "level_mask (config env) (pending_irq_level env) AND int_set_enabled env \<noteq> 0"
proof -
  have same: "int_set_enabled env = int_set_enabled env0" "irq_minlevel env = irq_minlevel env0"
    by (simp_all add: assms(1) frame_simps)
  obtain l where f: "find_level (level_mask (config env)) (int_set_enabled env) (irq_minlevel env)
      (nlevel (config env)) = Some l" "pending_irq_level env = l"
    using assms unfolding same
    by (auto simp: check_interrupts_def call_def frame_simps split: option.splits)
  show "irq_minlevel env < int (pending_irq_level env)" "pending_irq_level env \<le> nlevel (config env)"
    "level_mask (config env) (pending_irq_level env) AND int_set_enabled env \<noteq> 0"
    using find_level_Some [OF f(1)] f(2) by auto
qed

section \<open>A pending interrupt is taken\<close>

lemma pending_deliverable:
  assumes "irq_config_ok (config env)" "env = check_interrupts env0" "pending_irq_level env \<noteq> 0"
  shows "(int (pending_irq_level env) > xtensa_get_cintlevel env \<and> pending_irq_level env \<le> nlevel (config env) \<and>
      level_mask (config env) (pending_irq_level env) AND sregs env INTSET AND sregs env INTENABLE \<noteq> 0) \<or>
    pending_irq_level env = nmi_level (config env)"
proof (cases "pending_irq_level env = nmi_level (config env)")
  case False
  note found = pending_level_found [OF assms(2,3)]
  have lt: "pending_irq_level env < nmi_level (config env)"
    using False found(2) assms(1) by (simp add: irq_config_ok_def)
  then have "xtensa_get_cintlevel env < int (pending_irq_level env)"
    using found(1) by (auto simp: irq_minlevel_def Let_def split: if_splits)
  moreover have "level_mask (config env) (pending_irq_level env) AND inttype_mask (config env) INTTYPE_NMI = 0"
    using assms(1) lt by (simp add: irq_config_ok_def)
  then have "level_mask (config env) (pending_irq_level env) AND sregs env INTSET AND sregs env INTENABLE \<noteq> 0"
    using found(3) by (simp add: int_set_enabled_def and.assoc bit.conj_disj_distrib and.left_commute [of _ "sregs env INTSET"])
  ultimately show ?thesis using found(2) by blast
qed simp

text \<open>No level at or below the one just taken is pending afterwards.\<close>

lemma pending_above:
  assumes cfg: "irq_config_ok (config env)" and env': "env' = check_interrupts env"
    and lvl: "int l \<le> xtensa_get_cintlevel env" and l: "l \<le> nlevel (config env)"
    and nmi: "l = nmi_level (config env) \<Longrightarrow> sregs env INTSET AND inttype_mask (config env) INTTYPE_NMI = 0"
  shows "pending_irq_level env' = 0 \<or> l < pending_irq_level env'"
proof (rule disjCI)
  let ?p = "pending_irq_level env'"
  assume nl: "\<not> l < ?p"
  show "?p = 0"
  proof (rule ccontr)
    assume "?p \<noteq> 0"
    note found = pending_level_found [OF env' this]
    have c: "config env' = config env" "xtensa_get_cintlevel env' = xtensa_get_cintlevel env"
      "sregs env' = sregs env"
      using cintlevel_cong [of env' env] by (simp_all add: env' frame_simps)
    have top: "int (nmi_level (config env)) \<le> xtensa_get_cintlevel env" "nmi_level (config env) \<le> ?p"
      using found(1) nl lvl by (auto simp: irq_minlevel_def Let_def c split: if_splits)
    then have p: "?p = nmi_level (config env)" "l = nmi_level (config env)"
      using found(2) nl l cfg by (auto simp: c irq_config_ok_def)
    have "level_mask (config env) (nmi_level (config env)) AND NOT (inttype_mask (config env) INTTYPE_NMI) = 0"
      using cfg by (simp add: irq_config_ok_def)
    then have "level_mask (config env) ?p AND int_set_enabled env' = 0"
      using nmi [OF p(2)] unfolding p(1) int_set_enabled_def c
      by (simp add: bit_eq_iff bit_simps) blast
    with found(3) show False by (simp add: c)
  qed
qed

lemma take_high_level_state:
  assumes "level < 8" "1 < level" "take_high_level env level = Ret () env'"
  shows "sregs env' (EPC1 + level - 1) = env_pc env"
    "sregs env' (EPS2 + level - 2) = sregs env PS"
    "sregs env' PS = (sregs env PS AND NOT PS_INTLEVEL) OR of_nat level OR PS_EXCM"
    "env_pc env' = relocated_vector env (interrupt_vector (config env) level)"
    "config env' = config env" "exception_index env' = exception_index env"
    "level = nmi_level (config env) \<Longrightarrow> sregs env' INTSET AND inttype_mask (config env) INTTYPE_NMI = 0"
proof -
  have ne: "177 + level - 1 \<noteq> 226" "177 + level - 1 \<noteq> 230" "177 + level - 1 \<noteq> 231"
    "194 + level - 2 \<noteq> 226" "194 + level - 2 \<noteq> 230" "194 + level - 2 \<noteq> 231" "177 + level - 1 \<noteq> 194 + level - 2"
    using assms(1,2) by auto
  then show "sregs env' (EPC1 + level - 1) = env_pc env"
    "sregs env' (EPS2 + level - 2) = sregs env PS"
    "sregs env' PS = (sregs env PS AND NOT PS_INTLEVEL) OR of_nat level OR PS_EXCM"
    "env_pc env' = relocated_vector env (interrupt_vector (config env) level)"
    "config env' = config env" "exception_index env' = exception_index env"
    using assms by (auto simp: take_high_level_def Let_def intclear_def relocated_vector_def split: if_splits)
  show "sregs env' INTSET AND inttype_mask (config env) INTTYPE_NMI = 0" if "level = nmi_level (config env)"
    using assms that ne by (auto simp: take_high_level_def Let_def intclear_def and.assoc)
qed

lemma take_level1_state:
  shows "sregs (take_level1 env) EXCCAUSE = LEVEL1_INTERRUPT_CAUSE"
    "sregs (take_level1 env) PS = sregs env PS OR PS_EXCM"
    "sregs (take_level1 env) VECBASE = sregs env VECBASE"
    "sregs (take_level1 env) INTSET = sregs env INTSET"
    "env_pc (take_level1 env) = env_pc env" "config (take_level1 env) = config env"
    "exception_index (take_level1 env) =
       (if sregs env PS AND PS_EXCM \<noteq> 0 then EXC_DOUBLE
        else if sregs env PS AND PS_UM \<noteq> 0 then EXC_USER else EXC_KERNEL)"
    "sregs (take_level1 env)
       (if sregs env PS AND PS_EXCM \<noteq> 0 \<and> ndepc (config env) \<noteq> 0 then DEPC else EPC1) = env_pc env"
  by (simp_all add: take_level1_def Let_def set_sreg_def)

lemma vectored_level1: "vectored (exception_index (take_level1 env))"
  by (simp add: take_level1_state vectored_def)

text \<open>The state in which the handler of a pending interrupt starts.\<close>

lemma exec_interrupt_high:
  assumes cfg: "irq_config_ok (config env)" and env: "env = check_interrupts env0"
    and l: "l = pending_irq_level env" "1 < l"
  obtains env' where "xtensa_cpu_exec_interrupt env CPU_INTERRUPT_HARD = Ret True env'"
    "env_pc env' = relocated_vector env (interrupt_vector (config env) l)"
    "sregs env' (EPC1 + l - 1) = env_pc env" "sregs env' (EPS2 + l - 2) = sregs env PS"
    "config env' = config env"
    "int l \<le> xtensa_get_cintlevel env'" "pending_irq_level env' = 0 \<or> l < pending_irq_level env'"
proof -
  have p: "pending_irq_level env \<noteq> 0" using l by simp
  note found = pending_level_found [OF env p]
  have l7: "l < 8" "l \<le> nlevel (config env)" using found(2) cfg l(1) by (auto simp: irq_config_ok_def)
  define e0 where "e0 = env\<lparr>exception_index := EXC_IRQ\<rparr>"
  have e0: "sregs e0 = sregs env" "config e0 = config env" "env_pc e0 = env_pc env"
    "pending_irq_level e0 = l" "exception_index e0 = EXC_IRQ"
    using l by (simp_all add: e0_def)
  obtain e1 where e1: "take_high_level e0 l = Ret () e1"
    using l7 by (auto simp: take_high_level_def Let_def)
  note st = take_high_level_state [OF l7(1) l(2) e1, unfolded e0]
  have h: "handle_interrupt e0 = Ret () e1"
    using pending_deliverable [OF cfg env p] l e1 cintlevel_cong [of e0 env]
    by (simp add: handle_interrupt_def Let_def e0)
  have lev: "int l \<le> xtensa_get_cintlevel e1"
    using st(3) l7(1) by (intro cintlevel_after_raise) auto
  have r: "xtensa_cpu_exec_interrupt env CPU_INTERRUPT_HARD = Ret True (check_interrupts e1)"
    using h by (simp add: xtensa_cpu_exec_interrupt_def xtensa_cpu_do_interrupt_def e0_def [symmetric] e0 st vectored_def)
  show thesis
  proof (rule that [OF r])
    show "int l \<le> xtensa_get_cintlevel (check_interrupts e1)"
      using lev cintlevel_cong [of "check_interrupts e1" e1] by (simp add: frame_simps)
    show "pending_irq_level (check_interrupts e1) = 0 \<or> l < pending_irq_level (check_interrupts e1)"
      using pending_above [OF _ refl, of e1 l] cfg lev l7 st(5,7) by simp
    show "env_pc (check_interrupts e1) = relocated_vector env (interrupt_vector (config env) l)"
      using st(4) relocated_vector_cong [of e0 env] by (simp add: frame_simps e0)
  qed (use st in \<open>simp_all add: frame_simps\<close>)
qed

lemma exec_interrupt_level1:
  assumes cfg: "irq_config_ok (config env)" and env: "env = check_interrupts env0"
    and l: "pending_irq_level env = 1" and nmi: "nmi_level (config env) \<noteq> 1"
  obtains env' where "xtensa_cpu_exec_interrupt env CPU_INTERRUPT_HARD = Ret True env'"
    "exception_index env' =
       (if sregs env PS AND PS_EXCM \<noteq> 0 then EXC_DOUBLE
        else if sregs env PS AND PS_UM \<noteq> 0 then EXC_USER else EXC_KERNEL)"
    "env_pc env' = (if exception_vector (config env) (exception_index env') \<noteq> 0
       then relocated_vector env (exception_vector (config env) (exception_index env')) else env_pc env)"
    "sregs env' (if sregs env PS AND PS_EXCM \<noteq> 0 \<and> ndepc (config env) \<noteq> 0 then DEPC else EPC1) = env_pc env"
    "sregs env' EXCCAUSE = LEVEL1_INTERRUPT_CAUSE" "config env' = config env"
    "1 \<le> xtensa_get_cintlevel env'" "pending_irq_level env' = 0 \<or> 1 < pending_irq_level env'"
proof -
  have p: "pending_irq_level env \<noteq> 0" using l by simp
  note found = pending_level_found [OF env p]
  define e0 where "e0 = env\<lparr>exception_index := EXC_IRQ\<rparr>"
  have e0: "sregs e0 = sregs env" "config e0 = config env" "env_pc e0 = env_pc env"
    "pending_irq_level e0 = 1" "exception_index e0 = EXC_IRQ"
    using l by (simp_all add: e0_def)
  define e1 where "e1 = take_level1 e0"
  note st = take_level1_state [of e0, folded e1_def, unfolded e0]
  have h: "handle_interrupt e0 = Ret () e1"
    using pending_deliverable [OF cfg env p] l cintlevel_cong [of e0 env]
    by (simp add: handle_interrupt_def Let_def e0 e1_def)
  define e2 where "e2 = (if exception_vector (config env) (exception_index e1) \<noteq> 0
      then e1\<lparr>env_pc := relocated_vector e1 (exception_vector (config env) (exception_index e1))\<rparr> else e1)"
  have e2: "sregs e2 = sregs e1" "config e2 = config env" "exception_index e2 = exception_index e1"
    by (simp_all add: e2_def st)
  have lev: "1 \<le> xtensa_get_cintlevel e2"
    using cfg cintlevel_excm_ge [of e2] by (simp add: e2 st irq_config_ok_def bit_simps bit_ps_masks)
  have r: "xtensa_cpu_exec_interrupt env CPU_INTERRUPT_HARD = Ret True (check_interrupts e2)"
    using h vectored_level1 [of e0]
    by (simp add: xtensa_cpu_exec_interrupt_def xtensa_cpu_do_interrupt_def e0_def [symmetric] e0 st(6)
        e1_def [symmetric] e2_def)
  show thesis
  proof (rule that [OF r])
    show "1 \<le> xtensa_get_cintlevel (check_interrupts e2)"
      using lev cintlevel_cong [of "check_interrupts e2" e2] by (simp add: frame_simps)
    show "pending_irq_level (check_interrupts e2) = 0 \<or> 1 < pending_irq_level (check_interrupts e2)"
      using pending_above [OF _ refl, of e2 1] cfg lev nmi found(2) l by (simp add: e2)
    show "env_pc (check_interrupts e2) = (if exception_vector (config env) (exception_index (check_interrupts e2)) \<noteq> 0
       then relocated_vector env (exception_vector (config env) (exception_index (check_interrupts e2))) else env_pc env)"
      using relocated_vector_cong [of e1 env] by (simp add: frame_simps e2 st) (simp add: e2_def st)
  qed (use st in \<open>simp_all add: frame_simps e2\<close>)
qed

section \<open>Properties\<close>

text \<open>The ESP32-S3 satisfies the configuration requirement; a CPU with interrupt 19 (level 2) and 7 (level 1) set and enabled.\<close>

lemma esp32s3_irq_config_ok [simp]: "irq_config_ok esp32s3_config"
proof -
  have "level_mask esp32s3_config l AND inttype_mask esp32s3_config INTTYPE_NMI = 0" if "l < 7" for l
  proof -
    have "l = 0 \<or> l = 1 \<or> l = 2 \<or> l = 3 \<or> l = 4 \<or> l = 5 \<or> l = 6" using that by linarith
    then show ?thesis by (auto simp: config_simps esp32s3_tables)
  qed
  then show ?thesis by (simp add: irq_config_ok_def config_simps esp32s3_tables)
qed

definition irq_example :: "u32 \<Rightarrow> env" where
  "irq_example ints =
     (new_cpu esp32s3_config)\<lparr>env_pc := 0x42000000,
        sregs := (\<lambda>r. if r = INTSET \<or> r = INTENABLE then ints else if r = VECBASE then 0x40374000 else 0)\<rparr>"

lemma irq_example_simps [simp]:
  "config (irq_example ints) = esp32s3_config" "env_pc (irq_example ints) = 0x42000000"
  "sregs (irq_example ints) = (\<lambda>r. if r = INTSET \<or> r = INTENABLE then ints else if r = VECBASE then 0x40374000 else 0)"
  by (simp_all add: irq_example_def config_simps)

lemma irq_example_pending:
  "pending_irq_level (check_interrupts (irq_example ints)) =
     (case find_level esp32s3_level_mask (ints AND (ints OR 0x4000)) 0 7 of Some l \<Rightarrow> l | None \<Rightarrow> 0)"
  by (simp add: check_interrupts_def call_def int_set_enabled_def irq_minlevel_def xtensa_get_cintlevel_def
      config_simps Let_def split: option.splits)

text \<open>
  C9. A pending interrupt above level 1 is delivered: with the pending level computed by
  \<^verbatim>\<open>check_interrupts\<close>, \<^verbatim>\<open>xtensa_cpu_exec_interrupt\<close> returns true with the program
  counter at the (relocated) vector of that level, the interrupted program counter and PS saved
  in EPC and EPS of the level, the current interrupt level raised to at least the level taken,
  and only strictly higher levels pending. So a handler is never re-entered at its own level,
  NMIs included.
\<close>

theorem high_interrupt_delivered:
  assumes "irq_config_ok (config env)" "env = check_interrupts env0"
    and "l = pending_irq_level env" "1 < l"
  shows "\<exists>env'. xtensa_cpu_exec_interrupt env CPU_INTERRUPT_HARD = Ret True env' \<and>
    env_pc env' = relocated_vector env (interrupt_vector (config env) l) \<and>
    sregs env' (EPC1 + l - 1) = env_pc env \<and> sregs env' (EPS2 + l - 2) = sregs env PS \<and>
    int l \<le> xtensa_get_cintlevel env' \<and> (pending_irq_level env' = 0 \<or> l < pending_irq_level env')"
  by (rule exec_interrupt_high [OF assms]) blast

theorem high_interrupt_delivered_witness:
  "\<exists>env'. xtensa_cpu_exec_interrupt (check_interrupts (irq_example 0x80080)) CPU_INTERRUPT_HARD = Ret True env' \<and>
    env_pc env' = 0x40374180 \<and> sregs env' 178 = 0x42000000 \<and> 2 \<le> xtensa_get_cintlevel env'"
proof -
  let ?e = "check_interrupts (irq_example 0x80080)"
  have p: "2 = pending_irq_level ?e"
    by (simp add: irq_example_pending esp32s3_level_mask_def)
  have v: "relocated_vector ?e (interrupt_vector (config ?e) 2) = 0x40374180"
    by (simp add: frame_simps relocated_vector_def option_enabled_bit config_simps esp32s3_interrupt_vector_def)
  have c: "irq_config_ok (config ?e)" "env_pc ?e = 0x42000000" by (simp_all add: frame_simps)
  show ?thesis
    using high_interrupt_delivered [OF c(1) refl p] unfolding v c(2) by auto
qed

text \<open>
  C10. A pending level-1 interrupt becomes an exception with cause \<^verbatim>\<open>LEVEL1_INTERRUPT\<close>: the
  kernel or user exception by PS.UM, the double exception when EXCM is already set. The
  interrupted program counter goes to EPC1 (to DEPC for a double exception on cores that have
  it), execution continues at the vector of that exception, and no level-1 interrupt is pending
  afterwards.
\<close>

theorem level1_interrupt_delivered:
  assumes "irq_config_ok (config env)" "env = check_interrupts env0"
    and "pending_irq_level env = 1" "nmi_level (config env) \<noteq> 1"
  shows "\<exists>env' x. xtensa_cpu_exec_interrupt env CPU_INTERRUPT_HARD = Ret True env' \<and>
    x = (if sregs env PS AND PS_EXCM \<noteq> 0 then EXC_DOUBLE
         else if sregs env PS AND PS_UM \<noteq> 0 then EXC_USER else EXC_KERNEL) \<and>
    env_pc env' = (if exception_vector (config env) x \<noteq> 0
      then relocated_vector env (exception_vector (config env) x) else env_pc env) \<and>
    sregs env' (if sregs env PS AND PS_EXCM \<noteq> 0 \<and> ndepc (config env) \<noteq> 0 then DEPC else EPC1) = env_pc env \<and>
    sregs env' EXCCAUSE = LEVEL1_INTERRUPT_CAUSE \<and>
    1 \<le> xtensa_get_cintlevel env' \<and> (pending_irq_level env' = 0 \<or> 1 < pending_irq_level env')"
proof (rule exec_interrupt_level1 [OF assms])
qed blast

theorem level1_interrupt_delivered_witness:
  "\<exists>env'. xtensa_cpu_exec_interrupt (check_interrupts (irq_example 0x80)) CPU_INTERRUPT_HARD = Ret True env' \<and>
    env_pc env' = 0x40374300 \<and> sregs env' EPC1 = 0x42000000 \<and> sregs env' EXCCAUSE = 4"
proof -
  let ?e = "check_interrupts (irq_example 0x80)"
  have p: "pending_irq_level ?e = 1"
    by (simp add: irq_example_pending esp32s3_level_mask_def)
  have v: "exception_vector (config ?e) EXC_KERNEL = 0x40000300" "relocated_vector ?e 0x40000300 = 0x40374300"
    by (simp_all add: frame_simps relocated_vector_def option_enabled_bit config_simps esp32s3_exception_vector_def)
  have c: "irq_config_ok (config ?e)" "nmi_level (config ?e) \<noteq> 1" "env_pc ?e = 0x42000000" "sregs ?e PS = 0"
    by (simp_all add: frame_simps config_simps)
  show ?thesis
    using level1_interrupt_delivered [OF c(1) refl p c(2)] v c(3,4) by auto
qed

text \<open>
  C17. \<^verbatim>\<open>waiti\<close> loses no wake-up: it always leaves through the execution loop with the given
  program counter, and it halts the CPU exactly when, at the level it has just written to PS,
  no set and enabled interrupt is above the current level; otherwise that interrupt is pending
  and the CPU is not halted.
\<close>

theorem waiti_no_lost_wakeup:
  assumes "1 \<le> nmi_level (config env)" "\<not> halted env"
  shows "\<exists>env'. waiti env pc intlevel = LoopExit env' \<and> env_pc env' = pc \<and>
    sregs env' PS = (sregs env PS AND NOT PS_INTLEVEL) OR intlevel \<and>
    halted env' = (\<forall>l. \<not> (irq_minlevel env' < int l \<and> l \<le> nlevel (config env) \<and>
                       level_mask (config env) l AND int_set_enabled env' \<noteq> 0)) \<and>
    (if halted env' then exception_index env' = EXCP_HLT else 0 < pending_irq_level env')"
proof -
  define e where "e = set_sreg PS ((sregs env PS AND NOT PS_INTLEVEL) OR intlevel) (env\<lparr>env_pc := pc\<rparr>)"
  define c where "c = check_interrupts e"
  have same: "irq_minlevel c = irq_minlevel e" "int_set_enabled c = int_set_enabled e"
    by (simp_all add: c_def frame_simps)
  let ?P = "\<lambda>l. irq_minlevel e < int l \<and> l \<le> nlevel (config env) \<and> level_mask (config env) l AND int_set_enabled e \<noteq> 0"
  have cfg: "config e = config env" "\<not> halted e" using assms(2) by (simp_all add: e_def)
  have pos: "?P l \<Longrightarrow> 0 < l" for l
    using cintlevel_nonneg [of e] assms(1) by (auto simp: irq_minlevel_def Let_def cfg split: if_splits)
  show ?thesis
  proof (cases "\<exists>l. ?P l")
    case True
    then have "pending_irq_level c \<in> {l. ?P l}"
      using Max_in [of "{l. ?P l}"] finite_subset [of "{l. ?P l}" "{..nlevel (config env)}"]
      by (auto simp: c_def check_interrupts_def find_level_Max Let_def call_def cfg)
    then have p: "0 < pending_irq_level c" using pos by blast
    then have "waiti env pc intlevel = LoopExit c"
      by (simp add: waiti_def Let_def e_def c_def)
    with p True same cfg show ?thesis
      by (intro exI [of _ c]) (auto simp: c_def frame_simps, simp_all add: e_def)
  next
    case False
    then have p: "pending_irq_level c = 0"
      by (simp add: c_def check_interrupts_def find_level_Max Let_def call_def cfg)
    define h where "h = c\<lparr>halted := True, exception_index := EXCP_HLT\<rparr>"
    have "waiti env pc intlevel = LoopExit h"
      using p by (simp add: waiti_def Let_def e_def c_def h_def exception_def)
    moreover have "irq_minlevel h = irq_minlevel e" "int_set_enabled h = int_set_enabled e"
      using irq_minlevel_cong [of h c] int_set_enabled_cong [of h c] same by (simp_all add: h_def)
    moreover have "config h = config env" "halted h" "exception_index h = EXCP_HLT" "env_pc h = pc"
      "sregs h PS = (sregs env PS AND NOT PS_INTLEVEL) OR intlevel"
      by (simp_all add: h_def c_def frame_simps e_def)
    ultimately show ?thesis using False by (intro exI [of _ h]) auto
  qed
qed

theorem waiti_no_lost_wakeup_witness:
  "\<exists>env'. waiti (new_cpu esp32s3_config) 0x40000000 2 = LoopExit env' \<and> env_pc env' = 0x40000000"
  using waiti_no_lost_wakeup [of "new_cpu esp32s3_config" "0x40000000" 2] by (auto simp: config_simps)

text \<open>
  Raising an exception with a cause: the helper never returns normally; it records the
  cause, sets PS.EXCM and no other bit of PS, saves the program counter in EPC1, or in DEPC for
  an exception taken while EXCM was set on a core that has it, selects the user, kernel or
  double vector, and changes no other special register.
\<close>

theorem exception_cause_state:
  "\<exists>env'. exception_cause env pc cause = LoopExit env' \<and> env_pc env' = pc \<and>
    sregs env' = (sregs env)
      ((if sregs env PS AND PS_EXCM \<noteq> 0 \<and> ndepc (config env) \<noteq> 0 then DEPC else EPC1) := pc,
       EXCCAUSE := cause, PS := sregs env PS OR PS_EXCM) \<and>
    exception_index env' =
      (if sregs env PS AND PS_EXCM \<noteq> 0 then EXC_DOUBLE
       else if sregs env PS AND PS_UM \<noteq> 0 then EXC_USER else EXC_KERNEL) \<and>
    regs env' = regs env \<and> phys_regs env' = phys_regs env \<and> config env' = config env"
  by (auto simp: exception_cause_def exception_def Let_def set_sreg_def)

end
