(* ===== verification/Win_Helper.thy ===== *)
theory Win_Helper
  imports Exc_Helper
begin

text \<open>
  The windowed register file, \<^verbatim>\<open>target/xtensa/win_helper.c\<close>. The 16 visible registers
  are a copy of a window of the physical file; moving the window writes the copy back, moves
  \<^verbatim>\<open>WINDOW_BASE\<close> and copies the new window out. The abstract register file
  \<^verbatim>\<open>ar_file\<close> is what the pair of arrays denotes, and the operations are shown to keep
  it; the locale \<^verbatim>\<open>register_window\<close> states that contract and derives what callers rely on.
\<close>

section \<open>Operations\<close>

text \<open>\<^verbatim>\<open>memcpy\<close> of \<open>n\<close> words from \<open>src + s\<close> to \<open>dst + d\<close>.\<close>

definition memcpy_words :: "(nat \<Rightarrow> u32) \<Rightarrow> nat \<Rightarrow> (nat \<Rightarrow> u32) \<Rightarrow> nat \<Rightarrow> nat \<Rightarrow> nat \<Rightarrow> u32" where
  "memcpy_words dst d src s n = (\<lambda>k. if d \<le> k \<and> k < d + n then src (s + (k - d)) else dst k)"

definition copy_window_from_phys :: "env \<Rightarrow> nat \<Rightarrow> nat \<Rightarrow> nat \<Rightarrow> (env, unit) outcome" where
  "copy_window_from_phys env window phys n =
     (if phys < nareg (config env) then
        if phys + n \<le> nareg (config env) then
          Ret () (env\<lparr>regs := memcpy_words (regs env) window (phys_regs env) phys n\<rparr>)
        else
          let n1 = nareg (config env) - phys;
              env = env\<lparr>regs := memcpy_words (regs env) window (phys_regs env) phys n1\<rparr>
          in Ret () (env\<lparr>regs := memcpy_words (regs env) (window + n1) (phys_regs env) 0 (n - n1)\<rparr>)
      else AssertFail)"

definition copy_phys_from_window :: "env \<Rightarrow> nat \<Rightarrow> nat \<Rightarrow> nat \<Rightarrow> (env, unit) outcome" where
  "copy_phys_from_window env phys window n =
     (if phys < nareg (config env) then
        if phys + n \<le> nareg (config env) then
          Ret () (env\<lparr>phys_regs := memcpy_words (phys_regs env) phys (regs env) window n\<rparr>)
        else
          let n1 = nareg (config env) - phys;
              env = env\<lparr>phys_regs := memcpy_words (phys_regs env) phys (regs env) window n1\<rparr>
          in Ret () (env\<lparr>phys_regs := memcpy_words (phys_regs env) 0 (regs env) (window + n1) (n - n1)\<rparr>)
      else AssertFail)"

definition windowbase_bound :: "u32 \<Rightarrow> env \<Rightarrow> u32" where
  "windowbase_bound a env = a AND (of_nat (nareg (config env) div 4) - 1)"

definition windowstart_bit :: "u32 \<Rightarrow> env \<Rightarrow> u32" where
  "windowstart_bit a env = push_bit (unat (windowbase_bound a env)) 1"

definition xtensa_sync_window_from_phys :: "env \<Rightarrow> (env, unit) outcome" where
  "xtensa_sync_window_from_phys env =
     copy_window_from_phys env 0 (unat (sregs env WINDOW_BASE * 4)) 16"

definition xtensa_sync_phys_from_window :: "env \<Rightarrow> (env, unit) outcome" where
  "xtensa_sync_phys_from_window env =
     copy_phys_from_window env (unat (sregs env WINDOW_BASE * 4)) 0 16"

definition xtensa_rotate_window_abs :: "env \<Rightarrow> u32 \<Rightarrow> (env, unit) outcome" where
  "xtensa_rotate_window_abs env position =
     obind (xtensa_sync_phys_from_window env)
       (\<lambda>_ env. xtensa_sync_window_from_phys (set_sreg WINDOW_BASE (windowbase_bound position env) env))"

definition xtensa_rotate_window :: "env \<Rightarrow> u32 \<Rightarrow> (env, unit) outcome" where
  "xtensa_rotate_window env delta = xtensa_rotate_window_abs env (sregs env WINDOW_BASE + delta)"

definition helper_sync_windowbase :: "env \<Rightarrow> (env, unit) outcome" where
  "helper_sync_windowbase env = xtensa_rotate_window_abs env (windowbase_next env)"

definition helper_entry :: "env \<Rightarrow> u32 \<Rightarrow> nat \<Rightarrow> u32 \<Rightarrow> env" where
  "helper_entry env pc s imm =
     (let callinc = drop_bit PS_CALLINC_SHIFT (sregs env PS AND PS_CALLINC);
          env = env\<lparr>regs := (regs env)(push_bit 2 (unat callinc) OR (s AND 3) := regs env s - imm)\<rparr>;
          env = env\<lparr>windowbase_next := sregs env WINDOW_BASE + callinc\<rparr>
      in set_sreg WINDOW_START (sregs env WINDOW_START OR windowstart_bit (windowbase_next env) env) env)"

definition helper_window_check :: "env \<Rightarrow> u32 \<Rightarrow> nat \<Rightarrow> (env, unit) outcome" where
  "helper_window_check env pc w =
     (let windowbase = windowbase_bound (sregs env WINDOW_BASE) env;
          windowstart = drop_bit (unat (sregs env WINDOW_BASE + 1)) (xtensa_replicate_windowstart env);
          n = ctz32 windowstart + 1
      in if n \<le> w then
           obind (xtensa_rotate_window env (of_nat n))
             (\<lambda>_ env.
                let env = set_sreg PS ((sregs env PS AND NOT PS_OWB) OR push_bit PS_OWB_SHIFT windowbase OR PS_EXCM) env;
                    env = set_sreg EPC1 pc (env\<lparr>env_pc := pc\<rparr>)
                in case ctz32 (drop_bit n windowstart) of
                     0 \<Rightarrow> exception env EXC_WINDOW_OVERFLOW4
                   | Suc 0 \<Rightarrow> exception env EXC_WINDOW_OVERFLOW8
                   | _ \<Rightarrow> exception env EXC_WINDOW_OVERFLOW12)
         else AssertFail)"

definition helper_test_ill_retw :: "env \<Rightarrow> u32 \<Rightarrow> (env, unit) outcome" where
  "helper_test_ill_retw env pc =
     (let n = unat (drop_bit 30 (regs env 0) AND 3);
          windowbase = windowbase_bound (sregs env WINDOW_BASE) env;
          windowstart = sregs env WINDOW_START;
          m = (if windowstart AND windowstart_bit (windowbase - 1) env \<noteq> 0 then 1
               else if windowstart AND windowstart_bit (windowbase - 2) env \<noteq> 0 then 2
               else if windowstart AND windowstart_bit (windowbase - 3) env \<noteq> 0 then 3 else 0 :: nat)
      in if n = 0 \<or> (m \<noteq> 0 \<and> m \<noteq> n) then exception_cause env pc ILLEGAL_INSTRUCTION_CAUSE
         else Ret () env)"

definition helper_test_underflow_retw :: "env \<Rightarrow> u32 \<Rightarrow> (env, unit) outcome" where
  "helper_test_underflow_retw env pc =
     (let n = drop_bit 30 (regs env 0) AND 3 in
      if sregs env WINDOW_START AND windowstart_bit (sregs env WINDOW_BASE - n) env = 0 then
        let windowbase = windowbase_bound (sregs env WINDOW_BASE) env in
        obind (xtensa_rotate_window env (- n))
          (\<lambda>_ env.
             let env = set_sreg PS ((sregs env PS AND NOT PS_OWB) OR push_bit PS_OWB_SHIFT windowbase OR PS_EXCM) env;
                 env = set_sreg EPC1 pc (env\<lparr>env_pc := pc\<rparr>)
             in if n = 1 then exception env EXC_WINDOW_UNDERFLOW4
                else if n = 2 then exception env EXC_WINDOW_UNDERFLOW8
                else if n = 3 then exception env EXC_WINDOW_UNDERFLOW12
                else Ret () env)
      else Ret () env)"

definition helper_retw :: "env \<Rightarrow> u32 \<Rightarrow> (env, unit) outcome" where
  "helper_retw env a0 = (let n = drop_bit 30 a0 AND 3 in xtensa_rotate_window env (- n))"

definition xtensa_restore_owb :: "env \<Rightarrow> (env, unit) outcome" where
  "xtensa_restore_owb env =
     xtensa_rotate_window_abs env (drop_bit PS_OWB_SHIFT (sregs env PS AND PS_OWB))"

definition helper_movsp :: "env \<Rightarrow> u32 \<Rightarrow> (env, unit) outcome" where
  "helper_movsp env pc =
     (if sregs env WINDOW_START AND
           (windowstart_bit (sregs env WINDOW_BASE - 3) env OR
            windowstart_bit (sregs env WINDOW_BASE - 2) env OR
            windowstart_bit (sregs env WINDOW_BASE - 1) env) = 0
      then exception_cause env pc ALLOCA_CAUSE else Ret () env)"

section \<open>The register file the two arrays denote\<close>

text \<open>
  A windowed core has 32 or 64 physical registers (\<^verbatim>\<open>nareg\<close>), and \<^verbatim>\<open>WINDOW_BASE\<close>
  counts in units of four registers.
\<close>

definition win_ok :: "env \<Rightarrow> bool" where
  "win_ok env \<longleftrightarrow> (nareg (config env) = 32 \<or> nareg (config env) = 64) \<and>
     unat (sregs env WINDOW_BASE) < nareg (config env) div 4"

definition win_base :: "env \<Rightarrow> nat" where
  "win_base env = unat (sregs env WINDOW_BASE)"

text \<open>
  Register \<open>k\<close> of the file: from the visible copy inside the window, from the array outside.
  \<open>slot n p k\<close> is the place of \<open>k\<close> relative to position \<open>p\<close> in a ring of \<open>n\<close>.
\<close>

definition slot :: "nat \<Rightarrow> nat \<Rightarrow> nat \<Rightarrow> nat" where
  "slot n p k = (if p \<le> k then k - p else k + n - p)"

definition ar_file :: "env \<Rightarrow> nat \<Rightarrow> u32" where
  "ar_file env k =
     (let n = nareg (config env); k = k mod n; i = slot n (4 * win_base env) k
      in if i < 16 then regs env i else phys_regs env k)"

text \<open>The state after moving the window to \<open>position\<close>.\<close>

definition moved :: "env \<Rightarrow> u32 \<Rightarrow> env" where
  "moved env position =
     (let n = nareg (config env); base = windowbase_bound position env in
      env\<lparr>phys_regs := (\<lambda>k. if k < n then ar_file env k else phys_regs env k),
          sregs := (sregs env)(WINDOW_BASE := base),
          regs := (\<lambda>i. if i < 16 then ar_file env ((4 * unat base + i) mod n) else regs env i)\<rparr>)"

section \<open>The copies\<close>

lemma slot_mod: "p < n \<Longrightarrow> i < n \<Longrightarrow> slot n p ((p + i) mod n) = i"
  by (auto simp: slot_def mod_if)

lemma copy_phys_spec:
  assumes "p < nareg (config env)" "16 \<le> nareg (config env)"
  shows "copy_phys_from_window env p 0 16 = Ret () (env\<lparr>phys_regs :=
    (\<lambda>k. if k < nareg (config env) \<and> slot (nareg (config env)) p k < 16
         then regs env (slot (nareg (config env)) p k) else phys_regs env k)\<rparr>)"
proof (cases "p + 16 \<le> nareg (config env)")
  case True
  have "memcpy_words (phys_regs env) p (regs env) 0 16 =
    (\<lambda>k. if k < nareg (config env) \<and> slot (nareg (config env)) p k < 16
         then regs env (slot (nareg (config env)) p k) else phys_regs env k)"
    using True assms by (auto simp: memcpy_words_def slot_def fun_eq_iff)
  with True assms show ?thesis by (simp add: copy_phys_from_window_def)
next
  case False
  have "memcpy_words (memcpy_words (phys_regs env) p (regs env) 0 (nareg (config env) - p)) 0 (regs env)
      (nareg (config env) - p) (16 - (nareg (config env) - p)) =
    (\<lambda>k. if k < nareg (config env) \<and> slot (nareg (config env)) p k < 16
         then regs env (slot (nareg (config env)) p k) else phys_regs env k)" (is "?l = ?r")
  proof
    fix k
    have "nareg (config env) - p + k = k + nareg (config env) - p" using assms by simp
    then show "?l k = ?r k"
      using False assms by (auto simp: memcpy_words_def slot_def)
  qed
  with False assms show ?thesis by (simp add: copy_phys_from_window_def Let_def)
qed

lemma copy_window_spec:
  assumes "p < nareg (config env)" "16 \<le> nareg (config env)"
  shows "copy_window_from_phys env 0 p 16 = Ret () (env\<lparr>regs :=
    (\<lambda>i. if i < 16 then phys_regs env ((p + i) mod nareg (config env)) else regs env i)\<rparr>)"
proof (cases "p + 16 \<le> nareg (config env)")
  case True
  then show ?thesis
    using assms by (auto simp: copy_window_from_phys_def memcpy_words_def fun_eq_iff)
next
  case False
  have "memcpy_words (memcpy_words (regs env) 0 (phys_regs env) p (nareg (config env) - p))
      (nareg (config env) - p) (phys_regs env) 0 (16 - (nareg (config env) - p)) =
    (\<lambda>i. if i < 16 then phys_regs env ((p + i) mod nareg (config env)) else regs env i)" (is "?l = ?r")
  proof
    fix i
    have "(p + i) mod nareg (config env) = i - (nareg (config env) - p)"
      if "nareg (config env) - p \<le> i" "i < 16"
      using that assms by (simp add: le_mod_geq)
    then show "?l i = ?r i"
      using False assms by (auto simp: memcpy_words_def not_less)
  qed
  with False assms show ?thesis by (simp add: copy_window_from_phys_def Let_def)
qed

lemma win_ok_bounds:
  assumes "win_ok env"
  shows "16 \<le> nareg (config env)" "4 * win_base env < nareg (config env)"
    "unat (sregs env WINDOW_BASE * 4) = 4 * win_base env"
proof -
  show "16 \<le> nareg (config env)" "4 * win_base env < nareg (config env)"
    using assms by (auto simp: win_ok_def win_base_def)
  then show "unat (sregs env WINDOW_BASE * 4) = 4 * win_base env"
    using assms by (simp add: win_base_def win_ok_def unat_word_ariths) auto
qed

lemma windowbase_bound_mod:
  assumes "win_ok env"
  shows "unat (windowbase_bound a env) = unat a mod (nareg (config env) div 4)"
proof -
  have "(of_nat (nareg (config env) div 4) - 1 :: u32) = mask (if nareg (config env) = 32 then 3 else 4)"
    using assms by (auto simp: win_ok_def mask_eq_exp_minus_1)
  then show ?thesis
    using assms unfolding windowbase_bound_def by (auto simp: unat_and_mask win_ok_def)
qed

lemma rotate_abs_moved:
  assumes "win_ok env"
  shows "xtensa_rotate_window_abs env position = Ret () (moved env position)"
proof -
  note b = win_ok_bounds [OF assms]
  define n where "n = nareg (config env)"
  define P where "P = (\<lambda>k. if k < n then ar_file env k else phys_regs env k)"
  have P: "P = (\<lambda>k. if k < n \<and> slot n (4 * win_base env) k < 16
      then regs env (slot n (4 * win_base env) k) else phys_regs env k)"
    by (auto simp: P_def ar_file_def Let_def fun_eq_iff n_def)
  have s1: "xtensa_sync_phys_from_window env = Ret () (env\<lparr>phys_regs := P\<rparr>)"
    unfolding xtensa_sync_phys_from_window_def b(3) P n_def using b by (subst copy_phys_spec) simp_all
  define base where "base = windowbase_bound position env"
  have base: "unat base < n div 4" "n = 32 \<or> n = 64"
    using assms windowbase_bound_mod [OF assms, of position] by (auto simp: base_def n_def win_ok_def)
  then have b4: "unat (base * 4) = 4 * unat base" "4 * unat base < n" "16 \<le> n"
    by (auto simp: unat_word_ariths)
  define e where "e = set_sreg WINDOW_BASE base (env\<lparr>phys_regs := P\<rparr>)"
  have "xtensa_sync_window_from_phys e = Ret () (e\<lparr>regs :=
      (\<lambda>i. if i < 16 then P ((4 * unat base + i) mod n) else regs env i)\<rparr>)"
  proof -
    have e: "sregs e WINDOW_BASE = base" "config e = config env" "phys_regs e = P" "regs e = regs env"
      by (simp_all add: e_def)
    have "copy_window_from_phys e 0 (4 * unat base) 16 = Ret () (e\<lparr>regs :=
        (\<lambda>i. if i < 16 then phys_regs e ((4 * unat base + i) mod nareg (config e)) else regs e i)\<rparr>)"
      using b4 by (intro copy_window_spec) (simp_all add: e n_def)
    then show ?thesis
      unfolding xtensa_sync_window_from_phys_def e b4(1) n_def .
  qed
  moreover have "(\<lambda>i. if i < 16 then P ((4 * unat base + i) mod n) else regs env i) =
      (\<lambda>i. if i < 16 then ar_file env ((4 * unat base + i) mod n) else regs env i)"
    using b4 by (simp add: P_def fun_eq_iff)
  ultimately have s2: "xtensa_sync_window_from_phys e = Ret () (moved env position)"
    by (simp add: moved_def Let_def e_def set_sreg_def base_def [symmetric] n_def [symmetric] P_def [symmetric])
  have "windowbase_bound position (env\<lparr>phys_regs := P\<rparr>) = base"
    by (simp add: base_def windowbase_bound_def)
  then show ?thesis
    using s1 s2 by (simp add: xtensa_rotate_window_abs_def e_def)
qed

section \<open>Moving keeps the file\<close>

lemma moved_simps [simp]:
  "config (moved env position) = config env"
  "sregs (moved env position) = (sregs env)(WINDOW_BASE := windowbase_bound position env)"
  "env_pc (moved env position) = env_pc env"
  "windowbase_next (moved env position) = windowbase_next env"
  by (simp_all add: moved_def Let_def)

lemma moved_ok: "win_ok env \<Longrightarrow> win_ok (moved env position)"
  using windowbase_bound_mod [of env position] by (auto simp: win_ok_def)

lemma moved_base: "win_ok env \<Longrightarrow> win_base (moved env position) = unat position mod (nareg (config env) div 4)"
  by (simp add: win_base_def windowbase_bound_mod)

lemma moved_file:
  assumes "win_ok env"
  shows "ar_file (moved env position) = ar_file env"
proof
  fix k
  define n where "n = nareg (config env)"
  define base where "base = unat (windowbase_bound position env)"
  have n: "0 < n" "4 * base < n" using win_ok_bounds [OF moved_ok [OF assms], of position]
    by (simp_all add: n_def base_def win_base_def)
  have wrap: "(4 * base + slot n (4 * base) (k mod n)) mod n = k mod n"
    using n by (auto simp: slot_def mod_if [of "_ + _"])
  have "ar_file env (k mod n) = ar_file env k" by (simp add: ar_file_def n_def Let_def)
  moreover have "win_base (moved env position) = base"
    "\<And>i. i < 16 \<Longrightarrow> regs (moved env position) i = ar_file env ((4 * base + i) mod n)"
    "\<And>k. k < n \<Longrightarrow> phys_regs (moved env position) k = ar_file env k"
    by (simp_all add: win_base_def base_def) (simp_all add: moved_def Let_def base_def n_def)
  ultimately show "ar_file (moved env position) k = ar_file env k"
    using wrap n by (subst ar_file_def) (simp add: Let_def n_def [symmetric])
qed

lemma window_view:
  assumes "win_ok env" "i < 16"
  shows "regs env i = ar_file env ((4 * win_base env + i) mod nareg (config env))"
  using slot_mod [of "4 * win_base env" "nareg (config env)" i] win_ok_bounds [OF assms(1)] assms(2)
  by (simp add: ar_file_def Let_def)

section \<open>The contract of a windowed register file\<close>

text \<open>
  \<open>view\<close> shows 16 registers of \<open>contents\<close>, starting at four times \<open>base\<close>, in a ring of
  \<open>size\<close> registers; \<open>move\<close> changes the base and keeps them.
\<close>

locale register_window =
  fixes inv :: "'s \<Rightarrow> bool" and size :: "'s \<Rightarrow> nat" and base :: "'s \<Rightarrow> nat"
    and contents :: "'s \<Rightarrow> nat \<Rightarrow> 'v" and view :: "'s \<Rightarrow> nat \<Rightarrow> 'v" and move :: "'s \<Rightarrow> nat \<Rightarrow> 's"
  assumes size_4: "inv s \<Longrightarrow> size s = 4 * (size s div 4)"
    and base_less: "inv s \<Longrightarrow> base s < size s div 4"
    and view_file: "inv s \<Longrightarrow> i < 16 \<Longrightarrow> view s i = contents s ((4 * base s + i) mod size s)"
    and move_inv: "inv s \<Longrightarrow> inv (move s p)"
    and move_size: "inv s \<Longrightarrow> size (move s p) = size s"
    and move_file: "inv s \<Longrightarrow> contents (move s p) = contents s"
    and move_base: "inv s \<Longrightarrow> base (move s p) = p mod (size s div 4)"
begin

lemma ring: "inv s \<Longrightarrow> (4 * (p mod (size s div 4)) + i) mod size s = (4 * p + i) mod size s"
  using size_4 [of s] by (metis mod_add_left_eq mult_mod_right)

lemma move_view: "inv s \<Longrightarrow> i < 16 \<Longrightarrow> view (move s p) i = contents s ((4 * p + i) mod size s)"
  by (simp add: view_file move_inv move_file move_base move_size ring)

text \<open>Moving by \<open>d\<close> renames the registers: register \<open>4 d + i\<close> becomes register \<open>i\<close>.\<close>

lemma overlap: "inv s \<Longrightarrow> 4 * d + i < 16 \<Longrightarrow> view (move s (base s + d)) i = view s (4 * d + i)"
  by (simp add: move_view view_file algebra_simps)

lemma there_and_back: "inv s \<Longrightarrow> i < 16 \<Longrightarrow> view (move (move s p) (base s)) i = view s i"
  by (simp add: move_view [OF move_inv] move_file move_size view_file)

lemma base_back: "inv s \<Longrightarrow> base (move (move s p) (base s)) = base s"
  by (simp add: move_base move_inv move_size base_less)

end

lemma nareg_quarter: "win_ok env \<Longrightarrow> nareg (config env) div 4 = 8 \<or> nareg (config env) div 4 = 16"
  by (auto simp: win_ok_def)

lemma unat_mod_quarter:
  "win_ok env \<Longrightarrow> unat (of_nat p :: u32) mod (nareg (config env) div 4) = p mod (nareg (config env) div 4)"
  using nareg_quarter [of env] by (auto simp: unat_of_nat mod_mod_cancel)

interpretation win: register_window win_ok "\<lambda>env. nareg (config env)" win_base ar_file regs
  "\<lambda>env p. moved env (of_nat p)"
proof
  fix s :: env and i p :: nat
  assume ok: "win_ok s"
  then show "nareg (config s) = 4 * (nareg (config s) div 4)" "win_base s < nareg (config s) div 4"
    by (auto simp: win_ok_def win_base_def)
  show "win_ok (moved s (of_nat p))" by (rule moved_ok [OF ok])
  show "nareg (config (moved s (of_nat p))) = nareg (config s)" by simp
  show "ar_file (moved s (of_nat p)) = ar_file s" by (rule moved_file [OF ok])
  show "win_base (moved s (of_nat p)) = p mod (nareg (config s) div 4)"
    by (simp add: moved_base ok unat_mod_quarter)
  show "regs s i = ar_file s ((4 * win_base s + i) mod nareg (config s))" if "i < 16"
    by (rule window_view [OF ok that])
qed

lemma moved_of_nat: "moved env position = moved env (of_nat (unat position))"
  by simp

lemma rotate_moved:
  assumes "win_ok env"
  shows "xtensa_rotate_window env delta = Ret () (moved env (of_nat (win_base env + unat delta)))"
proof -
  have "sregs env WINDOW_BASE + delta = of_nat (win_base env + unat delta)"
    by (simp add: win_base_def)
  then show ?thesis by (simp add: xtensa_rotate_window_def rotate_abs_moved [OF assms])
qed

text \<open>The saved window base in PS.OWB.\<close>

lemma owb_field:
  assumes "unat w < 16"
  shows "drop_bit PS_OWB_SHIFT (((ps AND NOT PS_OWB) OR push_bit PS_OWB_SHIFT w OR PS_EXCM) AND PS_OWB) = w"
proof -
  have "take_bit 4 w = w" using assms by (simp add: word_unat_eq_iff unat_take_bit)
  then have lt: "bit w n \<Longrightarrow> n < 4" for n by (metis bit_take_bit_iff)
  show ?thesis
    by (intro bit_word_eqI) (auto simp: bit_simps bit_ps_masks dest: lt)
qed

lemma win_ok_cong:
  "config e1 = config e2 \<Longrightarrow> sregs e1 WINDOW_BASE = sregs e2 WINDOW_BASE \<Longrightarrow> win_ok e1 = win_ok e2"
  by (simp add: win_ok_def)

lemma ar_file_cong:
  "config e1 = config e2 \<Longrightarrow> sregs e1 WINDOW_BASE = sregs e2 WINDOW_BASE \<Longrightarrow> regs e1 = regs e2 \<Longrightarrow>
   phys_regs e1 = phys_regs e2 \<Longrightarrow> ar_file e1 = ar_file e2"
  by (simp add: ar_file_def win_base_def Let_def fun_eq_iff)

section \<open>Calls\<close>

text \<open>Registers outside the visible window are not affected by writes to the visible ones.\<close>

lemma ar_file_outside:
  assumes "win_ok env" "16 \<le> slot (nareg (config env)) (4 * win_base env) (k mod nareg (config env))"
  shows "ar_file (env\<lparr>regs := f\<rparr>) k = ar_file env k"
  using assms by (simp add: ar_file_def win_base_def Let_def)

lemma slot_behind:
  fixes b d i m :: nat
  assumes "b < m" "i < 4 * d" "4 * d + 16 \<le> 4 * m"
  shows "16 \<le> slot (4 * m) (4 * ((b + d) mod m)) ((4 * b + i) mod (4 * m))"
proof (cases "b + d < m")
  case True
  then have "(b + d) mod m = b + d" "(4 * b + i) mod (4 * m) = 4 * b + i" using assms by simp_all
  then show ?thesis using assms by (simp add: slot_def)
next
  case False
  then have e: "(b + d) mod m = b + d - m" using assms by (simp add: le_mod_geq)
  show ?thesis
  proof (cases "4 * b + i < 4 * m")
    case True
    obtain q where "b + d = m + q" using False by (metis le_Suc_ex not_less)
    then show ?thesis using assms True unfolding e by (auto simp: slot_def)
  next
    case ge: False
    then have "(4 * b + i) mod (4 * m) = 4 * b + i - 4 * m" using assms by (simp add: le_mod_geq)
    moreover obtain q where "b + d = m + q" using False by (metis le_Suc_ex not_less)
    ultimately show ?thesis using assms ge unfolding e by (auto simp: slot_def)
  qed
qed

lemma callinc_less: "unat (drop_bit PS_CALLINC_SHIFT (ps AND PS_CALLINC)) < 4"
proof -
  have "drop_bit PS_CALLINC_SHIFT (ps AND PS_CALLINC) = drop_bit PS_CALLINC_SHIFT ps AND mask 2"
    by (rule bit_word_eqI) (auto simp: bit_simps bit_ps_masks)
  then show ?thesis by (simp add: unat_and_mask)
qed

lemma s_and_3: "s AND 3 = s mod 4" for s :: nat
proof -
  have "s AND 3 = take_bit 2 s" by (simp add: take_bit_eq_mask mask_eq_exp_minus_1)
  then show ?thesis by (simp add: take_bit_eq_mod)
qed

lemma entry_state:
  assumes "n = unat (drop_bit PS_CALLINC_SHIFT (sregs env PS AND PS_CALLINC))"
    and "e = helper_entry env pc s imm"
  shows "config e = config env" "sregs e WINDOW_BASE = sregs env WINDOW_BASE"
    "windowbase_next e = of_nat (win_base env + n)"
    "regs e = (regs env)(4 * n + s mod 4 := regs env s - imm)" "phys_regs e = phys_regs env"
proof -
  have i: "push_bit 2 n OR (s AND 3) = 4 * n + s mod 4"
  proof -
    have "push_bit 2 n AND take_bit 2 s = 0" by (rule bit_eqI) (auto simp: bit_simps)
    then have "push_bit 2 n OR take_bit 2 s = push_bit 2 n + take_bit 2 s" by (simp add: disjunctive_add_eq_or)
    then show ?thesis by (simp add: s_and_3 push_bit_eq_mult take_bit_eq_mod)
  qed
  show "config e = config env" "sregs e WINDOW_BASE = sregs env WINDOW_BASE" "phys_regs e = phys_regs env"
    by (simp_all add: assms(2) helper_entry_def Let_def)
  show "windowbase_next e = of_nat (win_base env + n)"
    by (simp add: assms helper_entry_def Let_def win_base_def)
  show "regs e = (regs env)(4 * n + s mod 4 := regs env s - imm)"
    unfolding assms(2) helper_entry_def Let_def assms(1) [symmetric] i by simp
qed

lemma unat_diff_mod:
  assumes "m = 8 \<or> m = 16"
  shows "unat (x - y :: u32) mod m = nat ((int (unat x) - int (unat y)) mod int m)"
proof -
  have "int (unat (x - y) mod m) = (uint x - uint y) mod 2 ^ 32 mod int m"
    by (simp add: zmod_int uint_word_ariths)
  also have "\<dots> = (uint x - uint y) mod int m"
    using assms by (auto simp: mod_mod_cancel)
  finally show ?thesis by simp
qed

text \<open>Returning from a window that is \<open>n\<close> quads ahead.\<close>

lemma return_base:
  assumes "win_ok env" "sregs env WINDOW_BASE = of_nat ((b + n) mod (nareg (config env) div 4))"
    and "b < nareg (config env) div 4" "unat k = n"
  shows "win_base (moved env (sregs env WINDOW_BASE - k)) = b"
proof -
  define m where "m = nareg (config env) div 4"
  have m: "m = 8 \<or> m = 16" using nareg_quarter [OF assms(1)] by (simp add: m_def)
  have "win_base (moved env (sregs env WINDOW_BASE - k)) = unat (sregs env WINDOW_BASE - k) mod m"
    by (simp add: moved_base assms(1) m_def)
  also have "\<dots> = nat ((int ((b + n) mod m) - int n) mod int m)"
    using m assms(2,4) unat_of_nat [of "(b + n) mod m", where ?'a = 32]
    by (auto simp: unat_diff_mod m_def [symmetric])
  also have "(int ((b + n) mod m) - int n) mod int m = int b mod int m"
    by (simp add: zmod_int mod_diff_left_eq)
  also have "nat (int b mod int m) = b"
    using assms(3) by (simp add: m_def [symmetric])
  finally show ?thesis .
qed

lemma call_return:
  assumes ok: "win_ok env" and n: "n = unat (drop_bit PS_CALLINC_SHIFT (sregs env PS AND PS_CALLINC))"
    and k: "unat (drop_bit 30 a0 AND 3) = n"
    and callee: "callee = moved (helper_entry env pc s imm) (of_nat (win_base env + n))"
  shows "helper_sync_windowbase (helper_entry env pc s imm) = Ret () callee"
    "regs callee (s AND 3) = regs env s - imm"
    "\<exists>r. helper_retw (callee\<lparr>regs := body\<rparr>) a0 = Ret () r \<and>
       win_base r = win_base env \<and> (\<forall>i<4 * n. regs r i = regs env i)"
proof -
  define e where "e = helper_entry env pc s imm"
  note st = entry_state [OF n e_def]
  define m where "m = nareg (config env) div 4"
  have e_ok: "win_ok e" using ok win_ok_cong [of e env] st by simp
  have n4: "n < 4" using n callinc_less by simp
  have be: "win_base e = win_base env" "win_base env < m" "nareg (config env) = 4 * m" "4 * n + 16 \<le> 4 * m"
    using ok n4 by (auto simp: win_base_def st m_def win_ok_def)
  have cal: "callee = moved e (of_nat (win_base e + n))" by (simp add: callee e_def [symmetric] be)
  show "helper_sync_windowbase (helper_entry env pc s imm) = Ret () callee"
    unfolding helper_sync_windowbase_def e_def [symmetric] st(3)
    by (simp add: rotate_abs_moved e_ok cal be)
  have "regs callee (s mod 4) = regs e (4 * n + s mod 4)"
    unfolding cal using n4 e_ok by (intro win.overlap) auto
  then show "regs callee (s AND 3) = regs env s - imm" by (simp add: s_and_3 st)
  define c where "c = callee\<lparr>regs := body\<rparr>"
  have cal_ok: "win_ok callee" unfolding cal by (rule win.move_inv [OF e_ok])
  then have c_ok: "win_ok c" using win_ok_cong [of c callee] by (simp add: c_def)
  have cb: "win_base callee = (win_base env + n) mod m"
    unfolding cal win.move_base [OF e_ok] be(1) st m_def ..
  have cc: "config c = config env" "sregs c WINDOW_BASE = of_nat ((win_base env + n) mod m)"
  proof -
    show "config c = config env" by (simp add: c_def cal st)
    have "sregs c WINDOW_BASE = of_nat (win_base callee)" by (simp add: c_def win_base_def)
    then show "sregs c WINDOW_BASE = of_nat ((win_base env + n) mod m)" by (simp only: cb)
  qed
  define r where "r = moved c (sregs c WINDOW_BASE - (drop_bit 30 a0 AND 3))"
  have ret: "helper_retw c a0 = Ret () r"
    by (simp add: helper_retw_def xtensa_rotate_window_def rotate_abs_moved c_ok r_def)
  have rb: "win_base r = win_base env"
    unfolding r_def using c_ok be(2) cc(2) k by (intro return_base) (simp_all add: cc(1) m_def)
  have "regs r i = regs env i" if i: "i < 4 * n" for i
  proof -
    have "regs r i = ar_file r ((4 * win_base r + i) mod nareg (config r))"
      using i n4 moved_ok [OF c_ok] by (intro window_view) (simp_all add: r_def)
    also have "\<dots> = ar_file c ((4 * win_base env + i) mod (4 * m))"
      unfolding rb using moved_file [OF c_ok] by (simp add: r_def cc(1) be(3))
    also have "\<dots> = ar_file callee ((4 * win_base env + i) mod (4 * m))"
      unfolding c_def
      using slot_behind [OF be(2) i be(4)] cal_ok cc(1)
      by (intro ar_file_outside) (simp_all add: cb be(3) c_def)
    also have "\<dots> = ar_file e ((4 * win_base e + i) mod nareg (config e))"
      by (simp add: cal moved_file e_ok be(1,3) st(1))
    also have "\<dots> = regs e i" using i n4 e_ok by (intro window_view [symmetric]) auto
    also have "\<dots> = regs env i" using i by (simp add: st)
    finally show ?thesis .
  qed
  then show "\<exists>r. helper_retw (callee\<lparr>regs := body\<rparr>) a0 = Ret () r \<and>
       win_base r = win_base env \<and> (\<forall>i<4 * n. regs r i = regs env i)"
    using ret rb by (auto simp: c_def)
qed

section \<open>Overflow and underflow\<close>

text \<open>
  Both window exceptions move the window, save the old base in PS.OWB and set EXCM; the handler's
  return instruction restores the base from there.
\<close>

lemma owb_return:
  assumes ok: "win_ok env"
    and same: "config e = config env" "regs e = regs (moved env position)"
      "phys_regs e = phys_regs (moved env position)" "sregs e WINDOW_BASE = windowbase_bound position env"
    and ps: "sregs e PS = (ps AND NOT PS_OWB) OR push_bit PS_OWB_SHIFT (windowbase_bound (sregs env WINDOW_BASE) env) OR PS_EXCM"
  shows "ar_file e = ar_file env" "win_base e = unat position mod (nareg (config env) div 4)"
    "\<exists>r. xtensa_restore_owb e = Ret () r \<and> win_base r = win_base env \<and> (\<forall>i<16. regs r i = regs env i)"
proof -
  have f: "ar_file e = ar_file (moved env position)" and e_ok: "win_ok e"
    using ar_file_cong [of e "moved env position"] win_ok_cong [of e "moved env position"] moved_ok [OF ok] same
    by simp_all
  then show af: "ar_file e = ar_file env" by (simp add: moved_file ok)
  show "win_base e = unat position mod (nareg (config env) div 4)"
    using windowbase_bound_mod [OF ok] by (simp add: win_base_def same)
  have b: "unat (windowbase_bound (sregs env WINDOW_BASE) env) = win_base env"
    "win_base env < nareg (config env) div 4" "win_base env < 16"
    using ok by (auto simp: windowbase_bound_mod win_ok_def win_base_def)
  have "xtensa_restore_owb e = Ret () (moved e (windowbase_bound (sregs env WINDOW_BASE) env))"
    unfolding xtensa_restore_owb_def ps owb_field [OF b(3) [folded b(1)]] by (rule rotate_abs_moved [OF e_ok])
  moreover have "win_base (moved e (windowbase_bound (sregs env WINDOW_BASE) env)) = win_base env"
    using b by (simp add: moved_base e_ok same)
  moreover have "regs (moved e (windowbase_bound (sregs env WINDOW_BASE) env)) i = regs env i" if "i < 16" for i
    using that calculation(2) moved_ok [OF e_ok] ok
    by (simp add: window_view moved_file e_ok af same)
  ultimately show "\<exists>r. xtensa_restore_owb e = Ret () r \<and> win_base r = win_base env \<and> (\<forall>i<16. regs r i = regs env i)"
    by blast
qed

lemma win_check_shift: "win_ok env \<Longrightarrow> unat (sregs env WINDOW_BASE + 1) = win_base env + 1"
  by (auto simp: win_ok_def win_base_def unat_word_ariths)

section \<open>Properties\<close>

text \<open>
  C2. Rotating the register window refines the abstract register file: on a windowed core the
  rotation cannot fail its assertions, the physical register file is unchanged as a whole,
  the base moves by the rotation modulo the number of quads, and every visible register shows
  the file at the new base.
\<close>

theorem rotate_window_refines:
  assumes "win_ok env"
  shows "\<exists>env'. xtensa_rotate_window env delta = Ret () env' \<and> win_ok env' \<and>
    ar_file env' = ar_file env \<and>
    win_base env' = (win_base env + unat delta) mod (nareg (config env) div 4) \<and>
    (\<forall>i<16. regs env' i = ar_file env ((4 * win_base env' + i) mod nareg (config env)))"
  using assms win.move_inv [OF assms] win.move_file [OF assms] win.move_base [OF assms]
    win.view_file [OF win.move_inv [OF assms]]
  by (intro exI [of _ "moved env (of_nat (win_base env + unat delta))"])
     (simp add: rotate_moved del: of_nat_add)

lemma new_cpu_win_ok [simp]: "win_ok (new_cpu esp32s3_config)"
  by (simp add: win_ok_def config_simps)

theorem rotate_window_refines_witness:
  "\<exists>env'. xtensa_rotate_window ((new_cpu esp32s3_config)\<lparr>regs := (\<lambda>i. of_nat i)\<rparr>) 2 = Ret () env' \<and>
    win_base env' = 2"
proof -
  have "win_ok ((new_cpu esp32s3_config)\<lparr>regs := (\<lambda>i. of_nat i)\<rparr>)"
    by (simp add: win_ok_def config_simps)
  from rotate_window_refines [OF this, of 2] show ?thesis
    by (auto simp: win_base_def config_simps)
qed

text \<open>
  C1. A windowed call protects its caller. Let PS.CALLINC be $n$; \<^verbatim>\<open>entry\<close> followed by the
  window synchronisation gives the callee a window in which register \<^verbatim>\<open>s & 3\<close> is the
  adjusted stack pointer; then, whatever the callee writes into its 16 visible registers, the
  \<^verbatim>\<open>retw\<close> with increment $n$ returns to the caller's window base with the caller's
  registers 0 to $4n - 1$ as they were before the call.
\<close>

theorem call_preserves_caller:
  assumes "win_ok env" "n = unat (drop_bit PS_CALLINC_SHIFT (sregs env PS AND PS_CALLINC))"
    and "unat (drop_bit 30 a0 AND 3) = n"
  shows "\<exists>callee. helper_sync_windowbase (helper_entry env pc s imm) = Ret () callee \<and>
    regs callee (s AND 3) = regs env s - imm \<and>
    (\<exists>back_env. helper_retw (callee\<lparr>regs := body\<rparr>) a0 = Ret () back_env \<and>
       win_base back_env = win_base env \<and> (\<forall>i<4 * n. regs back_env i = regs env i))"
  using call_return [OF assms refl] by blast


theorem call_preserves_caller_witness:
  "\<exists>callee. helper_sync_windowbase (helper_entry
       ((new_cpu esp32s3_config)\<lparr>sregs := (\<lambda>r. if r = PS then 0x20000 else 0)\<rparr>) 0 1 32) = Ret () callee \<and>
     (\<exists>back_env. helper_retw (callee\<lparr>regs := (\<lambda>i. 7)\<rparr>) 0x80000000 = Ret () back_env \<and>
       (\<forall>i<8. regs back_env i = 0))"
proof -
  let ?e = "(new_cpu esp32s3_config)\<lparr>sregs := (\<lambda>r. if r = PS then 0x20000 else 0)\<rparr>"
  have ok: "win_ok ?e" by (simp add: win_ok_def config_simps)
  have n: "2 = unat (drop_bit PS_CALLINC_SHIFT (sregs ?e PS AND PS_CALLINC))"
    by (simp add: PS_CALLINC_def)
  have k: "unat (drop_bit 30 (0x80000000 :: u32) AND 3) = 2" by simp
  show ?thesis
    using call_preserves_caller [OF ok n k, of 0 1 32 "\<lambda>i. 7"] by (auto simp: config_simps)
qed

text \<open>
  C18. A window overflow is transparent: when the check finds a live frame \<open>n\<close> quads ahead, it
  raises one of the three overflow exceptions with the window moved onto that frame, the
  physical register file unchanged, the interrupted program counter in EPC1 and EXCM set; and
  restoring the window base from PS.OWB, as the handler's return does, brings back exactly the
  registers that were visible before.
\<close>

theorem window_overflow_transparent:
  assumes "win_ok env"
    and "n = ctz32 (drop_bit (win_base env + 1) (xtensa_replicate_windowstart env)) + 1" "n \<le> w"
  shows "\<exists>e. helper_window_check env pc w = LoopExit e \<and>
    (exception_index e = EXC_WINDOW_OVERFLOW4 \<or> exception_index e = EXC_WINDOW_OVERFLOW8 \<or>
     exception_index e = EXC_WINDOW_OVERFLOW12) \<and>
    ar_file e = ar_file env \<and> sregs e EPC1 = pc \<and> env_pc e = pc \<and> sregs e PS AND PS_EXCM \<noteq> 0 \<and>
    win_base e = (win_base env + n) mod (nareg (config env) div 4) \<and>
    (\<exists>r. xtensa_restore_owb e = Ret () r \<and> win_base r = win_base env \<and> (\<forall>i<16. regs r i = regs env i))"
proof -
  let ?pos = "of_nat (win_base env + n) :: u32"
  let ?ws = "drop_bit (win_base env + 1) (xtensa_replicate_windowstart env)"
  have pos: "sregs env WINDOW_BASE + of_nat n = ?pos" by (simp add: win_base_def)
  define x where "x = (case ctz32 (drop_bit n ?ws) of 0 \<Rightarrow> EXC_WINDOW_OVERFLOW4
      | Suc 0 \<Rightarrow> EXC_WINDOW_OVERFLOW8 | _ \<Rightarrow> EXC_WINDOW_OVERFLOW12)"
  define e where "e = (set_sreg EPC1 pc
     ((set_sreg PS ((sregs env PS AND NOT PS_OWB) OR push_bit PS_OWB_SHIFT (windowbase_bound (sregs env WINDOW_BASE) env) OR PS_EXCM)
        (moved env ?pos))\<lparr>env_pc := pc\<rparr>))\<lparr>exception_index := x\<rparr>"
  have rot: "xtensa_rotate_window env (of_nat n) = Ret () (moved env ?pos)"
    unfolding xtensa_rotate_window_def pos by (rule rotate_abs_moved [OF assms(1)])
  have "helper_window_check env pc w = LoopExit e"
    using assms(3) rot
    unfolding helper_window_check_def Let_def win_check_shift [OF assms(1)] assms(2) [symmetric] e_def x_def
    by (simp add: exception_def split: nat.split)
  moreover have "x = EXC_WINDOW_OVERFLOW4 \<or> x = EXC_WINDOW_OVERFLOW8 \<or> x = EXC_WINDOW_OVERFLOW12"
    by (simp add: x_def split: nat.split)
  moreover note owb_return [OF assms(1), of e ?pos]
  ultimately show ?thesis
    by (intro exI [of _ e])
       (simp add: e_def ps_excm_bit bit_simps bit_ps_masks unat_mod_quarter assms(1) del: of_nat_add)
qed


theorem window_overflow_transparent_witness:
  "\<exists>e. helper_window_check
      ((new_cpu esp32s3_config)\<lparr>sregs := (\<lambda>r. if r = WINDOW_START then 5 else 0)\<rparr>) 0x1000 3 = LoopExit e \<and>
    win_base e = 2 \<and> sregs e EPC1 = 0x1000"
proof -
  let ?e = "(new_cpu esp32s3_config)\<lparr>sregs := (\<lambda>r. if r = WINDOW_START then 5 else 0)\<rparr>"
  have ok: "win_ok ?e" by (simp add: win_ok_def config_simps)
  have "ctz32 (drop_bit (win_base ?e + 1) (xtensa_replicate_windowstart ?e)) = 1"
    by (rule ctz32_eqI) (simp_all add: xtensa_replicate_windowstart_def win_base_def config_simps)
  then have n: "2 = ctz32 (drop_bit (win_base ?e + 1) (xtensa_replicate_windowstart ?e)) + 1" by simp
  show ?thesis
    using window_overflow_transparent [OF ok n, of 3 "0x1000"] by (auto simp: win_base_def config_simps)
qed

text \<open>
  C19. A window underflow is transparent: when \<^verbatim>\<open>retw\<close> finds the caller's frame ($n$ quads
  back, $n$ from the top two bits of the return address) not in the register file, it raises the
  underflow exception for $n$ with the window moved back onto that frame, the register file
  unchanged and the instruction's program counter in EPC1; restoring the window base from PS.OWB
  brings back exactly the registers that were visible before.
\<close>

theorem window_underflow_transparent:
  assumes "win_ok env" "n = drop_bit 30 (regs env 0) AND 3" "n \<noteq> 0"
    and "sregs env WINDOW_START AND windowstart_bit (sregs env WINDOW_BASE - n) env = 0"
  shows "\<exists>e. helper_test_underflow_retw env pc = LoopExit e \<and>
    exception_index e = (if n = 1 then EXC_WINDOW_UNDERFLOW4 else if n = 2 then EXC_WINDOW_UNDERFLOW8
      else EXC_WINDOW_UNDERFLOW12) \<and>
    ar_file e = ar_file env \<and> sregs e EPC1 = pc \<and> env_pc e = pc \<and> sregs e PS AND PS_EXCM \<noteq> 0 \<and>
    win_base e = unat (sregs env WINDOW_BASE - n) mod (nareg (config env) div 4) \<and>
    (\<exists>r. xtensa_restore_owb e = Ret () r \<and> win_base r = win_base env \<and> (\<forall>i<16. regs r i = regs env i))"
proof -
  let ?pos = "sregs env WINDOW_BASE - n"
  have n3: "n = 1 \<or> n = 2 \<or> n = 3"
  proof -
    have "unat n < 4" using assms(2) unat_and_mask [of "drop_bit 30 (regs env 0)" 2]
      by (simp add: mask_eq_exp_minus_1)
    then show ?thesis using assms(3) by (auto simp: word_unat_eq_iff)
  qed
  define x where "x = (if n = 1 then EXC_WINDOW_UNDERFLOW4 else if n = 2 then EXC_WINDOW_UNDERFLOW8
      else EXC_WINDOW_UNDERFLOW12)"
  define e where "e = (set_sreg EPC1 pc
     ((set_sreg PS ((sregs env PS AND NOT PS_OWB) OR push_bit PS_OWB_SHIFT (windowbase_bound (sregs env WINDOW_BASE) env) OR PS_EXCM)
        (moved env ?pos))\<lparr>env_pc := pc\<rparr>))\<lparr>exception_index := x\<rparr>"
  have rot: "xtensa_rotate_window env (- n) = Ret () (moved env ?pos)"
    unfolding xtensa_rotate_window_def using rotate_abs_moved [OF assms(1)] by simp
  have "helper_test_underflow_retw env pc = LoopExit e"
    using n3 assms(4) rot
    unfolding helper_test_underflow_retw_def Let_def assms(2) [symmetric] e_def x_def
    by (auto simp: exception_def)
  moreover note owb_return [OF assms(1), of e ?pos]
  ultimately show ?thesis
    by (intro exI [of _ e]) (simp add: e_def x_def ps_excm_bit bit_simps bit_ps_masks)
qed

theorem window_underflow_transparent_witness:
  "\<exists>e. helper_test_underflow_retw ((new_cpu esp32s3_config)\<lparr>regs := (\<lambda>_. 0x80000000)\<rparr>) 0x1000 = LoopExit e \<and>
    exception_index e = EXC_WINDOW_UNDERFLOW8"
proof -
  let ?e = "(new_cpu esp32s3_config)\<lparr>regs := (\<lambda>_. 0x80000000)\<rparr>"
  have "win_ok ?e" by (simp add: win_ok_def config_simps)
  from window_underflow_transparent [OF this, of 2 "0x1000"] show ?thesis
    by (auto simp: config_simps)
qed

end
