(* ===== verification/Mmu_Helper.thy ===== *)
theory Mmu_Helper
  imports Exc_Helper
begin

text \<open>
  Address translation, \<^verbatim>\<open>target/xtensa/mmu_helper.c\<close>: the TLBs of the full MMU with
  page-table autorefill, region protection, and the MPU. A translation yields an exception
  cause (\<^verbatim>\<open>Inl\<close>) or the physical address, the page size and the access rights
  (\<^verbatim>\<open>Inr\<close>). Reading a page-table entry from guest memory, \<^verbatim>\<open>address_space_ldl\<close>, is
  a parameter \<open>ldl\<close> of the operations that do it; \<^verbatim>\<open>None\<close> is a failed transaction.
\<close>

section \<open>Constants\<close>

definition REGION_PAGE_MASK :: u32 where "REGION_PAGE_MASK = 0xe0000000"
definition PAGE_READ :: u32 where "PAGE_READ = 0x1"
definition PAGE_WRITE :: u32 where "PAGE_WRITE = 0x2"
definition PAGE_EXEC :: u32 where "PAGE_EXEC = 0x4"
definition PAGE_CACHE_MASK :: u32 where "PAGE_CACHE_MASK = 0x700"
definition PAGE_CACHE_BYPASS :: u32 where "PAGE_CACHE_BYPASS = 0x100"
definition PAGE_CACHE_WT :: u32 where "PAGE_CACHE_WT = 0x200"
definition PAGE_CACHE_WB :: u32 where "PAGE_CACHE_WB = 0x400"
definition PAGE_CACHE_ISOLATE :: u32 where "PAGE_CACHE_ISOLATE = 0x600"
definition XTENSA_MPU_SEGMENT_MASK :: u32 where "XTENSA_MPU_SEGMENT_MASK = 0x1f"
definition XTENSA_MPU_ACC_RIGHTS_MASK :: u32 where "XTENSA_MPU_ACC_RIGHTS_MASK = 0xf00"
definition XTENSA_MPU_MEM_TYPE_MASK :: u32 where "XTENSA_MPU_MEM_TYPE_MASK = 0x1ff000"
definition XTENSA_MPU_ATTR_MASK :: u32 where "XTENSA_MPU_ATTR_MASK = 0x1fff00"
definition XTENSA_MPU_PROBE_B :: u32 where "XTENSA_MPU_PROBE_B = 0x40000000"
definition XTENSA_MPU_PROBE_V :: u32 where "XTENSA_MPU_PROBE_V = 0x80000000"

lemmas page_defs =
  PAGE_READ_def PAGE_WRITE_def PAGE_EXEC_def PAGE_CACHE_MASK_def PAGE_CACHE_BYPASS_def
  PAGE_CACHE_WT_def PAGE_CACHE_WB_def PAGE_CACHE_ISOLATE_def

type_synonym xlate = "u32 + (u32 \<times> u32 \<times> u32)"

section \<open>TLB addressing\<close>

definition helper_wsr_rasid :: "env \<Rightarrow> u32 \<Rightarrow> env" where
  "helper_wsr_rasid env v =
     (let v = (v AND 0xffffff00) OR 0x1 in
      if v \<noteq> sregs env RASID then call Tlb_flush (set_sreg RASID v env) else env)"

definition cfg_tlb :: "env \<Rightarrow> bool \<Rightarrow> xtensa_tlb" where
  "cfg_tlb env is_dtlb = (if is_dtlb then cfg_dtlb (config env) else cfg_itlb (config env))"

definition get_page_size :: "env \<Rightarrow> bool \<Rightarrow> nat \<Rightarrow> nat" where
  "get_page_size env is_dtlb way =
     (let tlbcfg = sregs env (if is_dtlb then DTLBCFG else ITLBCFG) in
      if way = 4 then unat (drop_bit 16 tlbcfg AND 0x3)
      else if way = 5 then unat (drop_bit 20 tlbcfg AND 0x1)
      else if way = 6 then unat (drop_bit 24 tlbcfg AND 0x1)
      else 0)"

definition xtensa_tlb_get_addr_mask :: "env \<Rightarrow> bool \<Rightarrow> nat \<Rightarrow> u32" where
  "xtensa_tlb_get_addr_mask env is_dtlb way =
     (if xtensa_option_enabled (config env) XTENSA_OPTION_MMU then
        let vw = varway56 (cfg_tlb env is_dtlb) in
        if way = 4 then push_bit (get_page_size env is_dtlb way * 2) 0xfff00000
        else if way = 5 then
          (if vw then push_bit (get_page_size env is_dtlb way) 0xf8000000 else 0xf8000000)
        else if way = 6 then
          (if vw then push_bit (1 - get_page_size env is_dtlb way) 0xf0000000 else 0xf0000000)
        else 0xfffff000
      else REGION_PAGE_MASK)"

definition get_vpn_mask :: "env \<Rightarrow> bool \<Rightarrow> nat \<Rightarrow> u32" where
  "get_vpn_mask env is_dtlb way =
     (if way < 4 then
        (if nrefillentries (cfg_tlb env is_dtlb) = 32 then 0xffff8000 else 0xffffc000)
      else if way = 4 then push_bit 2 (xtensa_tlb_get_addr_mask env is_dtlb way)
      else if way \<le> 6 then
        let m = xtensa_tlb_get_addr_mask env is_dtlb way in
        if varway56 (cfg_tlb env is_dtlb) then push_bit (if way = 5 then 2 else 3) m else push_bit 1 m
      else 0xfffff000)"

text \<open>The VPN (with index) and the entry index of an address in a way.\<close>

definition split_tlb_entry_spec_way :: "env \<Rightarrow> u32 \<Rightarrow> bool \<Rightarrow> nat \<Rightarrow> u32 \<times> nat" where
  "split_tlb_entry_spec_way env v is_dtlb wi =
     (let vw = varway56 (cfg_tlb env is_dtlb);
          wi = (if is_dtlb then wi else wi mod 8);
          ei =
            (if wi < 4 then
               drop_bit 12 v AND (if nrefillentries (cfg_tlb env is_dtlb) = 32 then 0x7 else 0x3)
             else if wi = 4 then drop_bit (20 + get_page_size env is_dtlb wi * 2) v AND 0x3
             else if wi = 5 then
               (if vw then drop_bit (27 + get_page_size env is_dtlb wi) v AND 0x3
                else drop_bit 27 v AND 0x1)
             else if wi = 6 then
               (if vw then drop_bit (29 - get_page_size env is_dtlb wi) v AND 0x7
                else drop_bit 28 v AND 0x1)
             else 0)
      in (v AND xtensa_tlb_get_addr_mask env is_dtlb wi, unat ei))"

definition split_tlb_entry_spec :: "env \<Rightarrow> u32 \<Rightarrow> bool \<Rightarrow> (u32 \<times> nat \<times> nat) option" where
  "split_tlb_entry_spec env v is_dtlb =
     (if xtensa_option_enabled (config env) XTENSA_OPTION_MMU then
        let wi = unat (v AND (if is_dtlb then 0xf else 0x7)) in
        if wi < nways (cfg_tlb env is_dtlb) then
          let (vpn, ei) = split_tlb_entry_spec_way env v is_dtlb wi in Some (vpn, wi, ei)
        else None
      else Some (v AND REGION_PAGE_MASK, 0, unat (drop_bit 29 v AND 0x7)))"

definition tlb_entry :: "env \<Rightarrow> bool \<Rightarrow> nat \<Rightarrow> nat \<Rightarrow> xtensa_tlb_entry" where
  "tlb_entry env is_dtlb wi ei = (if is_dtlb then dtlb env wi ei else itlb env wi ei)"

definition tlb_store :: "bool \<Rightarrow> nat \<Rightarrow> nat \<Rightarrow> xtensa_tlb_entry \<Rightarrow> env \<Rightarrow> env" where
  "tlb_store is_dtlb wi ei e env =
     (if is_dtlb then env\<lparr>dtlb := (dtlb env)(wi := (dtlb env wi)(ei := e))\<rparr>
      else env\<lparr>itlb := (itlb env)(wi := (itlb env wi)(ei := e))\<rparr>)"

definition xtensa_tlb_get_entry :: "env \<Rightarrow> bool \<Rightarrow> nat \<Rightarrow> nat \<Rightarrow> (env, xtensa_tlb_entry) outcome" where
  "xtensa_tlb_get_entry env is_dtlb wi ei =
     (if wi < nways (cfg_tlb env is_dtlb) \<and> ei < way_size (cfg_tlb env is_dtlb) wi
      then Ret (tlb_entry env is_dtlb wi ei) env else AssertFail)"

text \<open>\<^verbatim>\<open>get_tlb_entry\<close> returns the place of the entry, or none.\<close>

definition get_tlb_entry :: "env \<Rightarrow> u32 \<Rightarrow> bool \<Rightarrow> (env, (nat \<times> nat) option) outcome" where
  "get_tlb_entry env v is_dtlb =
     (case split_tlb_entry_spec env v is_dtlb of
        Some (vpn, wi, ei) \<Rightarrow> obind (xtensa_tlb_get_entry env is_dtlb wi ei) (\<lambda>_ env. Ret (Some (wi, ei)) env)
      | None \<Rightarrow> Ret None env)"

section \<open>Writing TLB entries\<close>

definition xtensa_tlb_set_entry_mmu ::
    "env \<Rightarrow> xtensa_tlb_entry \<Rightarrow> bool \<Rightarrow> nat \<Rightarrow> u32 \<Rightarrow> u32 \<Rightarrow> xtensa_tlb_entry" where
  "xtensa_tlb_set_entry_mmu env entry is_dtlb wi vpn pte =
     entry\<lparr>te_vaddr := vpn,
           te_paddr := pte AND xtensa_tlb_get_addr_mask env is_dtlb wi,
           te_asid := ucast (drop_bit (unat (drop_bit 1 pte AND 0x18)) (sregs env RASID) AND 0xff),
           te_attr := ucast (pte AND 0xf)\<rparr>"

definition xtensa_tlb_set_entry :: "env \<Rightarrow> bool \<Rightarrow> nat \<Rightarrow> nat \<Rightarrow> u32 \<Rightarrow> u32 \<Rightarrow> (env, unit) outcome" where
  "xtensa_tlb_set_entry env is_dtlb wi ei vpn pte =
     obind (xtensa_tlb_get_entry env is_dtlb wi ei)
       (\<lambda>entry env.
          if xtensa_option_enabled (config env) XTENSA_OPTION_MMU then
            if te_variable entry then
              let env = (if te_asid entry \<noteq> 0 then call (Tlb_flush_page (te_vaddr entry)) env else env);
                  entry = xtensa_tlb_set_entry_mmu env entry is_dtlb wi vpn pte;
                  env = tlb_store is_dtlb wi ei entry env
              in Ret () (call (Tlb_flush_page (te_vaddr entry)) env)
            else Ret () env
          else
            let env = call (Tlb_flush_page (te_vaddr entry)) env;
                entry = (if xtensa_option_enabled (config env) XTENSA_OPTION_REGION_TRANSLATION
                         then entry\<lparr>te_paddr := pte AND REGION_PAGE_MASK\<rparr> else entry);
                entry = entry\<lparr>te_attr := ucast (pte AND 0xf)\<rparr>
            in Ret () (tlb_store is_dtlb wi ei entry env))"

definition helper_wtlb :: "env \<Rightarrow> u32 \<Rightarrow> u32 \<Rightarrow> bool \<Rightarrow> (env, unit) outcome" where
  "helper_wtlb env p v is_dtlb =
     (case split_tlb_entry_spec env v is_dtlb of
        Some (vpn, wi, ei) \<Rightarrow> xtensa_tlb_set_entry env is_dtlb wi ei vpn p
      | None \<Rightarrow> Ret () env)"

definition helper_itlb :: "env \<Rightarrow> u32 \<Rightarrow> bool \<Rightarrow> (env, unit) outcome" where
  "helper_itlb env v is_dtlb =
     (if xtensa_option_enabled (config env) XTENSA_OPTION_MMU then
        obind (get_tlb_entry env v is_dtlb)
          (\<lambda>place env. case place of
             Some (wi, ei) \<Rightarrow>
               let entry = tlb_entry env is_dtlb wi ei in
               if te_variable entry \<and> te_asid entry \<noteq> 0
               then Ret () (tlb_store is_dtlb wi ei (entry\<lparr>te_asid := 0\<rparr>)
                             (call (Tlb_flush_page (te_vaddr entry)) env))
               else Ret () env
           | None \<Rightarrow> Ret () env)
      else Ret () env)"

section \<open>Reset\<close>

definition reset_tlb_mmu_all_ways ::
    "xtensa_tlb \<Rightarrow> (nat \<Rightarrow> nat \<Rightarrow> xtensa_tlb_entry) \<Rightarrow> nat \<Rightarrow> nat \<Rightarrow> xtensa_tlb_entry" where
  "reset_tlb_mmu_all_ways tlb entry =
     (\<lambda>wi ei. if wi < nways tlb \<and> ei < way_size tlb wi
              then (entry wi ei)\<lparr>te_asid := 0, te_variable := True\<rparr> else entry wi ei)"

definition reset_way5 :: "xtensa_tlb_entry list" where
  "reset_way5 =
     [\<lparr>te_vaddr = 0xd0000000, te_paddr = 0, te_asid = 1, te_attr = 7, te_variable = False\<rparr>,
      \<lparr>te_vaddr = 0xd8000000, te_paddr = 0, te_asid = 1, te_attr = 3, te_variable = False\<rparr>]"

definition reset_way6 :: "xtensa_tlb_entry list" where
  "reset_way6 =
     [\<lparr>te_vaddr = 0xe0000000, te_paddr = 0xf0000000, te_asid = 1, te_attr = 7, te_variable = False\<rparr>,
      \<lparr>te_vaddr = 0xf0000000, te_paddr = 0xf0000000, te_asid = 1, te_attr = 3, te_variable = False\<rparr>]"

definition reset_tlb_mmu_ways56 ::
    "xtensa_tlb \<Rightarrow> (nat \<Rightarrow> nat \<Rightarrow> xtensa_tlb_entry) \<Rightarrow> nat \<Rightarrow> nat \<Rightarrow> xtensa_tlb_entry" where
  "reset_tlb_mmu_ways56 tlb entry =
     (if \<not> varway56 tlb then
        (\<lambda>wi ei. if wi = 5 \<and> ei < 2 then reset_way5 ! ei
                 else if wi = 6 \<and> ei < 2 then reset_way6 ! ei else entry wi ei)
      else
        (\<lambda>wi ei. if wi = 6 \<and> ei < 8
                 then (entry wi ei)\<lparr>te_vaddr := push_bit 29 (of_nat ei), te_paddr := push_bit 29 (of_nat ei),
                                    te_asid := 1, te_attr := 3\<rparr>
                 else entry wi ei))"

definition reset_tlb_region_way0 ::
    "(nat \<Rightarrow> nat \<Rightarrow> xtensa_tlb_entry) \<Rightarrow> nat \<Rightarrow> nat \<Rightarrow> xtensa_tlb_entry" where
  "reset_tlb_region_way0 entry =
     (\<lambda>wi ei. if wi = 0 \<and> ei < 8
              then \<lparr>te_vaddr = push_bit 29 (of_nat ei), te_paddr = push_bit 29 (of_nat ei),
                    te_asid = 1, te_attr = 2, te_variable = True\<rparr>
              else entry wi ei)"

definition mpu_bg_ok :: "XtensaConfig \<Rightarrow> bool" where
  "mpu_bg_ok cfg \<longleftrightarrow>
     n_mpu_bg_segments cfg > 0 \<and> me_vaddr (mpu_bg cfg 0) = 0 \<and>
     list_all (\<lambda>i. me_vaddr (mpu_bg cfg i) \<ge> me_vaddr (mpu_bg cfg (i - 1)))
       [1..<n_mpu_bg_segments cfg]"

definition reset_mmu :: "env \<Rightarrow> (env, unit) outcome" where
  "reset_mmu env =
     (if xtensa_option_enabled (config env) XTENSA_OPTION_MMU then
        let env = set_sreg DTLBCFG 0 (set_sreg ITLBCFG 0 (set_sreg RASID 0x04030201 env));
            env = env\<lparr>autorefill_idx := 0\<rparr>;
            env = env\<lparr>itlb := reset_tlb_mmu_all_ways (cfg_itlb (config env)) (itlb env)\<rparr>;
            env = env\<lparr>dtlb := reset_tlb_mmu_all_ways (cfg_dtlb (config env)) (dtlb env)\<rparr>;
            env = env\<lparr>itlb := reset_tlb_mmu_ways56 (cfg_itlb (config env)) (itlb env)\<rparr>;
            env = env\<lparr>dtlb := reset_tlb_mmu_ways56 (cfg_dtlb (config env)) (dtlb env)\<rparr>
        in Ret () env
      else if xtensa_option_enabled (config env) XTENSA_OPTION_MPU then
        let env = set_sreg CACHEADRDIS 0
                    (set_sreg MPUCFG (of_nat (n_mpu_fg_segments (config env))) (set_sreg MPUENB 0 env))
        in if mpu_bg_ok (config env) then Ret () env else AssertFail
      else
        let env = set_sreg CACHEATTR 0x22222222 env;
            env = env\<lparr>itlb := reset_tlb_region_way0 (itlb env)\<rparr>
        in Ret () (env\<lparr>dtlb := reset_tlb_region_way0 (dtlb env)\<rparr>))"

section \<open>TLB lookup\<close>

text \<open>The ring whose ASID field of RASID equals the given one; 0xff when there is none.\<close>

fun get_ring_from :: "u32 \<Rightarrow> u8 \<Rightarrow> nat list \<Rightarrow> nat" where
  "get_ring_from rasid asid [] = 0xff"
| "get_ring_from rasid asid (i # is) =
     (if drop_bit (i * 8) rasid AND 0xff = ucast asid then i else get_ring_from rasid asid is)"

definition get_ring :: "env \<Rightarrow> u8 \<Rightarrow> nat" where
  "get_ring env asid = get_ring_from (sregs env RASID) asid [0..<4]"

text \<open>
  The loop of \<^verbatim>\<open>xtensa_tlb_lookup\<close> over the remaining ways, with the hit found so far
  (way, entry, ring).
\<close>

fun tlb_scan :: "env \<Rightarrow> u32 \<Rightarrow> bool \<Rightarrow> nat list \<Rightarrow> (nat \<times> nat \<times> nat) option \<Rightarrow> u32 + (nat \<times> nat \<times> nat)" where
  "tlb_scan env addr is_dtlb [] hit =
     (case hit of Some h \<Rightarrow> Inr h
      | None \<Rightarrow> Inl (if is_dtlb then LOAD_STORE_TLB_MISS_CAUSE else INST_TLB_MISS_CAUSE))"
| "tlb_scan env addr is_dtlb (wi # ws) hit =
     (let (vpn, ei) = split_tlb_entry_spec_way env addr is_dtlb wi;
          entry = tlb_entry env is_dtlb wi ei
      in if te_vaddr entry = vpn \<and> te_asid entry \<noteq> 0 then
           let ring = get_ring env (te_asid entry) in
           if ring < 4 then
             if hit \<noteq> None
             then Inl (if is_dtlb then LOAD_STORE_TLB_MULTI_HIT_CAUSE else INST_TLB_MULTI_HIT_CAUSE)
             else tlb_scan env addr is_dtlb ws (Some (wi, ei, ring))
           else tlb_scan env addr is_dtlb ws hit
         else tlb_scan env addr is_dtlb ws hit)"

definition xtensa_tlb_lookup :: "env \<Rightarrow> u32 \<Rightarrow> bool \<Rightarrow> u32 + (nat \<times> nat \<times> nat)" where
  "xtensa_tlb_lookup env addr is_dtlb = tlb_scan env addr is_dtlb [0..<nways (cfg_tlb env is_dtlb)] None"

definition helper_rtlb0 :: "env \<Rightarrow> u32 \<Rightarrow> bool \<Rightarrow> (env, u32) outcome" where
  "helper_rtlb0 env v is_dtlb =
     (if xtensa_option_enabled (config env) XTENSA_OPTION_MMU then
        obind (get_tlb_entry env v is_dtlb)
          (\<lambda>place env. case place of
             Some (wi, ei) \<Rightarrow>
               let entry = tlb_entry env is_dtlb wi ei in
               Ret ((te_vaddr entry AND get_vpn_mask env is_dtlb wi) OR ucast (te_asid entry)) env
           | None \<Rightarrow> Ret 0 env)
      else Ret (v AND REGION_PAGE_MASK) env)"

definition helper_rtlb1 :: "env \<Rightarrow> u32 \<Rightarrow> bool \<Rightarrow> (env, u32) outcome" where
  "helper_rtlb1 env v is_dtlb =
     obind (get_tlb_entry env v is_dtlb)
       (\<lambda>place env. case place of
          Some (wi, ei) \<Rightarrow>
            let entry = tlb_entry env is_dtlb wi ei in Ret (te_paddr entry OR ucast (te_attr entry)) env
        | None \<Rightarrow> Ret 0 env)"

definition helper_ptlb :: "env \<Rightarrow> u32 \<Rightarrow> bool \<Rightarrow> (env, u32) outcome" where
  "helper_ptlb env v is_dtlb =
     (if xtensa_option_enabled (config env) XTENSA_OPTION_MMU then
        case xtensa_tlb_lookup env v is_dtlb of
          Inr (wi, ei, ring) \<Rightarrow>
            Ret (if ring \<ge> xtensa_get_ring env
                 then (v AND 0xfffff000) OR of_nat wi OR (if is_dtlb then 0x10 else 0x8) else 0) env
        | Inl res \<Rightarrow>
            if res = INST_TLB_MULTI_HIT_CAUSE \<or> res = LOAD_STORE_TLB_MULTI_HIT_CAUSE
            then obind (exception_cause_vaddr env (env_pc env) res v) (\<lambda>_ env. Ret 0 env)
            else Ret 0 env
      else Ret ((v AND REGION_PAGE_MASK) OR 0x1) env)"

section \<open>Access rights\<close>

definition mmu_attr_to_access :: "u32 \<Rightarrow> u32" where
  "mmu_attr_to_access attr =
     (if attr < 12 then
        let access = PAGE_READ;
            access = (if attr AND 0x1 \<noteq> 0 then access OR PAGE_EXEC else access);
            access = (if attr AND 0x2 \<noteq> 0 then access OR PAGE_WRITE else access);
            c = attr AND 0xc
        in if c = 0 then access OR PAGE_CACHE_BYPASS
           else if c = 4 then access OR PAGE_CACHE_WB
           else if c = 8 then access OR PAGE_CACHE_WT
           else access
      else if attr = 13 then PAGE_READ OR PAGE_WRITE OR PAGE_CACHE_ISOLATE
      else 0)"

definition region_attr_to_access :: "u32 \<Rightarrow> u32" where
  "region_attr_to_access attr =
     [PAGE_READ OR PAGE_WRITE OR PAGE_CACHE_WT,
      PAGE_READ OR PAGE_WRITE OR PAGE_EXEC OR PAGE_CACHE_WT,
      PAGE_READ OR PAGE_WRITE OR PAGE_EXEC OR PAGE_CACHE_BYPASS,
      PAGE_EXEC OR PAGE_CACHE_WB,
      PAGE_READ OR PAGE_WRITE OR PAGE_EXEC OR PAGE_CACHE_WB,
      PAGE_READ OR PAGE_WRITE OR PAGE_EXEC OR PAGE_CACHE_WB,
      0, 0, 0, 0, 0, 0, 0, 0,
      PAGE_READ OR PAGE_WRITE OR PAGE_CACHE_ISOLATE, 0] ! unat (attr AND 0xf)"

definition cacheattr_attr_to_access :: "u32 \<Rightarrow> u32" where
  "cacheattr_attr_to_access attr =
     [PAGE_READ OR PAGE_WRITE OR PAGE_CACHE_WT,
      PAGE_READ OR PAGE_WRITE OR PAGE_EXEC OR PAGE_CACHE_WT,
      PAGE_READ OR PAGE_WRITE OR PAGE_EXEC OR PAGE_CACHE_BYPASS,
      PAGE_EXEC OR PAGE_CACHE_WB,
      PAGE_READ OR PAGE_WRITE OR PAGE_EXEC OR PAGE_CACHE_WB,
      0, 0, 0, 0, 0, 0, 0, 0, 0,
      PAGE_READ OR PAGE_WRITE OR PAGE_CACHE_ISOLATE, 0] ! unat (attr AND 0xf)"

definition XTENSA_MPU_SYSTEM_TYPE_DEVICE :: u32 where "XTENSA_MPU_SYSTEM_TYPE_DEVICE = 0x0001"
definition XTENSA_MPU_SYSTEM_TYPE_NC :: u32 where "XTENSA_MPU_SYSTEM_TYPE_NC = 0x0002"
definition XTENSA_MPU_SYSTEM_TYPE_C :: u32 where "XTENSA_MPU_SYSTEM_TYPE_C = 0x0003"
definition XTENSA_MPU_TYPE_SYS_C :: u32 where "XTENSA_MPU_TYPE_SYS_C = 0x0010"
definition XTENSA_MPU_TYPE_SYS_W :: u32 where "XTENSA_MPU_TYPE_SYS_W = 0x0020"
definition XTENSA_MPU_TYPE_SYS_R :: u32 where "XTENSA_MPU_TYPE_SYS_R = 0x0040"
definition XTENSA_MPU_TYPE_CPU_C :: u32 where "XTENSA_MPU_TYPE_CPU_C = 0x0100"
definition XTENSA_MPU_TYPE_CPU_W :: u32 where "XTENSA_MPU_TYPE_CPU_W = 0x0200"
definition XTENSA_MPU_TYPE_CPU_R :: u32 where "XTENSA_MPU_TYPE_CPU_R = 0x0400"
definition XTENSA_MPU_TYPE_CPU_CACHE :: u32 where "XTENSA_MPU_TYPE_CPU_CACHE = 0x0800"
definition XTENSA_MPU_TYPE_B :: u32 where "XTENSA_MPU_TYPE_B = 0x1000"
definition XTENSA_MPU_TYPE_INT :: u32 where "XTENSA_MPU_TYPE_INT = 0x2000"

lemmas mpu_type_defs =
  XTENSA_MPU_SYSTEM_TYPE_DEVICE_def XTENSA_MPU_SYSTEM_TYPE_NC_def XTENSA_MPU_SYSTEM_TYPE_C_def
  XTENSA_MPU_TYPE_SYS_C_def XTENSA_MPU_TYPE_SYS_W_def XTENSA_MPU_TYPE_SYS_R_def
  XTENSA_MPU_TYPE_CPU_C_def XTENSA_MPU_TYPE_CPU_W_def XTENSA_MPU_TYPE_CPU_R_def
  XTENSA_MPU_TYPE_CPU_CACHE_def XTENSA_MPU_TYPE_B_def XTENSA_MPU_TYPE_INT_def

text \<open>An attribute pattern is a mask and a value.\<close>

fun attr_pattern_match :: "u32 \<Rightarrow> (u32 \<times> u32) list \<Rightarrow> bool" where
  "attr_pattern_match attr [] = False"
| "attr_pattern_match attr ((m, value) # ps) = (attr AND m = value \<or> attr_pattern_match attr ps)"

definition or_if :: "bool \<Rightarrow> u32 \<Rightarrow> u32 \<Rightarrow> u32" where
  "or_if c x w = (if c then w OR x else w)"

definition mpu_attr_to_cpu_cache :: "u32 \<Rightarrow> u32" where
  "mpu_attr_to_cpu_cache attr =
     (if attr_pattern_match attr [(0x18f, 0x089), (0x188, 0x080), (0x180, 0x180)] then
        or_if (attr AND 0x40 \<noteq> 0) XTENSA_MPU_TYPE_CPU_R
          (or_if (attr AND 0x20 \<noteq> 0) XTENSA_MPU_TYPE_CPU_W
            (or_if (attr AND 0x10 \<noteq> 0) XTENSA_MPU_TYPE_CPU_C XTENSA_MPU_TYPE_CPU_CACHE))
      else 0)"

definition mpu_attr_to_type :: "u32 \<Rightarrow> u32" where
  "mpu_attr_to_type attr =
     (let attr = drop_bit 12 (attr AND XTENSA_MPU_MEM_TYPE_MASK);
          type = (if attr_pattern_match attr [(0x1f6, 0x000), (0x1f6, 0x006)]
                  then or_if (attr AND 0x80 \<noteq> 0) XTENSA_MPU_TYPE_INT XTENSA_MPU_SYSTEM_TYPE_DEVICE else 0);
          type = or_if (attr_pattern_match attr [(0x1fe, 0x018), (0x1fe, 0x01e), (0x18f, 0x089)])
                   XTENSA_MPU_SYSTEM_TYPE_NC type;
          type = (if attr_pattern_match attr [(0x1f8, 0x010), (0x188, 0x080), (0x1f0, 0x030), (0x180, 0x180)]
                  then or_if (attr AND 0x4 \<noteq> 0) XTENSA_MPU_TYPE_SYS_R
                         (or_if (attr AND 0x2 \<noteq> 0) XTENSA_MPU_TYPE_SYS_W
                           (or_if (attr AND 0x1 \<noteq> 0) XTENSA_MPU_TYPE_SYS_C
                             (type OR XTENSA_MPU_SYSTEM_TYPE_C)))
                  else type);
          type = or_if (attr_pattern_match attr
                         [(0x1f7, 0x001), (0x1f7, 0x007), (0x1ff, 0x019), (0x1ff, 0x01f)])
                   XTENSA_MPU_TYPE_B type
      in type OR mpu_attr_to_cpu_cache attr)"

definition mpu_access_table :: "bool \<Rightarrow> u32 list" where
  "mpu_access_table user =
     (let R = PAGE_READ; W = PAGE_WRITE; X = PAGE_EXEC in
      if \<not> user
      then [0, 0, 0, 0, R, R OR X, R OR W, R OR W OR X, W, R OR W, R OR W, R OR W OR X,
            R, R OR X, R OR W, R OR W OR X]
      else [0, 0, 0, 0, 0, 0, 0, 0, W, R OR W OR X, R, R OR X,
            R, R OR X, R OR W, R OR W OR X])"

definition mpu_attr_to_access :: "u32 \<Rightarrow> nat \<Rightarrow> u32" where
  "mpu_attr_to_access attr ring =
     (let type = mpu_attr_to_cpu_cache attr;
          rv = mpu_access_table (ring \<noteq> 0) ! unat (drop_bit 8 (attr AND XTENSA_MPU_ACC_RIGHTS_MASK))
      in if type AND XTENSA_MPU_TYPE_CPU_CACHE \<noteq> 0
         then rv OR (if type AND XTENSA_MPU_TYPE_CPU_C \<noteq> 0 then PAGE_CACHE_WB else PAGE_CACHE_WT)
         else rv OR PAGE_CACHE_BYPASS)"

text \<open>The kind of access is 0 for a load, 1 for a store and 2 for an instruction fetch.\<close>

definition is_access_granted :: "u32 \<Rightarrow> nat \<Rightarrow> bool" where
  "is_access_granted access is_write =
     (if is_write = 0 then access AND PAGE_READ \<noteq> 0
      else if is_write = 1 then access AND PAGE_WRITE \<noteq> 0
      else if is_write = 2 then access AND PAGE_EXEC \<noteq> 0
      else False)"

definition prohibited_cause :: "nat \<Rightarrow> u32" where
  "prohibited_cause is_write =
     (if is_write \<noteq> 2 then if is_write \<noteq> 0 then STORE_PROHIBITED_CAUSE else LOAD_PROHIBITED_CAUSE
      else INST_FETCH_PROHIBITED_CAUSE)"

section \<open>Translation by the MMU\<close>

text \<open>The part of \<^verbatim>\<open>get_physical_addr_mmu\<close> after an entry has been found.\<close>

definition mmu_check :: "env \<Rightarrow> nat \<Rightarrow> xtensa_tlb_entry \<Rightarrow> nat \<Rightarrow> u32 \<Rightarrow> nat \<Rightarrow> nat \<Rightarrow> xlate" where
  "mmu_check env wi entry ring vaddr is_write mmu_idx =
     (let is_dtlb = is_write \<noteq> 2 in
      if ring < mmu_idx
      then Inl (if is_dtlb then LOAD_STORE_PRIVILEGE_CAUSE else INST_FETCH_PRIVILEGE_CAUSE)
      else
        let access = mmu_attr_to_access (ucast (te_attr entry)) AND
                       NOT (if is_dtlb then PAGE_EXEC else PAGE_READ OR PAGE_WRITE);
            m = xtensa_tlb_get_addr_mask env is_dtlb wi
        in if is_access_granted access is_write
           then Inr (te_paddr entry OR (vaddr AND NOT m), NOT m + 1, access)
           else Inl (prohibited_cause is_write))"

text \<open>
  \<^verbatim>\<open>get_physical_addr_mmu\<close>, with the page-table walk as an argument; the uninitialised
  \<^verbatim>\<open>tmp_entry\<close> has every field that is read assigned first.
\<close>

definition tmp_entry :: xtensa_tlb_entry where
  "tmp_entry = \<lparr>te_vaddr = 0, te_paddr = 0, te_asid = 0, te_attr = 0, te_variable = False\<rparr>"

definition mmu_translate ::
    "(env \<Rightarrow> (env, u32 option) outcome) \<Rightarrow> env \<Rightarrow> bool \<Rightarrow> u32 \<Rightarrow> nat \<Rightarrow> nat \<Rightarrow> (env, xlate) outcome" where
  "mmu_translate walk env update_tlb vaddr is_write mmu_idx =
     (let is_dtlb = is_write \<noteq> 2 in
      case xtensa_tlb_lookup env vaddr is_dtlb of
        Inr (wi, ei, ring) \<Rightarrow>
          obind (xtensa_tlb_get_entry env is_dtlb wi ei)
            (\<lambda>entry env. Ret (mmu_check env wi entry ring vaddr is_write mmu_idx) env)
      | Inl ret \<Rightarrow>
          if ret = INST_TLB_MISS_CAUSE \<or> ret = LOAD_STORE_TLB_MISS_CAUSE then
            obind (walk env)
              (\<lambda>pte env. case pte of
                 None \<Rightarrow> Ret (Inl ret) env
               | Some pte \<Rightarrow>
                   let ring = unat (drop_bit 4 pte AND 0x3);
                       (vpn, ei) = split_tlb_entry_spec_way env vaddr is_dtlb 0
                   in if update_tlb then
                        let env = env\<lparr>autorefill_idx := autorefill_idx env + 1\<rparr>;
                            wi = unat (autorefill_idx env AND 0x3)
                        in obind (xtensa_tlb_set_entry env is_dtlb wi ei vpn pte)
                             (\<lambda>_ env. let env = set_sreg EXCVADDR vaddr env in
                                obind (xtensa_tlb_get_entry env is_dtlb wi ei)
                                  (\<lambda>entry env. Ret (mmu_check env wi entry ring vaddr is_write mmu_idx) env))
                      else
                        let entry = xtensa_tlb_set_entry_mmu env tmp_entry is_dtlb 0 vpn pte
                        in Ret (mmu_check env 0 entry ring vaddr is_write mmu_idx) env)
          else Ret (Inl ret) env)"

definition get_pte :: "(u32 \<Rightarrow> u32 option) \<Rightarrow> env \<Rightarrow> u32 \<Rightarrow> (env, u32 option) outcome" where
  "get_pte ldl env vaddr =
     (let pt_vaddr = (sregs env PTEVADDR OR drop_bit 10 vaddr) AND 0xfffffffc in
      obind (mmu_translate (\<lambda>env. Ret None env) env False pt_vaddr 0 0)
        (\<lambda>r env. Ret (case r of Inr (paddr, page_size, access) \<Rightarrow> ldl paddr | Inl _ \<Rightarrow> None) env))"

definition get_physical_addr_mmu ::
    "(u32 \<Rightarrow> u32 option) \<Rightarrow> env \<Rightarrow> bool \<Rightarrow> u32 \<Rightarrow> nat \<Rightarrow> nat \<Rightarrow> bool \<Rightarrow> (env, xlate) outcome" where
  "get_physical_addr_mmu ldl env update_tlb vaddr is_write mmu_idx may_lookup_pt =
     mmu_translate (\<lambda>env. if may_lookup_pt then get_pte ldl env vaddr else Ret None env)
       env update_tlb vaddr is_write mmu_idx"

section \<open>Translation by regions and by the MPU\<close>

definition get_physical_addr_region :: "env \<Rightarrow> u32 \<Rightarrow> nat \<Rightarrow> nat \<Rightarrow> (env, xlate) outcome" where
  "get_physical_addr_region env vaddr is_write mmu_idx =
     obind (xtensa_tlb_get_entry env (is_write \<noteq> 2) 0 (unat (drop_bit 29 vaddr AND 0x7)))
       (\<lambda>entry env.
          let access = region_attr_to_access (ucast (te_attr entry)) in
          Ret (if is_access_granted access is_write
               then Inr (te_paddr entry OR (vaddr AND NOT REGION_PAGE_MASK), NOT REGION_PAGE_MASK + 1, access)
               else Inl (prohibited_cause is_write)) env)"

text \<open>
  \<^verbatim>\<open>xtensa_mpu_lookup\<close>: the number of hits and the segment it stores through its pointer,
  whose previous content is an argument (\<^verbatim>\<open>None\<close> while uninitialised).
\<close>

fun mpu_scan :: "(nat \<Rightarrow> xtensa_mpu_entry) \<Rightarrow> nat \<Rightarrow> u32 \<Rightarrow> nat list \<Rightarrow> nat \<Rightarrow> nat option \<Rightarrow> nat \<times> nat option" where
  "mpu_scan entry n vaddr [] nhits segment = (nhits, segment)"
| "mpu_scan entry n vaddr (i # is) nhits segment =
     (if vaddr \<ge> me_vaddr (entry i) \<and> (i = n - 1 \<or> vaddr < me_vaddr (entry (i + 1)))
      then if nhits \<noteq> 0 then (nhits + 1, segment)
           else mpu_scan entry n vaddr is (nhits + 1) (Some i)
      else mpu_scan entry n vaddr is nhits segment)"

definition xtensa_mpu_lookup ::
    "(nat \<Rightarrow> xtensa_mpu_entry) \<Rightarrow> nat \<Rightarrow> u32 \<Rightarrow> nat option \<Rightarrow> nat \<times> nat option" where
  "xtensa_mpu_lookup entry n vaddr segment = mpu_scan entry n vaddr [0..<n] 0 segment"

definition helper_wsr_mpuenb :: "env \<Rightarrow> u32 \<Rightarrow> env" where
  "helper_wsr_mpuenb env v =
     (let v = v AND (push_bit (n_mpu_fg_segments (config env) - 1) 2 - 1) in
      if v \<noteq> sregs env MPUENB then call Tlb_flush (set_sreg MPUENB v env) else env)"

definition helper_wptlb :: "env \<Rightarrow> u32 \<Rightarrow> u32 \<Rightarrow> env" where
  "helper_wptlb env p v =
     (let segment = unat (p AND XTENSA_MPU_SEGMENT_MASK) in
      if segment < n_mpu_fg_segments (config env) then
        let env = env\<lparr>mpu_fg := (mpu_fg env)(segment :=
                        \<lparr>me_vaddr = v AND - mpu_align (config env), me_attr = p AND XTENSA_MPU_ATTR_MASK\<rparr>)\<rparr>;
            env = set_sreg MPUENB (deposit32 (sregs env MPUENB) segment 1 v) env
        in call Tlb_flush env
      else env)"

definition helper_rptlb0 :: "env \<Rightarrow> u32 \<Rightarrow> u32" where
  "helper_rptlb0 env s =
     (let segment = unat (s AND XTENSA_MPU_SEGMENT_MASK) in
      if segment < n_mpu_fg_segments (config env)
      then me_vaddr (mpu_fg env segment) OR extract32 (sregs env MPUENB) segment 1 else 0)"

definition helper_rptlb1 :: "env \<Rightarrow> u32 \<Rightarrow> u32" where
  "helper_rptlb1 env s =
     (let segment = unat (s AND XTENSA_MPU_SEGMENT_MASK) in
      if segment < n_mpu_fg_segments (config env) then me_attr (mpu_fg env segment) else 0)"

text \<open>
  An index that is still uninitialised has no value: reading the segment it names is
  \<^verbatim>\<open>AssertFail\<close>. The background map that reset checks always sets it.
\<close>

definition helper_pptlb :: "env \<Rightarrow> u32 \<Rightarrow> (env, u32) outcome" where
  "helper_pptlb env v =
     (let (nhits, segment) = xtensa_mpu_lookup (mpu_fg env) (n_mpu_fg_segments (config env)) v None in
      if nhits > 1 then
        obind (exception_cause_vaddr env (env_pc env) LOAD_STORE_TLB_MULTI_HIT_CAUSE v) (\<lambda>_ env. AssertFail)
      else if nhits = 1 \<and> sregs env MPUENB AND push_bit (the segment) 1 \<noteq> 0 then
        Ret (me_attr (mpu_fg env (the segment)) OR of_nat (the segment) OR XTENSA_MPU_PROBE_V) env
      else
        case snd (xtensa_mpu_lookup (mpu_bg (config env)) (n_mpu_bg_segments (config env)) v None) of
          Some bg_segment \<Rightarrow> Ret (me_attr (mpu_bg (config env) bg_segment) OR XTENSA_MPU_PROBE_B) env
        | None \<Rightarrow> AssertFail)"

definition get_physical_addr_mpu :: "env \<Rightarrow> u32 \<Rightarrow> nat \<Rightarrow> nat \<Rightarrow> (env, xlate) outcome" where
  "get_physical_addr_mpu env vaddr is_write mmu_idx =
     (let (nhits, segment) = xtensa_mpu_lookup (mpu_fg env) (n_mpu_fg_segments (config env)) vaddr None in
      if nhits > 1 then
        Ret (Inl (if is_write < 2 then LOAD_STORE_TLB_MULTI_HIT_CAUSE else INST_TLB_MULTI_HIT_CAUSE)) env
      else
        let attr =
          (if nhits = 1 \<and> sregs env MPUENB AND push_bit (the segment) 1 \<noteq> 0
           then Some (me_attr (mpu_fg env (the segment)))
           else map_option (\<lambda>s. me_attr (mpu_bg (config env) s))
                  (snd (xtensa_mpu_lookup (mpu_bg (config env)) (n_mpu_bg_segments (config env)) vaddr segment)))
        in case attr of
             None \<Rightarrow> AssertFail
           | Some attr \<Rightarrow>
               let access = mpu_attr_to_access attr mmu_idx in
               Ret (if is_access_granted access is_write
                    then Inr (vaddr, mpu_align (config env), access)
                    else Inl (if is_write < 2
                              then if is_write \<noteq> 0 then STORE_PROHIBITED_CAUSE else LOAD_PROHIBITED_CAUSE
                              else INST_FETCH_PROHIBITED_CAUSE)) env)"

definition TARGET_PAGE_SIZE :: u32 where "TARGET_PAGE_SIZE = push_bit 12 1"

definition xtensa_get_physical_addr ::
    "(u32 \<Rightarrow> u32 option) \<Rightarrow> env \<Rightarrow> bool \<Rightarrow> u32 \<Rightarrow> nat \<Rightarrow> nat \<Rightarrow> (env, xlate) outcome" where
  "xtensa_get_physical_addr ldl env update_tlb vaddr is_write mmu_idx =
     (if xtensa_option_enabled (config env) XTENSA_OPTION_MMU then
        get_physical_addr_mmu ldl env update_tlb vaddr is_write mmu_idx True
      else if xtensa_option_bits_enabled (config env)
                (XTENSA_OPTION_BIT XTENSA_OPTION_REGION_PROTECTION OR
                 XTENSA_OPTION_BIT XTENSA_OPTION_REGION_TRANSLATION) then
        get_physical_addr_region env vaddr is_write mmu_idx
      else if xtensa_option_enabled (config env) XTENSA_OPTION_MPU then
        get_physical_addr_mpu env vaddr is_write mmu_idx
      else
        Ret (Inr (vaddr, TARGET_PAGE_SIZE,
                  cacheattr_attr_to_access
                    (drop_bit (unat (drop_bit 27 (vaddr AND 0xe0000000))) (sregs env CACHEATTR)))) env)"

definition xtensa_cpu_get_phys_page_debug :: "(u32 \<Rightarrow> u32 option) \<Rightarrow> env \<Rightarrow> u32 \<Rightarrow> (env, u64) outcome" where
  "xtensa_cpu_get_phys_page_debug ldl env addr =
     obind (xtensa_get_physical_addr ldl env False addr 0 0)
       (\<lambda>r env. case r of
          Inr (paddr, page_size, access) \<Rightarrow> Ret (ucast paddr) env
        | Inl _ \<Rightarrow>
            obind (xtensa_get_physical_addr ldl env False addr 2 0)
              (\<lambda>r env. case r of
                 Inr (paddr, page_size, access) \<Rightarrow> Ret (ucast paddr) env
               | Inl _ \<Rightarrow> Ret (NOT 0) env))"

end
