(* ===== verification/Host_Utils.thy ===== *)
theory Host_Utils
  imports Prelude
begin

text \<open>
  The arithmetic helpers of \<^verbatim>\<open>include/qemu/host-utils.h\<close>. Where the header has two
  versions of a helper, one for compilers with a 128-bit type or the builtin and one without, both
  are modelled and shown to agree; the builtins of the compiler are modelled by their documented
  results. A helper that returns values through pointers returns them as a tuple, in the order of
  the parameters and after the value it returns itself.
\<close>

type_synonym u16 = "16 word"
type_synonym u128 = "128 word"

section \<open>Addition and subtraction with overflow\<close>

text \<open>\<^verbatim>\<open>__builtin_add_overflow\<close> and its relatives: whether the result was truncated, and the result.\<close>

definition uadd64_overflow :: "u64 \<Rightarrow> u64 \<Rightarrow> bool \<times> u64" where
  "uadd64_overflow x y = (2 ^ 64 \<le> unat x + unat y, x + y)"

definition usub64_overflow :: "u64 \<Rightarrow> u64 \<Rightarrow> bool \<times> u64" where
  "usub64_overflow x y = (unat x < unat y, x - y)"

text \<open>The versions without the builtins \<^verbatim>\<open>__builtin_addcll\<close> and \<^verbatim>\<open>__builtin_subcll\<close>.\<close>

definition uadd64_carry :: "u64 \<Rightarrow> u64 \<Rightarrow> bool \<Rightarrow> u64 \<times> bool" where
  "uadd64_carry x y pcarry =
     (let c = pcarry;
          (c, x) = uadd64_overflow x (of_bool c);
          (c', x) = uadd64_overflow x y;
          c = (c \<or> c')
      in (x, c))"

definition usub64_borrow :: "u64 \<Rightarrow> u64 \<Rightarrow> bool \<Rightarrow> u64 \<times> bool" where
  "usub64_borrow x y pborrow =
     (let b = pborrow;
          (b, x) = usub64_overflow x (of_bool b);
          (b', x) = usub64_overflow x y;
          b = (b \<or> b')
      in (x, b))"

section \<open>Multiplication and division\<close>

text \<open>With the 128-bit type of the compiler; the results are the low and the high half.\<close>

definition mulu64 :: "u64 \<Rightarrow> u64 \<Rightarrow> u64 \<times> u64" where
  "mulu64 a b = (let r = (ucast a :: u128) * ucast b in (ucast r, ucast (drop_bit 64 r)))"

definition muls64 :: "u64 \<Rightarrow> u64 \<Rightarrow> u64 \<times> u64" where
  "muls64 a b = (let r = (scast a :: u128) * scast b in (ucast r, ucast (signed_drop_bit 64 r)))"

text \<open>The operands are below \<open>2 ^ 97\<close>, so that the signed division of the code is the unsigned one.\<close>

definition muldiv64 :: "u64 \<Rightarrow> u32 \<Rightarrow> u32 \<Rightarrow> u64" where
  "muldiv64 a b c = ucast ((ucast a :: u128) * ucast b div ucast c)"

definition muldiv64_round_up :: "u64 \<Rightarrow> u32 \<Rightarrow> u32 \<Rightarrow> u64" where
  "muldiv64_round_up a b c = ucast (((ucast a :: u128) * ucast b + ucast c - 1) div ucast c)"

definition divu128 :: "u64 \<Rightarrow> u64 \<Rightarrow> u64 \<Rightarrow> u64 \<times> u64 \<times> u64" where
  "divu128 low high divisor =
     (let dividend = push_bit 64 (ucast high :: u128) OR ucast low;
          result = dividend div ucast divisor
      in (ucast (dividend mod ucast divisor), ucast result, ucast (drop_bit 64 result)))"

text \<open>The version without the 128-bit type; the union is its low and its high word.\<close>

definition muldiv64_rounding :: "u64 \<Rightarrow> u32 \<Rightarrow> u32 \<Rightarrow> bool \<Rightarrow> u64" where
  "muldiv64_rounding a b c round_up =
     (let u_low = (ucast a :: u32); u_high = (ucast (drop_bit 32 a) :: u32);
          rl = (ucast u_low :: u64) * ucast b;
          rl = (if round_up then rl + ucast (c - 1) else rl);
          rh = (ucast u_high :: u64) * ucast b;
          rh = rh + drop_bit 32 rl;
          res_high = (ucast (rh div ucast c) :: u32);
          res_low = (ucast ((push_bit 32 (rh mod ucast c) + (rl AND 0xffffffff)) div ucast c) :: u32)
      in push_bit 32 (ucast res_high) OR ucast res_low)"

definition mulu128 :: "u64 \<Rightarrow> u64 \<Rightarrow> u64 \<Rightarrow> bool \<times> u64 \<times> u64" where
  "mulu128 low high factor =
     (let dhi = high; dlo = low in
      if dhi = 0 then let (low, high) = mulu64 dlo factor in (False, low, high)
      else let (low, ahi) = mulu64 dlo factor;
               (blo, bhi) = mulu64 dhi factor;
               (overflow, high) = uadd64_overflow ahi blo
           in (overflow \<or> bhi \<noteq> 0, low, high))"

text \<open>
  \<^verbatim>\<open>udiv_qrnnd\<close>, in the version without inline assembly. One half of the computation,
  which the code has twice: one quotient digit of 32 bits and its remainder.
\<close>

definition udiv_digit :: "u64 \<Rightarrow> u64 \<Rightarrow> u64 \<Rightarrow> u64 \<Rightarrow> u64 \<Rightarrow> u64 \<times> u64" where
  "udiv_digit n1 x d d1 d0 =
     (let r1 = n1 mod d1;
          q1 = n1 div d1;
          m = q1 * d0;
          r1 = push_bit 32 r1 OR x;
          (q1, r1) =
            (if r1 < m then
               let q1 = q1 - 1; r1 = r1 + d in
               if r1 \<ge> d \<and> r1 < m then (q1 - 1, r1 + d) else (q1, r1)
             else (q1, r1))
      in (q1, r1 - m))"

definition udiv_qrnnd :: "u64 \<Rightarrow> u64 \<Rightarrow> u64 \<Rightarrow> u64 \<times> u64" where
  "udiv_qrnnd n1 n0 d =
     (let d0 = ucast (ucast d :: u32); d1 = drop_bit 32 d;
          (q1, r1) = udiv_digit n1 (drop_bit 32 n0) d d1 d0;
          (q0, r0) = udiv_digit r1 (ucast (ucast n0 :: u32)) d d1 d0
      in (push_bit 32 q1 OR q0, r0))"

section \<open>Counting and reversing bits\<close>

fun clz64_from :: "nat \<Rightarrow> u64 \<Rightarrow> nat" where
  "clz64_from 0 v = 64"
| "clz64_from (Suc k) v = (if bit v k then 63 - k else clz64_from k v)"

definition clz64 :: "u64 \<Rightarrow> nat" where
  "clz64 v = clz64_from 64 v"

definition clo64 :: "u64 \<Rightarrow> nat" where
  "clo64 v = clz64 (NOT v)"

definition bswap16 :: "u16 \<Rightarrow> u16" where
  "bswap16 x = push_bit 8 x OR drop_bit 8 x"

definition bswap32 :: "u32 \<Rightarrow> u32" where
  "bswap32 x = push_bit 24 x OR (push_bit 8 x AND 0xff0000) OR (drop_bit 8 x AND 0xff00) OR drop_bit 24 x"

definition bswap64 :: "u64 \<Rightarrow> u64" where
  "bswap64 x = push_bit 32 (ucast (bswap32 (ucast x))) OR ucast (bswap32 (ucast (drop_bit 32 x)))"

definition revbit8 :: "u8 \<Rightarrow> u8" where
  "revbit8 x =
     (let x = drop_bit 4 (x AND 0xf0) OR push_bit 4 (x AND 0x0f)
      in drop_bit 3 (x AND 0x88) OR drop_bit 1 (x AND 0x44) OR push_bit 1 (x AND 0x22) OR push_bit 3 (x AND 0x11))"

definition revbit16 :: "u16 \<Rightarrow> u16" where
  "revbit16 x =
     (let x = bswap16 x;
          x = drop_bit 4 (x AND 0xf0f0) OR push_bit 4 (x AND 0x0f0f)
      in drop_bit 3 (x AND 0x8888) OR drop_bit 1 (x AND 0x4444) OR push_bit 1 (x AND 0x2222) OR push_bit 3 (x AND 0x1111))"

definition revbit32 :: "u32 \<Rightarrow> u32" where
  "revbit32 x =
     (let x = bswap32 x;
          x = drop_bit 4 (x AND 0xf0f0f0f0) OR push_bit 4 (x AND 0x0f0f0f0f)
      in drop_bit 3 (x AND 0x88888888) OR drop_bit 1 (x AND 0x44444444) OR
         push_bit 1 (x AND 0x22222222) OR push_bit 3 (x AND 0x11111111))"

definition revbit64 :: "u64 \<Rightarrow> u64" where
  "revbit64 x =
     (let x = bswap64 x;
          x = drop_bit 4 (x AND 0xf0f0f0f0f0f0f0f0) OR push_bit 4 (x AND 0x0f0f0f0f0f0f0f0f)
      in drop_bit 3 (x AND 0x8888888888888888) OR drop_bit 1 (x AND 0x4444444444444444) OR
         push_bit 1 (x AND 0x2222222222222222) OR push_bit 3 (x AND 0x1111111111111111))"

section \<open>Powers of two\<close>

definition is_power_of_2 :: "u64 \<Rightarrow> bool" where
  "is_power_of_2 v = (if v = 0 then False else v AND (v - 1) = 0)"

definition pow2floor :: "u64 \<Rightarrow> u64" where
  "pow2floor v = (if v = 0 then 0 else drop_bit (clz64 v) 0x8000000000000000)"

definition pow2ceil :: "u64 \<Rightarrow> u64" where
  "pow2ceil v =
     (let n = clz64 (v - 1) in
      if n = 0 then of_bool (v = 0) else drop_bit (n - 1) 0x8000000000000000)"

definition pow2roundup32 :: "u32 \<Rightarrow> u32" where
  "pow2roundup32 x =
     (let x = x OR drop_bit 1 x; x = x OR drop_bit 2 x; x = x OR drop_bit 4 x;
          x = x OR drop_bit 8 x; x = x OR drop_bit 16 x
      in x + 1)"

section \<open>Carries and products\<close>

definition val128 :: "u64 \<Rightarrow> u64 \<Rightarrow> nat" where
  "val128 hi lo = unat hi * 2 ^ 64 + unat lo"

lemma unat64_less: "unat (x :: u64) < 18446744073709551616"
  using unsigned_less [where ?'a = nat, of x] by simp

lemma unat32_less: "unat (x :: u32) < 4294967296"
  using unsigned_less [where ?'a = nat, of x] by simp

lemma val128_less: "val128 hi lo < 2 ^ 128"
proof -
  have "unat hi * 2 ^ 64 + unat lo < (unat hi + 1) * 2 ^ 64"
    using unat64_less [of lo] by simp
  also have "\<dots> \<le> 2 ^ 64 * 2 ^ 64"
    using unat64_less [of hi] by (intro mult_right_mono) simp_all
  finally show ?thesis
    by (simp add: val128_def)
qed

lemma unat_add64: "unat (x + y) + 2 ^ 64 * of_bool (2 ^ 64 \<le> unat x + unat y) = unat x + unat y" for x y :: u64
  using unat64_less [of x] unat64_less [of y] by (auto simp: unat_word_ariths mod_if)

lemma unat_sub64: "unat (x - y) + unat y = unat x + 2 ^ 64 * of_bool (unat x < unat y)" for x y :: u64
proof (cases "unat x < unat y")
  case True
  then have "unat (x - y) = unat x + 2 ^ 64 - unat y"
    by (simp add: unat_sub_if_size word_size)
  then show ?thesis
    using True unat64_less [of y] by simp
next
  case False
  then have "unat (x - y) = unat x - unat y"
    by (simp add: unat_sub_if_size)
  then show ?thesis
    using False by simp
qed

lemma uadd64_carry_exact:
  assumes "uadd64_carry x y c = (z, c')"
  shows "unat z + 2 ^ 64 * of_bool c' = unat x + unat y + of_bool c"
proof -
  define x1 where "x1 = x + of_bool c"
  have z: "z = x1 + y" and c': "c' = (2 ^ 64 \<le> unat x + unat (of_bool c :: u64) \<or> 2 ^ 64 \<le> unat x1 + unat y)"
    using assms by (auto simp: uadd64_carry_def uadd64_overflow_def x1_def)
  have c: "unat (of_bool c :: u64) = of_bool c"
    by simp
  have 1: "unat x1 + 2 ^ 64 * of_bool (2 ^ 64 \<le> unat x + of_bool c) = unat x + of_bool c"
    using unat_add64 [of x "of_bool c"] by (simp add: x1_def c)
  have 2: "unat z + 2 ^ 64 * of_bool (2 ^ 64 \<le> unat x1 + unat y) = unat x1 + unat y"
    using unat_add64 [of x1 y] by (simp add: z)
  show ?thesis
  proof (cases "2 ^ 64 \<le> unat x + of_bool c")
    case True
    then have "unat x1 = 0"
      using 1 unat64_less [of x] by (cases c) auto
    then show ?thesis
      using 1 2 True c' c unat64_less [of y] by simp
  next
    case False
    then show ?thesis
      using 1 2 c' c by simp
  qed
qed

lemma usub64_borrow_exact:
  assumes "usub64_borrow x y b = (z, b')"
  shows "unat z + unat y + of_bool b = unat x + 2 ^ 64 * of_bool b'"
proof -
  define x1 where "x1 = x - of_bool b"
  have z: "z = x1 - y" and b': "b' = (unat x < unat (of_bool b :: u64) \<or> unat x1 < unat y)"
    using assms by (auto simp: usub64_borrow_def usub64_overflow_def x1_def)
  have b: "unat (of_bool b :: u64) = of_bool b"
    by simp
  have 1: "unat x1 + of_bool b = unat x + 2 ^ 64 * of_bool (unat x < of_bool b)"
    using unat_sub64 [of x "of_bool b"] by (simp add: x1_def b)
  have 2: "unat z + unat y = unat x1 + 2 ^ 64 * of_bool (unat x1 < unat y)"
    using unat_sub64 [of x1 y] by (simp add: z)
  show ?thesis
  proof (cases "unat x < of_bool b")
    case True
    then have "unat x = 0" "b"
      by (cases b; simp)+
    then show ?thesis
      using 1 2 b' b unat64_less [of y] by auto
  next
    case False
    then show ?thesis
      using 1 2 b' b by simp
  qed
qed

lemma mulu64_exact:
  assumes "mulu64 a b = (low, high)"
  shows "val128 high low = unat a * unat b"
proof -
  define r :: u128 where "r = ucast a * ucast b"
  have "unat a * unat b \<le> (2 ^ 64 - 1) * (2 ^ 64 - 1)"
    using unat64_less [of a] unat64_less [of b] by (intro mult_le_mono) simp_all
  then have r: "unat r = unat a * unat b"
    by (simp add: r_def unat_word_ariths unat_ucast_up)
  have "low = ucast r" "high = ucast (drop_bit 64 r)"
    using assms by (auto simp: mulu64_def r_def Let_def)
  moreover have "unat (ucast r :: u64) = unat r mod 2 ^ 64"
    by (simp add: unsigned_ucast_eq take_bit_eq_mod)
  moreover have "unat (ucast (drop_bit 64 r) :: u64) = unat r div 2 ^ 64"
    using unsigned_less [where ?'a = nat, of r]
    by (simp add: unsigned_ucast_eq take_bit_eq_mod unat_drop_bit less_mult_imp_div_less)
  ultimately show ?thesis
    using r by (simp add: val128_def)
qed

lemma unat_ucast64_32: "unat (ucast (x :: u64) :: u32) = unat x mod 2 ^ 32"
  by (simp add: unsigned_ucast_eq take_bit_eq_mod)

lemma unat_ucast128_64: "unat (ucast (x :: u128) :: u64) = unat x mod 2 ^ 64"
  by (simp add: unsigned_ucast_eq take_bit_eq_mod)

lemma unat_join32:
  "unat (push_bit 32 (ucast hi) OR ucast lo :: u64) = unat hi * 2 ^ 32 + unat lo" for hi lo :: u32
proof -
  have "unat hi * 2 ^ 32 + unat lo < 2 ^ 64"
    using unat32_less [of hi] unat32_less [of lo] by simp
  then show ?thesis
    using unat_concat [of "ucast lo :: u64" 32 "ucast hi"] unat32_less [of lo] by (simp add: unat_ucast_up)
qed

lemma and_ffffffff: "x AND 0xffffffff = take_bit 32 x" for x :: u64
  by (simp add: take_bit_eq_mask mask_eq_exp_minus_1)

text \<open>Long division of a number of three digits by one of one digit, a digit at a time.\<close>

lemma div_by_digits:
  fixes h l c B :: nat
  shows "(h * B + l) div c = (h div c) * B + (h mod c * B + l) div c"
proof (cases "c = 0")
  case False
  have "h * B + l = c * (h div c * B) + (h mod c * B + l)"
    by (metis (no_types, lifting) add.assoc add_mult_distrib2 mult.assoc mult.commute mult_div_mod_eq)
  moreover have "(c * k + r) div c = k + r div c" for k r
    using False by simp
  ultimately show ?thesis
    by metis
qed simp

lemma digit_bound:
  fixes h l c B :: nat
  assumes "l < B" and "0 < c"
  shows "h mod c * B + l < c * B"
proof -
  have "h mod c * B + l < (h mod c + 1) * B"
    using assms by simp
  also have "\<dots> \<le> c * B"
    using assms by (intro mult_right_mono) (simp_all add: Suc_leI)
  finally show ?thesis .
qed

lemma muldiv64_rounding_exact:
  assumes "c \<noteq> 0"
  shows "unat (muldiv64_rounding a b c up) =
    (unat a * unat b + (if up then unat c - 1 else 0)) div unat c mod 2 ^ 64"
proof -
  define e where "e = (if up then unat c - 1 else 0)"
  define al where "al = unat a mod 2 ^ 32"
  define ah where "ah = unat a div 2 ^ 32"
  have c: "0 < unat c"
    using assms by (simp add: unat_gt_0)
  have small: "al \<le> 2 ^ 32 - 1" "ah \<le> 2 ^ 32 - 1" "unat b \<le> 2 ^ 32 - 1" "e \<le> 2 ^ 32 - 2" "unat c \<le> 2 ^ 32 - 1"
    using unat64_less [of a] unat32_less [of b] unat32_less [of c] by (auto simp: al_def ah_def e_def)
  have "al * unat b \<le> (2 ^ 32 - 1) * (2 ^ 32 - 1)" "ah * unat b \<le> (2 ^ 32 - 1) * (2 ^ 32 - 1)"
    using small by (simp_all only: mult_le_mono)
  then have prod: "al * unat b + e < 2 ^ 64" "ah * unat b + (al * unat b + e) div 2 ^ 32 < 2 ^ 64"
    using small by auto
  define rl :: u64 where "rl = (let rl = ucast (ucast a :: u32) * ucast b in if up then rl + ucast (c - 1) else rl)"
  define rh :: u64 where "rh = ucast (ucast (drop_bit 32 a) :: u32) * ucast b + drop_bit 32 rl"
  have c1: "unat (c - 1) = unat c - 1"
    using assms by (simp add: unat_minus_one)
  have rl: "unat rl = al * unat b + e"
    using prod(1) c1 by (auto simp: rl_def e_def al_def unat_word_ariths unat_ucast_up unat_ucast64_32)
  have rh: "unat rh = ah * unat b + unat rl div 2 ^ 32"
    using prod(2) unat64_less [of a]
    by (simp add: rh_def rl ah_def unat_word_ariths unat_ucast_up unat_ucast64_32 unat_drop_bit less_mult_imp_div_less)
  define t :: u64 where "t = push_bit 32 (rh mod ucast c) + take_bit 32 rl"
  have bound: "unat rh mod unat c * 2 ^ 32 + unat rl mod 2 ^ 32 < unat c * 2 ^ 32"
    by (rule digit_bound) (simp_all add: c)
  also have "\<dots> \<le> 2 ^ 64"
    using small(5) by simp
  finally have t: "unat t = unat rh mod unat c * 2 ^ 32 + unat rl mod 2 ^ 32"
    by (simp add: t_def unat_word_ariths unat_take_bit unat_push_bit_small unat_mod_distrib unat_ucast_up)
  have low: "unat t div unat c < 2 ^ 32"
    using bound c by (simp add: t less_mult_imp_div_less mult.commute)
  have "muldiv64_rounding a b c up = push_bit 32 (ucast (ucast (rh div ucast c) :: u32)) OR ucast (ucast (t div ucast c) :: u32)"
    by (simp add: muldiv64_rounding_def rl_def rh_def t_def Let_def and_ffffffff)
  then have "unat (muldiv64_rounding a b c up) = unat rh div unat c mod 2 ^ 32 * 2 ^ 32 + unat t div unat c"
    using low by (simp add: unat_join32 unat_ucast64_32 unat_div_distrib unat_ucast_up)
  also have "\<dots> = (unat rh div unat c * 2 ^ 32 + unat t div unat c) mod 2 ^ 64"
    using low mod_mult2_eq [of "unat rh div unat c * 2 ^ 32 + unat t div unat c" "2 ^ 32" "2 ^ 32"] by simp
  also have "unat rh div unat c * 2 ^ 32 + unat t div unat c = (unat rh * 2 ^ 32 + unat rl mod 2 ^ 32) div unat c"
    unfolding t by (rule div_by_digits [symmetric])
  also have "unat rh * 2 ^ 32 + unat rl mod 2 ^ 32 = ah * unat b * 2 ^ 32 + unat rl"
    by (simp add: rh algebra_simps)
  also have "\<dots> = unat a * unat b + e"
    unfolding rl using arg_cong [OF div_mult_mod_eq [of "unat a" "2 ^ 32", folded al_def ah_def], of "\<lambda>x. x * unat b"]
    by (simp add: algebra_simps)
  finally show ?thesis
    by (simp add: e_def)
qed

lemma muldiv64_exact:
  assumes "c \<noteq> 0"
  shows "unat (muldiv64 a b c) = unat a * unat b div unat c mod 2 ^ 64"
    and "unat (muldiv64_round_up a b c) = (unat a * unat b + (unat c - 1)) div unat c mod 2 ^ 64"
proof -
  have "unat a * unat b \<le> (2 ^ 64 - 1) * (2 ^ 32 - 1)"
    using unat64_less [of a] unat32_less [of b] by (intro mult_le_mono) simp_all
  then have prod: "unat a * unat b + unat c < 2 ^ 128"
    using unat32_less [of c] by simp
  have c: "0 < unat c"
    using assms by (simp add: unat_gt_0)
  define r :: u128 where "r = ucast a * ucast b"
  have r: "unat r = unat a * unat b"
    using prod by (simp add: r_def unat_word_ariths unat_ucast_up)
  show "unat (muldiv64 a b c) = unat a * unat b div unat c mod 2 ^ 64"
    by (simp add: muldiv64_def r_def [symmetric] unat_ucast128_64 unat_div_distrib unat_ucast_up r)
  have rc: "unat (r + ucast c) = unat a * unat b + unat c"
    using prod by (simp add: unat_word_ariths unat_ucast_up r)
  then have "unat (r + ucast c - 1) = unat a * unat b + (unat c - 1)"
    using c by (subst unat_minus_one) (auto simp: unat_eq_0 [symmetric])
  then show "unat (muldiv64_round_up a b c) = (unat a * unat b + (unat c - 1)) div unat c mod 2 ^ 64"
    by (simp add: muldiv64_round_up_def r_def [symmetric] unat_ucast128_64 unat_div_distrib unat_ucast_up)
qed

text \<open>
  Scaling a 64-bit count by a fraction of 32-bit numbers, as the timers do, is exact: the
  version that works with two 32-bit digits agrees with the one that uses a 128-bit product, for
  rounding down and for rounding up, and both are the integer quotient modulo \<open>2 ^ 64\<close>.
\<close>

theorem muldiv64_versions_agree:
  assumes "c \<noteq> 0"
  shows "muldiv64_rounding a b c False = muldiv64 a b c \<and> muldiv64_rounding a b c True = muldiv64_round_up a b c \<and>
    unat (muldiv64 a b c) = unat a * unat b div unat c mod 2 ^ 64"
  using muldiv64_exact [OF assms, of a b] muldiv64_rounding_exact [OF assms, of a b]
  by (simp add: word_unat_eq_iff)

theorem muldiv64_versions_agree_witness:
  "(3 :: u32) \<noteq> 0 \<and> muldiv64_rounding 0xffffffffffffffff 10 3 False = muldiv64 0xffffffffffffffff 10 3"
  using muldiv64_versions_agree [of 3 "0xffffffffffffffff" 10] by simp

lemma mulu128_exact:
  assumes "mulu128 low high factor = (truncated, low', high')"
  shows "truncated = (2 ^ 128 \<le> val128 high low * unat factor) \<and>
    val128 high' low' = val128 high low * unat factor mod 2 ^ 128"
proof -
  obtain l1 h1 where 1: "mulu64 low factor = (l1, h1)"
    by (cases "mulu64 low factor")
  obtain l2 h2 where 2: "mulu64 high factor = (l2, h2)"
    by (cases "mulu64 high factor")
  note e1 = mulu64_exact [OF 1, unfolded val128_def] and e2 = mulu64_exact [OF 2, unfolded val128_def]
  have total: "val128 high low * unat factor = unat h2 * 2 ^ 128 + (unat l2 + unat h1) * 2 ^ 64 + unat l1"
    using e1 e2 by (simp add: val128_def algebra_simps)
  show ?thesis
  proof (cases "high = 0")
    case True
    then have "h2 = 0" "l2 = 0"
      using e2 by (simp_all add: unat_eq_0 [symmetric])
    moreover have "val128 h1 l1 < 2 ^ 128"
      by (rule val128_less)
    ultimately show ?thesis
      using assms True 1 total by (simp add: mulu128_def val128_def)
  next
    case False
    then have out: "truncated = (2 ^ 64 \<le> unat h1 + unat l2 \<or> h2 \<noteq> 0)" "low' = l1" "high' = h1 + l2"
      using assms 1 2 by (auto simp: mulu128_def uadd64_overflow_def)
    have sum: "unat (h1 + l2) + 2 ^ 64 * of_bool (2 ^ 64 \<le> unat h1 + unat l2) = unat h1 + unat l2"
      by (rule unat_add64)
    define k where "k = unat h2 + of_bool (2 ^ 64 \<le> unat h1 + unat l2)"
    have "unat h2 * 2 ^ 128 + (unat l2 + unat h1) * 2 ^ 64 + unat l1 = k * 2 ^ 128 + (unat (h1 + l2) * 2 ^ 64 + unat l1)"
      unfolding k_def using sum by (cases "2 ^ 64 \<le> unat h1 + unat l2") (simp_all add: algebra_simps)
    then have "val128 high low * unat factor = k * 2 ^ 128 + val128 high' low'"
      unfolding total out(2,3) by (simp add: val128_def)
    moreover have "k = 0 \<longleftrightarrow> \<not> truncated"
      by (auto simp: k_def out(1) unat_eq_0)
    ultimately show ?thesis
      using val128_less [of high' low'] by (cases "k = 0") auto
  qed
qed

section \<open>Division digit by digit\<close>

text \<open>
  The digit estimate of the classical division algorithm: the quotient by the leading digit of a
  normalised divisor is at most two too large.
\<close>

lemma digit_estimate:
  fixes n d d1 d0 x B :: nat
  assumes d: "d = d1 * B + d0" and "d0 < B" and "B \<le> 2 * d1" and "n < d" and "x < B"
  shows "(n * B + x) div d \<le> n div d1" and "n div d1 \<le> (n * B + x) div d + 2"
    and "(n div d1) * d0 < B * B"
proof -
  define q where "q = (n * B + x) div d"
  define qe where "qe = n div d1"
  have pos: "0 < d1" "0 < B" "0 < d"
    using assms by auto
  have "q * d \<le> n * B + x"
    unfolding q_def by (metis div_mult_mod_eq le_add1)
  also have "\<dots> < (n + 1) * B"
    using assms(5) by simp
  finally have "q * d1 * B < (n + 1) * B"
    using d by (simp add: algebra_simps)
  then have "q * d1 < n + 1"
    by (metis mult_less_cancel2)
  then show "(n * B + x) div d \<le> n div d1"
    unfolding q_def [symmetric] using pos(1) by (simp add: less_eq_div_iff_mult_less_eq)
  have qe: "qe * d1 \<le> n"
    unfolding qe_def by (metis div_mult_mod_eq le_add1)
  have "qe \<le> B + 1"
  proof (rule ccontr)
    assume "\<not> qe \<le> B + 1"
    then have "(B + 2) * d1 \<le> qe * d1"
      by (intro mult_right_mono) simp_all
    then have "(B + 2) * d1 < d1 * B + d0"
      using qe assms(4) d by linarith
    then show False
      using assms(2,3) by (simp add: algebra_simps)
  qed
  then have "qe * d0 \<le> (B + 1) * (B - 1)"
    using assms(2) by (intro mult_le_mono) simp_all
  also have "\<dots> < B * B"
    using pos(2) by (simp add: algebra_simps)
  finally show "n div d1 * d0 < B * B"
    unfolding qe_def .
  show "n div d1 \<le> (n * B + x) div d + 2"
  proof (rule ccontr)
    assume "\<not> n div d1 \<le> (n * B + x) div d + 2"
    then have "q + 3 \<le> qe"
      by (simp add: q_def qe_def)
    have "n * B + x < (q + 1) * d"
      unfolding q_def using pos(3) by (metis Suc_eq_plus1 dividend_less_div_times mult.commute mult_Suc)
    moreover have "qe * d \<le> n * B + qe * d0"
      using mult_right_mono [OF qe, of B] d by (simp add: algebra_simps)
    ultimately have "(q + 3) * d < (q + 1) * d + qe * d0"
      using mult_le_mono1 [OF \<open>q + 3 \<le> qe\<close>, of d] by linarith
    then have "2 * d < B * B"
      using \<open>qe * d0 \<le> (B + 1) * (B - 1)\<close> \<open>(B + 1) * (B - 1) < B * B\<close> by (simp add: algebra_simps)
    moreover have "B * B \<le> 2 * d"
      using mult_le_mono1 [OF assms(3), of B] d by linarith
    ultimately show False
      by simp
  qed
qed

lemma digit_quotient_less:
  fixes n x d B :: nat
  assumes "n < d" and "x < B"
  shows "(n * B + x) div d < B"
proof -
  have "n * B + x < (n + 1) * B"
    using assms(2) by simp
  also have "\<dots> \<le> d * B"
    using assms(1) by (intro mult_right_mono) simp_all
  finally show ?thesis
    by (simp add: less_mult_imp_div_less mult.commute)
qed

lemma unat_of_nat64: "k < 2 ^ 64 \<Longrightarrow> unat (of_nat k :: u64) = k"
  by (simp add: unsigned_of_nat take_bit_nat_eq_self)

lemma udiv_digit_exact:
  fixes n1 x d d1 d0 :: u64
  assumes d: "unat d = unat d1 * 2 ^ 32 + unat d0" and d0: "unat d0 < 2 ^ 32" and norm: "2 ^ 31 \<le> unat d1"
    and n1: "unat n1 < unat d" and x: "unat x < 2 ^ 32"
  shows "udiv_digit n1 x d d1 d0 =
    (of_nat ((unat n1 * 2 ^ 32 + unat x) div unat d), of_nat ((unat n1 * 2 ^ 32 + unat x) mod unat d))"
proof -
  define N where "N = unat n1 * 2 ^ 32 + unat x"
  define Q where "Q = N div unat d"
  define R where "R = N mod unat d"
  define qw where "qw = n1 div d1"
  define mw where "mw = qw * d0"
  define rw where "rw = push_bit 32 (n1 mod d1) OR x"
  have d1: "unat d1 < 2 ^ 32"
    using d unat64_less [of d] by simp
  have "2 ^ 32 \<le> 2 * unat d1"
    using norm by simp
  note est = digit_estimate [OF d d0 this n1 x]
  have qw: "unat qw = unat n1 div unat d1"
    by (simp add: qw_def unat_div_distrib)
  have mw: "unat mw = unat qw * unat d0"
    using est(3) norm by (simp add: mw_def unat_word_ariths qw)
  have "unat (n1 mod d1) < unat d1"
    using norm by (simp add: unat_mod_distrib)
  then have rw: "unat rw = unat n1 mod unat d1 * 2 ^ 32 + unat x"
    using d1 x unat_concat [of x 32 "n1 mod d1"] by (simp add: rw_def unat_mod_distrib)
  define k where "k = unat qw - Q"
  have k: "unat qw = Q + k" "k \<le> 2"
    using est(1,2) by (simp_all add: k_def qw Q_def N_def)
  have QR: "N = Q * unat d + R" "R < unat d"
    using n1 by (simp_all add: Q_def R_def)
  have "N = unat qw * unat d1 * 2 ^ 32 + unat rw"
    unfolding N_def rw qw by (metis (no_types, lifting) add.assoc add_mult_distrib div_mult_mod_eq)
  then have eq: "unat rw + k * unat d = R + unat mw"
    using QR(1) by (simp add: mw k(1) d algebra_simps)
  from arg_cong [OF this, of "of_nat :: nat \<Rightarrow> u64"] have weq: "rw + of_nat k * d - mw = of_nat R"
    by (simp add: algebra_simps)
  have weq': "qw - of_nat k = of_nat Q"
    using arg_cong [OF k(1), of "of_nat :: nat \<Rightarrow> u64"] by (simp add: algebra_simps)
  have step: "udiv_digit n1 x d d1 d0 =
      (if rw < mw then if rw + d \<ge> d \<and> rw + d < mw then (qw - 1 - 1, rw + d + d - mw) else (qw - 1, rw + d - mw)
       else (qw, rw - mw))"
    by (simp add: udiv_digit_def qw_def mw_def rw_def Let_def)
  consider "k = 0" | "k = 1" | "k = 2"
    using k(2) by linarith
  then show ?thesis
  proof cases
    case 1
    then have "\<not> rw < mw"
      using eq by (simp add: word_less_nat_alt)
    then show ?thesis
      using weq weq' 1 by (simp add: step Q_def R_def N_def)
  next
    case 2
    then have "rw < mw"
      using eq QR(2) by (simp add: word_less_nat_alt)
    moreover have "\<not> (rw + d \<ge> d \<and> rw + d < mw)"
      using unat_add64 [of rw d] eq 2 unat64_less [of rw] by (auto simp: word_less_nat_alt word_le_nat_alt of_bool_def split: if_splits)
    ultimately show ?thesis
      using weq weq' 2 by (simp add: step Q_def R_def N_def)
  next
    case 3
    then have "rw < mw" and sum: "unat rw + unat d < unat mw"
      using eq QR(2) by (simp_all add: word_less_nat_alt)
    moreover have "unat (rw + d) = unat rw + unat d"
      using unat_add64 [of rw d] sum unat64_less [of mw] by (simp split: if_splits)
    ultimately have "rw < mw" "rw + d \<ge> d" "rw + d < mw"
      by (simp_all add: word_less_nat_alt word_le_nat_alt)
    then show ?thesis
      using weq weq' 3 by (simp add: step Q_def R_def N_def algebra_simps)
  qed
qed

text \<open>
  The division of a 128-bit number by a normalised 64-bit divisor, done with 32-bit digits,
  gives the exact quotient and remainder, whenever the quotient fits 64 bits.
\<close>

theorem udiv_qrnnd_exact:
  assumes "2 ^ 63 \<le> unat d" and "n1 < d"
  shows "udiv_qrnnd n1 n0 d = (of_nat (val128 n1 n0 div unat d), of_nat (val128 n1 n0 mod unat d)) \<and>
    val128 n1 n0 div unat d < 2 ^ 64"
proof -
  define d0 :: u64 where "d0 = ucast (ucast d :: u32)"
  define d1 where "d1 = drop_bit 32 d"
  have d0: "unat d0 = unat d mod 2 ^ 32" and d1: "unat d1 = unat d div 2 ^ 32"
    by (simp_all add: d0_def d1_def unat_ucast_up unat_ucast64_32 unat_drop_bit)
  have d: "unat d = unat d1 * 2 ^ 32 + unat d0"
    unfolding d0 d1 by (simp add: mult.commute)
  have norm: "2 ^ 31 \<le> unat d1"
    using div_le_mono [OF assms(1), of "2 ^ 32"] by (simp add: d1)
  define hi lo where "hi = unat n0 div 2 ^ 32" and "lo = unat n0 mod 2 ^ 32"
  have halves: "unat (drop_bit 32 n0) = hi" "unat (ucast (ucast n0 :: u32) :: u64) = lo"
    by (simp_all add: hi_def lo_def unat_drop_bit unat_ucast_up unat_ucast64_32)
  have small: "hi < 2 ^ 32" "lo < 2 ^ 32"
    using unat64_less [of n0] by (simp_all add: hi_def lo_def)
  have d0_less: "unat d0 < 2 ^ 32"
    by (simp add: d0)
  have n1: "unat n1 < unat d"
    using assms(2) by (simp add: word_less_nat_alt)
  define N1 where "N1 = unat n1 * 2 ^ 32 + hi"
  define r1 :: u64 where "r1 = of_nat (N1 mod unat d)"
  have r1: "unat r1 = N1 mod unat d"
    unfolding r1_def using n1 less_trans [OF mod_less_divisor unat64_less [of d]] by (intro unat_of_nat64) simp
  then have "unat r1 < unat d"
    using n1 by simp
  define N0 where "N0 = unat r1 * 2 ^ 32 + lo"
  have "udiv_digit n1 (drop_bit 32 n0) d d1 d0 = (of_nat (N1 div unat d), r1)"
    unfolding r1_def N1_def halves(1) [symmetric]
    by (rule udiv_digit_exact [OF d d0_less norm n1]) (simp only: halves small)
  moreover have "udiv_digit r1 (ucast (ucast n0 :: u32)) d d1 d0 = (of_nat (N0 div unat d), of_nat (N0 mod unat d))"
    unfolding N0_def halves(2) [symmetric]
    by (rule udiv_digit_exact [OF d d0_less norm \<open>unat r1 < unat d\<close>]) (simp only: halves small)
  ultimately have udiv: "udiv_qrnnd n1 n0 d = (push_bit 32 (of_nat (N1 div unat d)) OR of_nat (N0 div unat d), of_nat (N0 mod unat d))"
    by (simp add: udiv_qrnnd_def d0_def [symmetric] d1_def [symmetric])
  have N: "val128 n1 n0 = N1 * 2 ^ 32 + lo"
    using div_mult_mod_eq [of "unat n0" "2 ^ 32"] by (simp add: val128_def N1_def hi_def lo_def algebra_simps)
  have quot: "val128 n1 n0 div unat d = N1 div unat d * 2 ^ 32 + N0 div unat d"
    unfolding N N0_def r1 by (rule div_by_digits)
  have rem: "val128 n1 n0 mod unat d = N0 mod unat d"
    unfolding N N0_def r1 by (metis (no_types, lifting) mod_add_cong mod_mult_left_eq)
  have q1: "N1 div unat d < 2 ^ 32" and q0: "N0 div unat d < 2 ^ 32"
    unfolding N1_def N0_def using n1 \<open>unat r1 < unat d\<close> small by (simp_all only: digit_quotient_less)
  have fits: "val128 n1 n0 div unat d < 2 ^ 64"
    unfolding quot using q1 q0 by simp
  have "unat (push_bit 32 (of_nat (N1 div unat d)) OR of_nat (N0 div unat d) :: u64) = N1 div unat d * 2 ^ 32 + N0 div unat d"
    using unat_concat [of "of_nat (N0 div unat d) :: u64" 32 "of_nat (N1 div unat d)"] q1 q0 by (simp add: unat_of_nat64)
  then have "push_bit 32 (of_nat (N1 div unat d)) OR of_nat (N0 div unat d) = (of_nat (val128 n1 n0 div unat d) :: u64)"
    by (simp only: word_unat_eq_iff unat_of_nat64 [OF fits [unfolded quot]] quot)
  then show ?thesis
    using fits by (simp add: udiv rem)
qed

theorem udiv_qrnnd_exact_witness:
  "2 ^ 63 \<le> unat (0xffffffffffffffff :: u64) \<and> (1 :: u64) < 0xffffffffffffffff \<and>
   udiv_qrnnd 1 5 0xffffffffffffffff = (1, 6)"
  using udiv_qrnnd_exact [of "0xffffffffffffffff" 1 5] by (simp add: val128_def)

section \<open>Bits reversed\<close>

lemma all_less_numeral: "n < k \<Longrightarrow> list_all P [0..<k] \<Longrightarrow> P n"
  by (simp add: list_all_iff)

lemma upt_numerals:
  "[0..<8] = [0, 1, 2, 3, 4, 5, 6, 7]"
  "[0..<16] = [0, 1, 2, 3, 4, 5, 6, 7, 8, 9, 10, 11, 12, 13, 14, 15]"
  "[0..<32] = [0, 1, 2, 3, 4, 5, 6, 7, 8, 9, 10, 11, 12, 13, 14, 15, 16, 17, 18, 19, 20, 21, 22, 23, 24, 25, 26, 27, 28, 29, 30, 31]"
  "[0..<64] = [0, 1, 2, 3, 4, 5, 6, 7, 8, 9, 10, 11, 12, 13, 14, 15, 16, 17, 18, 19, 20, 21, 22, 23, 24, 25, 26, 27, 28, 29, 30, 31, 32, 33, 34, 35, 36, 37, 38, 39, 40, 41, 42, 43, 44, 45, 46, 47, 48, 49, 50, 51, 52, 53, 54, 55, 56, 57, 58, 59, 60, 61, 62, 63]"
  by (simp_all add: upt_rec)

lemma no_bit:
  "8 \<le> n \<Longrightarrow> \<not> bit (x8 :: u8) n" "16 \<le> n \<Longrightarrow> \<not> bit (x16 :: u16) n"
  "32 \<le> n \<Longrightarrow> \<not> bit (x32 :: u32) n" "64 \<le> n \<Longrightarrow> \<not> bit (x64 :: u64) n"
  by (auto dest: bit_imp_le_length)

lemmas bit_shuffle = bit_or_iff bit_and_iff bit_push_bit_iff bit_drop_bit_eq o_def bit_unsigned_iff

lemma bit_revbit8: "n < 8 \<Longrightarrow> bit (revbit8 x) n = bit x (7 - n)"
  by (erule all_less_numeral) (simp only: upt_numerals list.pred_inject revbit8_def Let_def bit_shuffle, simp add: no_bit)

lemma bit_revbit32: "n < 32 \<Longrightarrow> bit (revbit32 x) n = bit x (31 - n)"
  by (erule all_less_numeral)
    (simp only: upt_numerals list.pred_inject revbit32_def bswap32_def Let_def bit_shuffle, simp add: no_bit)

lemma bit_revbit16: "n < 16 \<Longrightarrow> bit (revbit16 x) n = bit x (15 - n)"
  by (erule all_less_numeral)
    (simp only: upt_numerals list.pred_inject revbit16_def bswap16_def Let_def bit_shuffle, simp add: no_bit)

lemma bit_revbit64: "n < 64 \<Longrightarrow> bit (revbit64 x) n = bit x (63 - n)"
  by (erule all_less_numeral)
    (simp only: upt_numerals list.pred_inject revbit64_def bswap64_def bswap32_def Let_def bit_shuffle, simp add: no_bit)

section \<open>Powers of two\<close>

lemma bit_top_iff: "unat v < 2 ^ Suc k \<Longrightarrow> bit v k = (2 ^ k \<le> unat v)" for v :: u64
proof -
  assume less: "unat v < 2 ^ Suc k"
  have "bit v k = odd (unat v div 2 ^ k)"
    using bit_unsigned_iff [where ?'a = nat, of v k] by (auto simp: bit_iff_odd dest: bit_imp_le_length)
  moreover have "unat v div 2 ^ k < 2"
    using less by (simp add: less_mult_imp_div_less)
  moreover have "(0 < unat v div 2 ^ k) = (2 ^ k \<le> unat v)"
    by (simp add: div_greater_zero_iff)
  ultimately show ?thesis
    by (auto simp: less_2_cases_iff)
qed

lemma clz64_from_spec:
  "unat v < 2 ^ n \<Longrightarrow> n \<le> 64 \<Longrightarrow> v \<noteq> 0 \<Longrightarrow>
   clz64_from n v < 64 \<and> 2 ^ (63 - clz64_from n v) \<le> unat v \<and> unat v < 2 ^ (64 - clz64_from n v)"
proof (induction n)
  case (Suc k)
  show ?case
  proof (cases "bit v k")
    case True
    then show ?thesis
      using Suc.prems bit_top_iff [OF Suc.prems(1)] by (auto simp: Suc_diff_le)
  next
    case False
    then show ?thesis
      using Suc bit_top_iff [OF Suc.prems(1)] by simp
  qed
qed (simp add: unat_eq_0 [symmetric])

lemma clz64_spec:
  assumes "v \<noteq> 0"
  shows "clz64 v < 64" "2 ^ (63 - clz64 v) \<le> unat v" "unat v < 2 ^ (64 - clz64 v)"
  using clz64_from_spec [of v 64] unat64_less [of v] assms by (simp_all add: clz64_def)

lemma clz64_top: "bit v 63 \<Longrightarrow> clz64 v = 0"
proof -
  have "clz64 v = clz64_from (Suc 63) v"
    by (simp add: clz64_def)
  then show "bit v 63 \<Longrightarrow> ?thesis"
    by (simp only: clz64_from.simps if_True)
qed

lemma clz64_0: "clz64 0 = 64"
proof -
  have "clz64_from n 0 = 64" for n
    by (induction n) simp_all
  then show ?thesis
    by (simp add: clz64_def)
qed

lemma shifted_top_bit: "n < 64 \<Longrightarrow> unat (drop_bit n (0x8000000000000000 :: u64)) = 2 ^ (63 - n)"
  by (simp add: unat_drop_bit power_diff)

text \<open>
  \<^verbatim>\<open>pow2floor\<close> returns the largest power of two that is not above its argument, and
  \<^verbatim>\<open>pow2ceil\<close> the least that is not below it as long as that one fits 64 bits, and zero
  beyond; \<^verbatim>\<open>pow2ceil\<close> of zero is one.
\<close>

theorem pow2_floor_ceil:
  "(v \<noteq> 0 \<longrightarrow> (\<exists>k < 64. unat (pow2floor v) = 2 ^ k \<and> 2 ^ k \<le> unat v \<and> unat v < 2 ^ Suc k)) \<and>
   (unat v \<le> 2 ^ 63 \<longrightarrow> (\<exists>k < 64. unat (pow2ceil v) = 2 ^ k \<and> unat v \<le> 2 ^ k \<and> (\<forall>j. unat v \<le> 2 ^ j \<longrightarrow> k \<le> j))) \<and>
   (2 ^ 63 < unat v \<longrightarrow> pow2ceil v = 0)"
proof (intro conjI impI)
  assume v: "v \<noteq> 0"
  then show "\<exists>k < 64. unat (pow2floor v) = 2 ^ k \<and> 2 ^ k \<le> unat v \<and> unat v < 2 ^ Suc k"
    using clz64_spec [OF v] Suc_diff_le [of "clz64 v" 63]
    by (intro exI [of _ "63 - clz64 v"]) (simp add: pow2floor_def shifted_top_bit flip: power_Suc)
next
  assume v: "unat v \<le> 2 ^ 63"
  show "\<exists>k < 64. unat (pow2ceil v) = 2 ^ k \<and> unat v \<le> 2 ^ k \<and> (\<forall>j. unat v \<le> 2 ^ j \<longrightarrow> k \<le> j)"
  proof (cases "unat v \<le> 1")
    case True
    then have "v = 0 \<or> v = 1"
      by (simp add: word_unat_eq_iff le_Suc_eq)
    moreover have "clz64 (- 1) = 0"
      by (rule clz64_top) simp
    ultimately have "unat (pow2ceil v) = 2 ^ 0"
      by (auto simp: pow2ceil_def clz64_0)
    then show ?thesis
      using True by (intro exI [of _ 0]) simp
  next
    case False
    then have w: "unat (v - 1) = unat v - 1" "v - 1 \<noteq> 0"
      by (auto simp: unat_minus_one word_unat_eq_iff)
    define n where "n = clz64 (v - 1)"
    note spec = clz64_spec [OF w(2), folded n_def]
    have "n \<noteq> 0"
      using spec(2) v False by (intro notI) (simp add: w(1))
    then have n: "0 < n" "n < 64"
      using spec(1) by simp_all
    have "unat (pow2ceil v) = 2 ^ (64 - n)"
      using n by (simp add: pow2ceil_def n_def [symmetric] shifted_top_bit)
    moreover have "unat v \<le> 2 ^ (64 - n)"
      using spec(3) w(1) by simp
    moreover have "64 - n \<le> j" if "unat v \<le> 2 ^ j" for j
    proof -
      have "(2 :: nat) ^ (63 - n) < 2 ^ j"
        using spec(2) w(1) that False by linarith
      then show ?thesis
        using n by simp
    qed
    ultimately show ?thesis
      using n by (intro exI [of _ "64 - n"]) simp
  qed
next
  assume v: "2 ^ 63 < unat v"
  then have "v \<noteq> 0"
    by auto
  then have w: "unat (v - 1) = unat v - 1"
    by (simp add: unat_minus_one)
  then have "v - 1 \<noteq> 0" "2 ^ 63 \<le> unat (v - 1)"
    using v by (auto simp: word_unat_eq_iff)
  then have "clz64 (v - 1) = 0"
    using bit_top_iff [of "v - 1" 63] unat64_less [of "v - 1"] by (intro clz64_top) simp
  then show "pow2ceil v = 0"
    using \<open>v \<noteq> 0\<close> by (simp add: pow2ceil_def)
qed

theorem pow2_floor_ceil_witness:
  "(5 :: u64) \<noteq> 0 \<and> unat (5 :: u64) \<le> 2 ^ 63 \<and> 2 ^ 63 < unat (0x8000000000000001 :: u64) \<and>
   unat (pow2floor 5) \<ge> 4 \<and> unat (pow2ceil 5) \<ge> 5 \<and> pow2ceil 0x8000000000000001 = 0"
proof -
  obtain k where k: "unat (pow2floor 5) = 2 ^ k" "5 < (2 :: nat) ^ Suc k"
    using pow2_floor_ceil [of 5] by auto
  then have "4 \<le> unat (pow2floor 5)"
    using power_increasing_iff [of "2 :: nat" 2 k] by (cases "2 \<le> k") (auto simp: not_le less_2_cases_iff)
  moreover have "5 \<le> unat (pow2ceil 5)"
    using pow2_floor_ceil [of 5] by auto
  moreover have "pow2ceil 0x8000000000000001 = 0"
    using pow2_floor_ceil [of "0x8000000000000001"] by simp
  ultimately show ?thesis
    by simp
qed

text \<open>
  The versions of the bit reversals that swap bytes, nibbles and bits, for compilers without
  the builtin, reverse the bits of words of 8, 16, 32 and 64 bits.
\<close>

theorem revbit_reverses:
  "(n < 8 \<longrightarrow> bit (revbit8 w) n = bit w (7 - n)) \<and> (n < 16 \<longrightarrow> bit (revbit16 x) n = bit x (15 - n)) \<and>
   (n < 32 \<longrightarrow> bit (revbit32 y) n = bit y (31 - n)) \<and> (n < 64 \<longrightarrow> bit (revbit64 z) n = bit z (63 - n))"
  by (simp add: bit_revbit8 bit_revbit16 bit_revbit32 bit_revbit64)

theorem revbit_reverses_witness:
  "(3 :: nat) < 8 \<and> bit (revbit8 0x10) 3 \<and> bit (revbit16 0x1000) 3 \<and> bit (revbit32 0x10000000) 3 \<and>
   bit (revbit64 0x1000000000000000) 3"
  using revbit_reverses [of 3 "0x10" "0x1000" "0x10000000" "0x1000000000000000"] by simp

end
