(* ===== verification/Op_Helper.thy ===== *)
theory Op_Helper
  imports Mmu_Helper Host_Utils
begin

text \<open>
  The remaining system helpers, \<^verbatim>\<open>target/xtensa/op_helper.c\<close>: the cycle counter and its
  compare timers, with the clock conversions of \<^verbatim>\<open>include/hw/clock.h\<close> they use, the checks
  of atomic and exclusive accesses, and the write of MEMCTL. Time is read from the virtual
  clock: an operation takes its readings as arguments, in the order it makes them. The period
  of the CPU clock, in units of $2^{-32}$ ns, is an argument too.
\<close>

section \<open>Clock conversions\<close>

definition clock_ticks_to_ns :: "u64 \<Rightarrow> u64 \<Rightarrow> u64" where
  "clock_ticks_to_ns period ticks =
     (let (ns_low, ns_high) = mulu64 period ticks in
      if ns_high AND push_bit 31 (mask 33) \<noteq> 0 then 0x7fffffffffffffff
      else drop_bit 32 ns_low OR push_bit 32 ns_high)"

definition clock_ns_to_ticks :: "u64 \<Rightarrow> u64 \<Rightarrow> u64" where
  "clock_ns_to_ticks period ns =
     (let lo = push_bit 32 ns; hi = drop_bit 32 ns in
      if period = 0 then 0 else fst (snd (divu128 lo hi period)))"

section \<open>Cycle counter\<close>

definition helper_update_ccount :: "u64 \<Rightarrow> u64 \<Rightarrow> env \<Rightarrow> env" where
  "helper_update_ccount period now env =
     (let env = env\<lparr>ccount_time := now\<rparr> in
      set_sreg CCOUNT (ccount_base env + ucast (clock_ns_to_ticks period (now - time_base env))) env)"

definition helper_update_ccompare :: "u64 \<Rightarrow> u64 \<Rightarrow> env \<Rightarrow> nat \<Rightarrow> env" where
  "helper_update_ccompare period now env i =
     (let env = set_sreg INTSET (sregs env INTSET AND NOT (push_bit (timerint (config env) i) 1)) env;
          env = helper_update_ccount period now env;
          dcc = ucast (sregs env (CCOMPARE + i) - sregs env CCOUNT - 1) + 1 :: u64;
          env = call (Timer_mod i (ccount_time env + clock_ticks_to_ns period dcc)) env
      in env\<lparr>yield_needed := True\<rparr>)"

text \<open>\<^verbatim>\<open>wsr.ccount\<close> reads the clock once, and once more for every compare register.\<close>

definition helper_wsr_ccount :: "u64 \<Rightarrow> (nat \<Rightarrow> u64) \<Rightarrow> env \<Rightarrow> u32 \<Rightarrow> env" where
  "helper_wsr_ccount period clk env v =
     (let env = helper_update_ccount period (clk 0) env;
          env = env\<lparr>ccount_base := ccount_base env + (v - sregs env CCOUNT)\<rparr>
      in foldl (\<lambda>env i. helper_update_ccompare period (clk (Suc i)) env i) env
           [0..<nccompare (config env)])"

section \<open>Atomic and exclusive accesses\<close>

text \<open>The field of ATOMCTL that governs a cache attribute; \<^verbatim>\<open>None\<close> where the code does not look at it.\<close>

definition atomctl_field :: "u32 \<Rightarrow> u32 \<Rightarrow> u32 option" where
  "atomctl_field atomctl access =
     (let c = access AND PAGE_CACHE_MASK in
      if c = PAGE_CACHE_WB then Some (drop_bit 2 (drop_bit 2 atomctl) AND 0x3)
      else if c = PAGE_CACHE_WT then Some (drop_bit 2 atomctl AND 0x3)
      else if c = PAGE_CACHE_BYPASS then Some (atomctl AND 0x3)
      else None)"

definition check_cache_attr :: "env \<Rightarrow> u32 \<Rightarrow> u32 \<Rightarrow> u32 \<Rightarrow> u32 \<Rightarrow> u32 \<Rightarrow> (env, unit) outcome" where
  "check_cache_attr env pc vaddr atomctl access cause =
     (let access = (if xtensa_option_enabled (config env) XTENSA_OPTION_DCACHE then access else PAGE_CACHE_BYPASS) in
      case atomctl_field atomctl access of
        Some f \<Rightarrow> if f = 0 then exception_cause_vaddr env pc cause vaddr else Ret () env
      | None \<Rightarrow> if access AND PAGE_CACHE_MASK = PAGE_CACHE_ISOLATE
                then exception_cause_vaddr env pc LOAD_STORE_ERROR_CAUSE vaddr else Ret () env)"

definition helper_check_atomctl :: "(u32 \<Rightarrow> u32 option) \<Rightarrow> env \<Rightarrow> u32 \<Rightarrow> u32 \<Rightarrow> (env, unit) outcome" where
  "helper_check_atomctl ldl env pc vaddr =
     (let atomctl = sregs env ATOMCTL in
      obind (xtensa_get_physical_addr ldl env True vaddr 1 (xtensa_get_cring env))
        (\<lambda>r env. case r of
           Inl rc \<Rightarrow> exception_cause_vaddr env pc rc vaddr
         | Inr (paddr, page_size, access) \<Rightarrow>
             if access AND (PAGE_READ OR PAGE_WRITE) \<noteq> PAGE_READ OR PAGE_WRITE
             then exception_cause_vaddr env pc STORE_PROHIBITED_CAUSE vaddr
             else check_cache_attr env pc vaddr atomctl access LOAD_STORE_ERROR_CAUSE))"

definition helper_check_exclusive ::
    "(u32 \<Rightarrow> u32 option) \<Rightarrow> env \<Rightarrow> u32 \<Rightarrow> u32 \<Rightarrow> nat \<Rightarrow> (env, unit) outcome" where
  "helper_check_exclusive ldl env pc vaddr is_write =
     (let atomctl = sregs env ATOMCTL in
      obind (xtensa_get_physical_addr ldl env True vaddr is_write (xtensa_get_cring env))
        (\<lambda>r env. case r of
           Inl rc \<Rightarrow> exception_cause_vaddr env pc rc vaddr
         | Inr (paddr, page_size, access) \<Rightarrow>
             check_cache_attr env pc vaddr atomctl access EXCLUSIVE_ERROR_CAUSE))"

text \<open>
  The three calls of \<^verbatim>\<open>deposit32\<close> in \<^verbatim>\<open>wsr.memctl\<close> are expression statements: the
  value they return is dropped, as here.
\<close>

definition helper_wsr_memctl :: "env \<Rightarrow> u32 \<Rightarrow> env" where
  "helper_wsr_memctl env v =
     (let dropped1 = (if xtensa_option_enabled (config env) XTENSA_OPTION_ICACHE \<and>
                         extract32 v 18 5 > icache_ways (config env)
                      then deposit32 v 18 5 (icache_ways (config env)) else v);
          dropped2 = (if xtensa_option_enabled (config env) XTENSA_OPTION_DCACHE \<and>
                         extract32 v 8 5 > dcache_ways (config env)
                      then deposit32 v 8 5 (dcache_ways (config env)) else v);
          dropped3 = (if xtensa_option_enabled (config env) XTENSA_OPTION_DCACHE \<and>
                         extract32 v 13 5 > dcache_ways (config env)
                      then deposit32 v 13 5 (dcache_ways (config env)) else v)
      in set_sreg MEMCTL (v AND memctl_mask (config env)) env)"

section \<open>External registers\<close>

text \<open>
  \<^verbatim>\<open>rer\<close> and \<^verbatim>\<open>wer\<close> access the external-register address space of the core, whose load
  and store are arguments.
\<close>

definition helper_rer :: "('er \<Rightarrow> u32 \<Rightarrow> u32) \<Rightarrow> 'er \<Rightarrow> u32 \<Rightarrow> u32" where
  "helper_rer er_ldl er addr = er_ldl er addr"

definition helper_wer :: "('er \<Rightarrow> u32 \<Rightarrow> u32 \<Rightarrow> 'er) \<Rightarrow> 'er \<Rightarrow> u32 \<Rightarrow> u32 \<Rightarrow> 'er" where
  "helper_wer er_stl er data addr = er_stl er addr data"

section \<open>The clock conversions compute quotients\<close>

lemma unat_ucast_down: "unat (ucast w :: 'b::len word) = unat w mod 2 ^ LENGTH('b)" for w :: "'a::len word"
  unfolding unsigned_ucast_eq by (rule take_bit_eq_mod)

lemma unat_less64: "unat (w :: u64) < 2 ^ 64"
  using unsigned_less [where ?'a = nat, of w] by simp

lemma mulu64_unat:
  assumes "mulu64 a b = (lo, hi)"
  shows "unat lo = unat a * unat b mod 2 ^ 64 \<and> unat hi = unat a * unat b div 2 ^ 64"
  using mulu64_exact [OF assms, symmetric] unat_less64 [of lo] by (simp add: val128_def)

lemma high_bits_zero: "(w :: u64) AND push_bit n (mask (64 - n)) = 0 \<longleftrightarrow> unat w < 2 ^ n" if "n \<le> 64"
proof -
  have "w AND push_bit n (mask (64 - n)) = push_bit n (drop_bit n w)"
    by (rule bit_word_eqI) (use that in \<open>auto simp: bit_simps dest: bit_imp_le_length\<close>)
  also have "\<dots> = 0 \<longleftrightarrow> unat w < 2 ^ n"
  proof
    assume "push_bit n (drop_bit n w) = 0"
    then have "take_bit n w = w" using bits_ident [of n w] by simp
    then show "unat w < 2 ^ n" using unat_take_bit [of n w] by (metis mod_less_divisor zero_less_numeral zero_less_power)
  next
    assume "unat w < 2 ^ n"
    then have "drop_bit n w = 0" using unat_drop_bit [of n w] by (simp add: unat_eq_zero [symmetric] del: unat_eq_zero)
    then show "push_bit n (drop_bit n w) = 0" by simp
  qed
  finally show ?thesis .
qed

lemma clock_ticks_to_ns_unat:
  "unat (clock_ticks_to_ns period ticks) = min (unat period * unat ticks div 2 ^ 32) (2 ^ 63 - 1)"
proof -
  obtain lo hi where m: "mulu64 period ticks = (lo, hi)" by fastforce
  let ?r = "unat period * unat ticks"
  have lo: "unat lo = ?r mod 2 ^ 64" and hi: "unat hi = ?r div 2 ^ 64" using mulu64_unat [OF m] by auto
  have "?r = unat hi * 2 ^ 64 + unat lo" using lo hi by simp
  then have split: "?r div 2 ^ 32 = unat hi * 2 ^ 32 + unat lo div 2 ^ 32" by simp
  have lo32: "unat lo div 2 ^ 32 < 2 ^ 32" using unat_less64 [of lo] by (simp add: div_less_iff_less_mult)
  show ?thesis
  proof (cases "unat hi < 2 ^ 31")
    case True
    have "unat (push_bit 32 hi OR drop_bit 32 lo) = unat hi * 2 ^ 32 + unat (drop_bit 32 lo)"
      using True lo32 by (intro unat_concat) (simp_all add: unat_drop_bit)
    moreover have "?r div 2 ^ 32 \<le> 2 ^ 63 - 1" unfolding split using True lo32 by simp
    ultimately show ?thesis
      using True high_bits_zero [of 31 hi]
      by (simp add: clock_ticks_to_ns_def m unat_drop_bit split [simplified] min_def or.commute)
  next
    case False
    then have "2 ^ 63 \<le> ?r div 2 ^ 32" unfolding split by simp
    then show ?thesis
      using False high_bits_zero [of 31 hi] by (simp add: clock_ticks_to_ns_def m min_def)
  qed
qed

lemma clock_ns_to_ticks_unat:
  assumes "period \<noteq> 0"
  shows "unat (clock_ns_to_ticks period ns) = (unat ns * 2 ^ 32 div unat period) mod 2 ^ 64"
proof -
  have hi: "unat (drop_bit 32 ns) = unat ns div 2 ^ 32" by (rule unat_drop_bit)
  have lo: "unat (push_bit 32 ns) = unat ns * 2 ^ 32 mod 2 ^ 64"
    unfolding unsigned_push_bit_eq take_bit_eq_mod by (simp add: push_bit_eq_mult)
  have "unat ns * 2 ^ 32 = (unat ns div 2 ^ 32 * 2 ^ 32 + unat ns mod 2 ^ 32) * 2 ^ 32"
    by (simp only: div_mult_mod_eq)
  also have "\<dots> = unat ns div 2 ^ 32 * 2 ^ 64 + unat ns mod 2 ^ 32 * 2 ^ 32"
    by (simp only: distrib_right mult.assoc power_add [symmetric]) simp
  finally have "unat ns * 2 ^ 32 = unat ns div 2 ^ 32 * 2 ^ 64 + unat ns mod 2 ^ 32 * 2 ^ 32" .
  moreover have "unat ns mod 2 ^ 32 * 2 ^ 32 < 2 ^ 64" by simp
  ultimately have parts: "unat ns * 2 ^ 32 mod 2 ^ 64 = unat ns mod 2 ^ 32 * 2 ^ 32"
    "unat ns * 2 ^ 32 = unat ns div 2 ^ 32 * 2 ^ 64 + unat ns * 2 ^ 32 mod 2 ^ 64" by simp_all
  have "unat (push_bit 64 (ucast (drop_bit 32 ns)) OR ucast (push_bit 32 ns) :: 128 word) =
      unat (drop_bit 32 ns) * 2 ^ 64 + unat (push_bit 32 ns)"
    using unat_less64 [of "push_bit 32 ns"] unat_less64 [of "drop_bit 32 ns"]
    by (subst unat_concat) (simp_all add: unat_ucast_up)
  also have "\<dots> = unat ns * 2 ^ 32" unfolding hi lo using parts(2) by simp
  finally have dividend: "unat (push_bit 64 (ucast (drop_bit 32 ns)) OR ucast (push_bit 32 ns) :: 128 word) =
      unat ns * 2 ^ 32" .
  show ?thesis
    using assms by (simp add: clock_ns_to_ticks_def divu128_def Let_def unat_ucast_down [where ?'b = 64]
        unat_div_distrib dividend unat_ucast_up)
qed

section \<open>The cycle counter and its timers\<close>

lemma update_ccount_frame [simp]:
  "config (helper_update_ccount p t env) = config env" "time_base (helper_update_ccount p t env) = time_base env"
  "ccount_base (helper_update_ccount p t env) = ccount_base env" "calls (helper_update_ccount p t env) = calls env"
  "ccount_time (helper_update_ccount p t env) = t"
  "sregs (helper_update_ccount p t env) = (sregs env)(CCOUNT :=
     ccount_base env + ucast (clock_ns_to_ticks p (t - time_base env)))"
  by (simp_all add: helper_update_ccount_def set_sreg_def)

lemma update_ccompare_frame [simp]:
  "config (helper_update_ccompare p t env i) = config env"
  "time_base (helper_update_ccompare p t env i) = time_base env"
  "ccount_base (helper_update_ccompare p t env i) = ccount_base env"
  by (simp_all add: helper_update_ccompare_def Let_def call_def set_sreg_def)

lemma fold_ccompare_frame [simp]:
  "config (foldl (\<lambda>env i. helper_update_ccompare p (clk i) env i) env is) = config env"
  "time_base (foldl (\<lambda>env i. helper_update_ccompare p (clk i) env i) env is) = time_base env"
  "ccount_base (foldl (\<lambda>env i. helper_update_ccompare p (clk i) env i) env is) = ccount_base env"
  by (induction "is" arbitrary: env) simp_all

text \<open>
  C26. The cycle counter can be written: after \<^verbatim>\<open>wsr.ccount\<close> with value \<open>v\<close>, a read at any
  later time gives \<open>v\<close> plus the number of clock ticks between the write and the read, modulo
  $2^{32}$; a read at the moment of the write gives \<open>v\<close>.
\<close>

theorem wsr_ccount_readback:
  "sregs (helper_update_ccount period t (helper_wsr_ccount period clk env v)) CCOUNT =
     v + (ucast (clock_ns_to_ticks period (t - time_base env)) -
          ucast (clock_ns_to_ticks period (clk 0 - time_base env)))"
  by (simp add: helper_wsr_ccount_def Let_def algebra_simps)

text \<open>The timer expiry, rounded down to a nanosecond, is at most one tick early and never late.\<close>

lemma timer_rounding:
  fixes P N d :: nat
  assumes "2 ^ 32 \<le> P" "1 \<le> d"
  defines "D \<equiv> d * P div 2 ^ 32"
  shows "N * 2 ^ 32 div P + d - 1 \<le> (N + D) * 2 ^ 32 div P" "(N + D) * 2 ^ 32 div P \<le> N * 2 ^ 32 div P + d"
proof -
  have P: "0 < P" using assms(1) by (rule less_le_trans [rotated]) simp
  have le: "D * 2 ^ 32 \<le> d * P" unfolding D_def by (rule div_times_less_eq_dividend)
  have "d * P < (D + 1) * 2 ^ 32" unfolding D_def by (simp add: dividend_less_div_times)
  then have ge: "d * P \<le> D * 2 ^ 32 + P" using assms(1) by (simp add: add_mult_distrib)
  have "(N + D) * 2 ^ 32 \<le> N * 2 ^ 32 + d * P" using le by (simp add: add_mult_distrib)
  then have "(N + D) * 2 ^ 32 div P \<le> (N * 2 ^ 32 + d * P) div P" by (rule div_le_mono)
  then show "(N + D) * 2 ^ 32 div P \<le> N * 2 ^ 32 div P + d" using P by simp
  have "(d - 1) * P \<le> D * 2 ^ 32" using ge assms(2) by (simp add: diff_mult_distrib)
  then have "(N * 2 ^ 32 + (d - 1) * P) div P \<le> (N + D) * 2 ^ 32 div P"
    by (intro div_le_mono) (simp add: add_mult_distrib)
  then show "N * 2 ^ 32 div P + d - 1 \<le> (N + D) * 2 ^ 32 div P" using P assms(2) by simp
qed

lemma update_ccompare_timer:
  "\<exists>d. 1 \<le> d \<and> d \<le> 2 ^ 32 \<and>
     of_nat d = sregs env (CCOMPARE + i) - sregs (helper_update_ccount period now env) CCOUNT \<and>
     hd (calls (helper_update_ccompare period now env i)) =
       Timer_mod i (now + clock_ticks_to_ns period (of_nat d))"
proof -
  define x where "x = sregs env (CCOMPARE + i) - sregs (helper_update_ccount period now env) CCOUNT - 1"
  have "(ucast x :: u64) = of_nat (unat x)" by (simp add: word_unat_eq_iff unat_ucast_up unat_of_nat)
  then have dcc: "(ucast x + 1 :: u64) = of_nat (unat x + 1)" by simp
  have "sregs (helper_update_ccount period now env) CCOUNT =
      sregs (helper_update_ccount period now (set_sreg INTSET s env)) CCOUNT" for s
    by (simp add: set_sreg_def)
  then have "hd (calls (helper_update_ccompare period now env i)) =
      Timer_mod i (now + clock_ticks_to_ns period (ucast x + 1))"
    by (simp add: helper_update_ccompare_def Let_def call_def x_def set_sreg_def)
  moreover have "unat x + 1 \<le> 2 ^ 32" using unsigned_less [where ?'a = nat, of x] by simp
  moreover have "of_nat (unat x + 1) = sregs env (CCOMPARE + i) - sregs (helper_update_ccount period now env) CCOUNT"
    by (simp add: x_def)
  ultimately show ?thesis using dcc by (intro exI [of _ "unat x + 1"]) simp
qed

text \<open>
  C14. The timer for a compare register is never late and at most one tick early. With a clock of
  at most 1 GHz, the expiry programmed by \<^verbatim>\<open>update_ccompare\<close> lies in the future, within one
  wrap of the counter, and when it expires CCOUNT is CCOMPARE or CCOMPARE - 1: the conversion to
  nanoseconds rounds down, so the interrupt can precede the match by one tick.
\<close>

theorem ccompare_timer_bounds:
  assumes "2 ^ 32 \<le> unat period" "time_base env \<le> now" "unat now + unat period < 2 ^ 63"
  shows "\<exists>expiry d early. hd (calls (helper_update_ccompare period now env i)) = Timer_mod i expiry \<and>
    now < expiry \<and> 1 \<le> d \<and> d \<le> 2 ^ 32 \<and> early \<le> 1 \<and>
    unat (clock_ns_to_ticks period (expiry - time_base env)) + early =
      unat (clock_ns_to_ticks period (now - time_base env)) + d \<and>
    sregs (helper_update_ccount period expiry env) CCOUNT = sregs env (CCOMPARE + i) - of_nat early"
proof -
  obtain d where d: "1 \<le> d" "d \<le> 2 ^ 32"
      "of_nat d = sregs env (CCOMPARE + i) - sregs (helper_update_ccount period now env) CCOUNT"
      "hd (calls (helper_update_ccompare period now env i)) = Timer_mod i (now + clock_ticks_to_ns period (of_nat d))"
    using update_ccompare_timer by metis
  let ?P = "unat period" and ?N = "unat (now - time_base env)" and ?D = "d * unat period div 2 ^ 32"
  define expiry where "expiry = now + clock_ticks_to_ns period (of_nat d)"
  have P: "0 < ?P" "period \<noteq> 0" using assms(1) by (auto simp: unat_gt_0)
  have "?P * d div 2 ^ 32 \<le> ?P * 2 ^ 32 div 2 ^ 32" using d(2) by (intro div_le_mono mult_le_mono2)
  then have D: "?D \<le> ?P" by (simp add: mult.commute)
  have "1 * 2 ^ 32 \<le> d * ?P" using mult_le_mono [OF d(1) assms(1)] .
  then have D0: "0 < ?D" by (simp add: div_greater_zero_iff)
  have "unat (of_nat d :: u64) = d" using d(2) by (simp add: unat_of_nat)
  then have ns: "unat (clock_ticks_to_ns period (of_nat d)) = ?D"
    using D assms(3) by (simp add: clock_ticks_to_ns_unat mult.commute min_def)
  then have e: "unat expiry = unat now + ?D"
    unfolding expiry_def using D assms(3) by (subst unat_plus_if') simp
  have N: "?N = unat now - unat (time_base env)" using assms(2) by (simp add: unat_sub word_le_nat_alt)
  have "time_base env \<le> expiry" using assms(2) e by (simp add: word_le_nat_alt)
  then have "unat (expiry - time_base env) = unat expiry - unat (time_base env)" by (rule unat_sub)
  then have N': "unat (expiry - time_base env) = ?N + ?D" using e N assms(2) by (simp add: word_le_nat_alt)
  have small: "M * 2 ^ 32 div ?P < 2 ^ 64" if "M < 2 ^ 63" for M
  proof -
    have "M * 2 ^ 32 div ?P \<le> M * ?P div ?P" using assms(1) by (intro div_le_mono mult_le_mono2)
    then show ?thesis using that P by simp
  qed
  have t0: "unat (clock_ns_to_ticks period (now - time_base env)) = ?N * 2 ^ 32 div ?P"
    using small [of ?N] N assms(3) P by (simp add: clock_ns_to_ticks_unat)
  have lt: "?N + ?D < 2 ^ 63" using N D assms(3) by simp
  have t1: "unat (clock_ns_to_ticks period (expiry - time_base env)) = (?N + ?D) * 2 ^ 32 div ?P"
    using small [OF lt] P by (simp add: clock_ns_to_ticks_unat N')
  define early where "early = ?N * 2 ^ 32 div ?P + d - (?N + ?D) * 2 ^ 32 div ?P"
  have early: "early \<le> 1" "(?N + ?D) * 2 ^ 32 div ?P + early = ?N * 2 ^ 32 div ?P + d"
    using timer_rounding [OF assms(1) d(1), of ?N] by (auto simp: early_def)
  have "(ucast (clock_ns_to_ticks period (expiry - time_base env)) :: u32) + of_nat early =
      ucast (clock_ns_to_ticks period (now - time_base env)) + of_nat d"
    using arg_cong [OF early(2), of "of_nat :: nat \<Rightarrow> u32"] unfolding t0 [symmetric] t1 [symmetric]
    by simp
  then have "sregs (helper_update_ccount period expiry env) CCOUNT = sregs env (CCOMPARE + i) - of_nat early"
    using d(3) by (simp add: algebra_simps eq_diff_eq)
  moreover have "now < expiry" using e D0 by (simp add: word_less_nat_alt)
  ultimately show ?thesis
    using d early t0 t1 unfolding expiry_def [symmetric]
    by (intro exI [of _ expiry] exI [of _ d] exI [of _ early]) simp
qed

theorem ccompare_timer_bounds_witness:
  "\<exists>expiry. hd (calls (helper_update_ccompare 0x42AAAAAAA 1000 (new_cpu esp32s3_config) 0)) = Timer_mod 0 expiry \<and>
    1000 < expiry"
  using ccompare_timer_bounds [of "0x42AAAAAAA" "new_cpu esp32s3_config" 1000 0] by (simp add: new_cpu_def) blast

section \<open>Writing MEMCTL\<close>

text \<open>
  \<^verbatim>\<open>wsr.memctl\<close> does not limit the numbers of cache ways: on a core with an instruction
  cache, a number of instruction-cache ways above the core's own is stored as written, since the
  results of the \<^verbatim>\<open>deposit32\<close> calls that should limit it are dropped.
\<close>

theorem wsr_memctl_not_clamped:
  assumes "xtensa_option_enabled (config env) XTENSA_OPTION_ICACHE"
    and "extract32 (memctl_mask (config env)) 18 5 = 0x1f"
    and "extract32 v 18 5 > icache_ways (config env)"
  shows "extract32 (sregs (helper_wsr_memctl env v) MEMCTL) 18 5 = extract32 v 18 5 \<and>
    extract32 (sregs (helper_wsr_memctl env v) MEMCTL) 18 5 > icache_ways (config env)"
proof -
  have ones: "(0x1f :: u32) = mask 5" by (simp add: mask_eq_exp_minus_1)
  have "bit (memctl_mask (config env)) (18 + n)" if "n < 5" for n
    using arg_cong [OF assms(2), of "\<lambda>w. bit w n"] that unfolding ones by (simp add: bit_extract32 bit_mask_iff)
  then have "extract32 (v AND memctl_mask (config env)) 18 5 = extract32 v 18 5"
    by (intro bit_word_eqI) (auto simp: bit_extract32 bit_and_iff)
  then show ?thesis using assms(3) by (simp add: helper_wsr_memctl_def set_sreg_def)
qed

theorem wsr_memctl_not_clamped_witness:
  "extract32 (sregs (helper_wsr_memctl (new_cpu (esp32s3_config\<lparr>options := 0x8000000, icache_ways := 4,
     memctl_mask := 0x7c0001\<rparr>)) 0x7c0001) MEMCTL) 18 5 = 31"
proof -
  let ?env = "new_cpu (esp32s3_config\<lparr>options := 0x8000000, icache_ways := 4, memctl_mask := 0x7c0001\<rparr>)"
  have f: "extract32 0x7c0001 18 5 = 31"
    by (simp add: extract32_def drop_bit_eq_div)
  have "xtensa_option_enabled (config ?env) XTENSA_OPTION_ICACHE" "extract32 (memctl_mask (config ?env)) 18 5 = 0x1f"
    "extract32 0x7c0001 18 5 > icache_ways (config ?env)"
    by (simp_all add: new_cpu_simps option_enabled_bit f)
  from wsr_memctl_not_clamped [OF this] show ?thesis using f by simp
qed

end
