(* ===== verification/Mmu_Correct.thy ===== *)
theory Mmu_Correct
  imports Mmu_Helper
begin

text \<open>
  Correctness of address translation: what a TLB lookup finds, that an entry written by
  \<^verbatim>\<open>wtlb\<close> or filled from the page table translates its page, that a changed entry is
  always flushed from the soft-TLB, the identity map after reset, and the MPU lookup.
\<close>

section \<open>TLB addressing\<close>

lemma is_mmu_config [simp]:
  "config (tlb_store d wi ei e env) = config env" "sregs (tlb_store d wi ei e env) = sregs env"
  "config (call c env) = config env" "sregs (call c env) = sregs env"
  "config (set_sreg r v env) = config env"
  by (simp_all add: tlb_store_def call_def set_sreg_def)

lemma tlb_entry_store [simp]:
  "tlb_entry (tlb_store d wi ei e env) d' wi' ei' =
     (if d' = d \<and> wi' = wi \<and> ei' = ei then e else tlb_entry env d' wi' ei')"
  by (auto simp: tlb_entry_def tlb_store_def)

lemma tlb_entry_frame [simp]:
  "tlb_entry (call c env) = tlb_entry env" "tlb_entry (set_sreg r v env) = tlb_entry env"
  "tlb_entry (env\<lparr>autorefill_idx := i\<rparr>) = tlb_entry env"
  by (simp_all add: fun_eq_iff tlb_entry_def call_def set_sreg_def)

text \<open>Addressing depends on the configuration and the TLB configuration registers only.\<close>

definition same_tlbcfg :: "env \<Rightarrow> env \<Rightarrow> bool" where
  "same_tlbcfg env env' \<longleftrightarrow> config env' = config env \<and> sregs env' ITLBCFG = sregs env ITLBCFG \<and>
     sregs env' DTLBCFG = sregs env DTLBCFG \<and> sregs env' RASID = sregs env RASID"

lemma same_tlbcfg_simps:
  assumes "same_tlbcfg env env'"
  shows "xtensa_tlb_get_addr_mask env' d wi = xtensa_tlb_get_addr_mask env d wi"
    "split_tlb_entry_spec_way env' v d wi = split_tlb_entry_spec_way env v d wi"
    "cfg_tlb env' d = cfg_tlb env d" "get_ring env' asid = get_ring env asid" "config env' = config env"
  using assms
  by (simp_all add: same_tlbcfg_def xtensa_tlb_get_addr_mask_def split_tlb_entry_spec_way_def
      cfg_tlb_def get_page_size_def get_ring_def cong: if_cong)

lemma same_tlbcfgI [simp]:
  "same_tlbcfg env (tlb_store d wi ei e env') = same_tlbcfg env env'"
  "same_tlbcfg env (call c env') = same_tlbcfg env env'"
  "same_tlbcfg env (env'\<lparr>autorefill_idx := i\<rparr>) = same_tlbcfg env env'"
  "same_tlbcfg env (set_sreg EXCVADDR v env') = same_tlbcfg env env'"
  "same_tlbcfg env env"
  by (simp_all add: same_tlbcfg_def tlb_store_def call_def set_sreg_def)

lemma drop_bit_and_cover:
  fixes v :: u32
  assumes "\<And>i. bit c i \<Longrightarrow> i + k < 32 \<Longrightarrow> bit m (i + k)"
  shows "drop_bit k (v AND m) AND c = drop_bit k v AND c"
  using assms by (intro bit_word_eqI) (auto simp: bit_simps add.commute dest: bit_imp_le_length)

lemma bit_small_masks:
  "bit (1 :: u32) i \<longleftrightarrow> i < 1" "bit (3 :: u32) i \<longleftrightarrow> i < 2" "bit (7 :: u32) i \<longleftrightarrow> i < 3"
proof -
  have "(3 :: u32) = mask 2" "(7 :: u32) = mask 3" by (simp_all add: mask_eq_exp_minus_1)
  then show "bit (1 :: u32) i \<longleftrightarrow> i < 1" "bit (3 :: u32) i \<longleftrightarrow> i < 2" "bit (7 :: u32) i \<longleftrightarrow> i < 3"
    by (auto simp only: bit_mask_iff bit_1_iff, auto)
qed

lemma bit_high_masks:
  "bit (0xfffff000 :: u32) i \<longleftrightarrow> 12 \<le> i \<and> i < 32" "bit (0xfff00000 :: u32) i \<longleftrightarrow> 20 \<le> i \<and> i < 32"
  "bit (0xf8000000 :: u32) i \<longleftrightarrow> 27 \<le> i \<and> i < 32" "bit (0xf0000000 :: u32) i \<longleftrightarrow> 28 \<le> i \<and> i < 32"
  "bit (0xe0000000 :: u32) i \<longleftrightarrow> 29 \<le> i \<and> i < 32"
proof -
  have m: "(0xfffff000 :: u32) = NOT (mask 12)" "(0xfff00000 :: u32) = NOT (mask 20)"
    "(0xf8000000 :: u32) = NOT (mask 27)" "(0xf0000000 :: u32) = NOT (mask 28)"
    "(0xe0000000 :: u32) = NOT (mask 29)"
    by (simp_all add: mask_eq_exp_minus_1 not_eq_complement)
  show "bit (0xfffff000 :: u32) i \<longleftrightarrow> 12 \<le> i \<and> i < 32" "bit (0xfff00000 :: u32) i \<longleftrightarrow> 20 \<le> i \<and> i < 32"
    "bit (0xf8000000 :: u32) i \<longleftrightarrow> 27 \<le> i \<and> i < 32" "bit (0xf0000000 :: u32) i \<longleftrightarrow> 28 \<le> i \<and> i < 32"
    "bit (0xe0000000 :: u32) i \<longleftrightarrow> 29 \<le> i \<and> i < 32"
    unfolding m by (auto simp only: bit_not_iff bit_mask_iff possible_bit_word, auto)
qed

lemma get_page_size_le: "get_page_size env d way \<le> (if way = 4 then 3 else 1)"
proof -
  have "unat (w AND 3) \<le> 3" "unat (w AND 1) \<le> 1" for w :: u32
    using word_and_le1 [of w 3] word_and_le1 [of w 1] by (simp_all add: word_le_nat_alt)
  then show ?thesis by (auto simp: get_page_size_def Let_def)
qed

text \<open>All addresses of a page have the same VPN and entry index in a way.\<close>

lemma split_way_same_page:
  assumes mmu: "xtensa_option_enabled (config env) XTENSA_OPTION_MMU" and "d \<or> wi < 8"
    and same: "v' AND xtensa_tlb_get_addr_mask env d wi = v AND xtensa_tlb_get_addr_mask env d wi"
  shows "split_tlb_entry_spec_way env v' d wi = split_tlb_entry_spec_way env v d wi"
proof -
  define w where "w = (if d then wi else wi mod 8)"
  have w: "w = wi" using assms(2) by (auto simp: w_def)
  define ei where "ei v = snd (split_tlb_entry_spec_way env v d wi)" for v
  have "ei v = ei (v AND xtensa_tlb_get_addr_mask env d wi)" for v
    unfolding ei_def split_tlb_entry_spec_way_def Let_def snd_conv w_def [symmetric] w
    using mmu get_page_size_le [of env d 4] get_page_size_le [of env d 5] get_page_size_le [of env d 6]
    by (auto simp del: drop_bit_and bit_numeral_word_iff simp: xtensa_tlb_get_addr_mask_def Let_def bit_small_masks bit_high_masks bit_push_bit_iff
        intro!: arg_cong [where f = unat] drop_bit_and_cover [symmetric])
  then have "ei v' = ei v" by (metis same)
  moreover have "fst (split_tlb_entry_spec_way env v d wi) = v AND xtensa_tlb_get_addr_mask env d wi" for v
    using w by (simp add: split_tlb_entry_spec_way_def Let_def w_def)
  ultimately show ?thesis using same by (simp add: ei_def prod_eq_iff)
qed

section \<open>What a lookup finds\<close>

text \<open>A way matches an address, and the hit it then gives.\<close>

definition tlb_match :: "env \<Rightarrow> u32 \<Rightarrow> bool \<Rightarrow> nat \<Rightarrow> bool" where
  "tlb_match env addr d wi \<longleftrightarrow>
     (let (vpn, ei) = split_tlb_entry_spec_way env addr d wi; e = tlb_entry env d wi ei
      in te_vaddr e = vpn \<and> te_asid e \<noteq> 0 \<and> get_ring env (te_asid e) < 4)"

definition tlb_hit :: "env \<Rightarrow> u32 \<Rightarrow> bool \<Rightarrow> nat \<Rightarrow> nat \<times> nat \<times> nat" where
  "tlb_hit env addr d wi =
     (let ei = snd (split_tlb_entry_spec_way env addr d wi)
      in (wi, ei, get_ring env (te_asid (tlb_entry env d wi ei))))"

definition lookup_result :: "bool \<Rightarrow> (nat \<times> nat \<times> nat) list \<Rightarrow> u32 + (nat \<times> nat \<times> nat)" where
  "lookup_result d hits =
     (case hits of
        [] \<Rightarrow> Inl (if d then LOAD_STORE_TLB_MISS_CAUSE else INST_TLB_MISS_CAUSE)
      | [h] \<Rightarrow> Inr h
      | _ \<Rightarrow> Inl (if d then LOAD_STORE_TLB_MULTI_HIT_CAUSE else INST_TLB_MULTI_HIT_CAUSE))"

lemma tlb_scan_Cons:
  "tlb_scan env addr d (wi # ws) hit =
     (if tlb_match env addr d wi
      then if hit \<noteq> None then lookup_result d [the hit, tlb_hit env addr d wi]
           else tlb_scan env addr d ws (Some (tlb_hit env addr d wi))
      else tlb_scan env addr d ws hit)"
  by (cases "split_tlb_entry_spec_way env addr d wi"; cases hit)
    (simp_all add: tlb_match_def tlb_hit_def lookup_result_def Let_def)

lemma tlb_scan_eq:
  "tlb_scan env addr d ws hit =
     lookup_result d ((case hit of None \<Rightarrow> [] | Some h \<Rightarrow> [h]) @
       map (tlb_hit env addr d) (filter (tlb_match env addr d) ws))"
proof (induction ws arbitrary: hit)
  case (Cons wi ws)
  then show ?case by (cases hit) (simp_all add: tlb_scan_Cons lookup_result_def del: tlb_scan.simps)
qed (simp add: lookup_result_def split: option.split)

lemma filter_eq_upt: "wi < n \<Longrightarrow> filter (\<lambda>w. w = wi) [0..<n] = [wi]"
  by (induction n) (auto simp: less_Suc_eq filter_empty_conv)

lemma lookup_eqI:
  assumes "wi < nways (cfg_tlb env d)" "tlb_match env addr d wi"
    and "\<And>w. w < nways (cfg_tlb env d) \<Longrightarrow> w \<noteq> wi \<Longrightarrow> \<not> tlb_match env addr d w"
  shows "xtensa_tlb_lookup env addr d = Inr (tlb_hit env addr d wi)"
proof -
  have "filter (tlb_match env addr d) [0..<nways (cfg_tlb env d)] = filter (\<lambda>w. w = wi) [0..<nways (cfg_tlb env d)]"
    using assms by (intro filter_cong) auto
  also have "\<dots> = [wi]" using assms(1) by (rule filter_eq_upt)
  finally show ?thesis by (simp add: xtensa_tlb_lookup_def tlb_scan_eq lookup_result_def)
qed

text \<open>
  C13. A TLB lookup considers the ways whose entry has the page's VPN and an ASID that some ring
  of RASID owns. With exactly one such way it returns that way, its entry index and the ring;
  with none it returns the miss cause and with two or more the multi-hit cause of the TLB.
\<close>

theorem tlb_lookup_finds_matches:
  "xtensa_tlb_lookup env addr d =
     lookup_result d (map (tlb_hit env addr d)
       (filter (tlb_match env addr d) [0..<nways (cfg_tlb env d)]))"
  by (simp add: xtensa_tlb_lookup_def tlb_scan_eq)

section \<open>Rings and ASIDs\<close>

definition rasid_byte :: "env \<Rightarrow> nat \<Rightarrow> u32" where
  "rasid_byte env i = drop_bit (i * 8) (sregs env RASID) AND 0xff"

definition rasid_ok :: "env \<Rightarrow> bool" where
  "rasid_ok env \<longleftrightarrow> distinct (map (rasid_byte env) [0, 1, 2, 3]) \<and>
     list_all (\<lambda>i. rasid_byte env i \<noteq> 0) [0, 1, 2, 3]"

lemma ucast_and_ff: "ucast (ucast (x AND 0xff :: u32) :: u8) = x AND (0xff :: u32)"
proof -
  have ff: "(0xff :: u32) = mask 8" by (simp add: mask_eq_exp_minus_1)
  show ?thesis unfolding ff by (rule bit_word_eqI) (auto simp: bit_simps)
qed

lemma rasid_ok_ring:
  assumes "rasid_ok env" "r < 4"
  shows "get_ring env (ucast (rasid_byte env r)) = r" "(ucast (rasid_byte env r) :: u8) \<noteq> 0"
proof -
  have u: "ucast (ucast (rasid_byte env r) :: u8) = rasid_byte env r"
    by (simp add: rasid_byte_def ucast_and_ff)
  have r: "r = 0 \<or> r = 1 \<or> r = 2 \<or> r = 3" using assms(2) by auto
  have four: "[0..<4] = [0, 1, 2, 3 :: nat]" by code_simp
  have b: "sregs env RASID AND 0xff = rasid_byte env 0" "drop_bit 8 (sregs env RASID) AND 0xff = rasid_byte env 1"
    "drop_bit 16 (sregs env RASID) AND 0xff = rasid_byte env 2"
    "drop_bit 24 (sregs env RASID) AND 0xff = rasid_byte env 3"
    by (simp_all add: rasid_byte_def)
  have "get_ring_from (sregs env RASID) (ucast (rasid_byte env r)) [0, 1, 2, 3] = r"
    using r assms(1) u by (elim disjE) (simp_all add: b rasid_ok_def)
  then show "get_ring env (ucast (rasid_byte env r)) = r" by (simp add: get_ring_def four)
  show "(ucast (rasid_byte env r) :: u8) \<noteq> 0"
  proof
    assume "(ucast (rasid_byte env r) :: u8) = 0"
    then have "rasid_byte env r = 0" using u by simp
    then show False using r assms(1) by (auto simp: rasid_ok_def)
  qed
qed

section \<open>Entries written translate their page\<close>

abbreviation pte_ring :: "u32 \<Rightarrow> nat" where
  "pte_ring pte \<equiv> unat (drop_bit 4 pte AND 0x3)"

lemma pte_ring_less: "pte_ring pte < 4"
  using word_and_le1 [of "drop_bit 4 pte" 3] by (simp add: word_le_nat_alt)

lemma pte_ring_shift: "unat (drop_bit 1 pte AND 0x18) = pte_ring pte * 8" for pte :: u32
proof -
  have "(0x18 :: u32) = push_bit 3 (mask 2)" by (simp add: mask_eq_exp_minus_1)
  then have m: "bit (0x18 :: u32) n \<longleftrightarrow> n = 3 \<or> n = 4" for n
    by (auto simp only: bit_push_bit_iff bit_mask_iff, auto)
  have e: "drop_bit 1 pte AND 0x18 = push_bit 3 (drop_bit 4 pte AND 3)"
    by (rule bit_word_eqI) (auto simp: m bit_simps bit_small_masks simp del: bit_numeral_word_iff
        dest: bit_imp_le_length)
  show ?thesis unfolding e using pte_ring_less [of pte] by (subst unat_push_bit_small) simp_all
qed

lemma set_entry_mmu_fields:
  "te_vaddr (xtensa_tlb_set_entry_mmu env e d wi vpn pte) = vpn"
  "te_paddr (xtensa_tlb_set_entry_mmu env e d wi vpn pte) = pte AND xtensa_tlb_get_addr_mask env d wi"
  "te_asid (xtensa_tlb_set_entry_mmu env e d wi vpn pte) = ucast (rasid_byte env (pte_ring pte))"
  "te_attr (xtensa_tlb_set_entry_mmu env e d wi vpn pte) = ucast (pte AND 0xf)"
  by (simp_all add: xtensa_tlb_set_entry_mmu_def rasid_byte_def pte_ring_shift [unfolded One_nat_def])

lemma store_then_lookup:
  assumes "rasid_ok env" "wi < nways (cfg_tlb env d)" "split_tlb_entry_spec_way env vaddr d wi = (vpn, ei)"
    and cfg: "same_tlbcfg env env'"
    and new: "\<And>w i. tlb_entry env' d w i =
      (if w = wi \<and> i = ei then xtensa_tlb_set_entry_mmu env e d wi vpn pte else tlb_entry env d w i)"
    and others: "\<And>w. w < nways (cfg_tlb env d) \<Longrightarrow> w \<noteq> wi \<Longrightarrow> \<not> tlb_match env vaddr d w"
  shows "xtensa_tlb_lookup env' vaddr d = Inr (wi, ei, pte_ring pte)"
proof -
  note ring = rasid_ok_ring [OF assms(1) pte_ring_less [of pte]]
  have "tlb_match env' vaddr d wi"
    using assms(3) ring pte_ring_less [of pte]
    by (simp add: tlb_match_def same_tlbcfg_simps [OF cfg] new set_entry_mmu_fields)
  moreover have "\<not> tlb_match env' vaddr d w" if "w < nways (cfg_tlb env d)" "w \<noteq> wi" for w
    using others [OF that] that by (simp add: tlb_match_def same_tlbcfg_simps [OF cfg] new)
  ultimately have "xtensa_tlb_lookup env' vaddr d = Inr (tlb_hit env' vaddr d wi)"
    using assms(2) by (intro lookup_eqI) (auto simp: same_tlbcfg_simps [OF cfg])
  then show ?thesis
    using assms(3) ring by (simp add: tlb_hit_def same_tlbcfg_simps [OF cfg] new set_entry_mmu_fields)
qed

lemma spec_place:
  assumes "xtensa_option_enabled (config env) XTENSA_OPTION_MMU"
    and "split_tlb_entry_spec env v d = Some (vpn, wi, ei)"
  shows "wi < nways (cfg_tlb env d)" "wi = unat (v AND (if d then 0xf else 0x7))"
    "split_tlb_entry_spec_way env v d wi = (vpn, ei)"
  using assms unfolding split_tlb_entry_spec_def Let_def
  by (simp_all split: if_split_asm prod.split_asm)

lemma translate_hit:
  assumes "xtensa_tlb_lookup env vaddr (is_write \<noteq> 2) = Inr (wi, ei, ring)"
    and "wi < nways (cfg_tlb env (is_write \<noteq> 2))" "ei < way_size (cfg_tlb env (is_write \<noteq> 2)) wi"
  shows "mmu_translate walk env upd vaddr is_write idx =
    Ret (mmu_check env wi (tlb_entry env (is_write \<noteq> 2) wi ei) ring vaddr is_write idx) env"
  using assms by (simp add: mmu_translate_def xtensa_tlb_get_entry_def)

lemma mmu_check_same:
  "same_tlbcfg env env' \<Longrightarrow> mmu_check env' = mmu_check env"
  by (simp add: fun_eq_iff mmu_check_def same_tlbcfg_simps cong: if_cong)

text \<open>
  The result of translating \<open>vaddr\<close> through the page that the entry \<open>pte\<close> maps in way
  \<open>wi\<close>: a privilege violation above the ring of the entry, a prohibited-access cause when its
  attribute does not grant the access, otherwise the page's frame with the offset of the address.
\<close>

definition page_result :: "env \<Rightarrow> nat \<Rightarrow> u32 \<Rightarrow> u32 \<Rightarrow> nat \<Rightarrow> nat \<Rightarrow> xlate" where
  "page_result env wi pte vaddr is_write mmu_idx =
     (let m = xtensa_tlb_get_addr_mask env (is_write \<noteq> 2) wi;
          access = mmu_attr_to_access (pte AND 0xf) AND
                     NOT (if is_write \<noteq> 2 then PAGE_EXEC else PAGE_READ OR PAGE_WRITE)
      in if pte_ring pte < mmu_idx
         then Inl (if is_write \<noteq> 2 then LOAD_STORE_PRIVILEGE_CAUSE else INST_FETCH_PRIVILEGE_CAUSE)
         else if is_access_granted access is_write
         then Inr ((pte AND m) OR (vaddr AND NOT m), NOT m + 1, access)
         else Inl (prohibited_cause is_write))"

lemma ucast_and_f: "ucast (ucast (x AND 0xf :: u32) :: u8) = x AND (0xf :: u32)"
proof -
  have ff: "(0xf :: u32) = mask 4" by (simp add: mask_eq_exp_minus_1)
  show ?thesis unfolding ff by (rule bit_word_eqI) (auto simp: bit_simps)
qed

lemma mmu_check_set_entry:
  "mmu_check env wi (xtensa_tlb_set_entry_mmu env e (is_write \<noteq> 2) wi vpn pte) (pte_ring pte) vaddr is_write idx =
     page_result env wi pte vaddr is_write idx"
  by (simp add: mmu_check_def page_result_def set_entry_mmu_fields ucast_and_f Let_def)

text \<open>
  C5. Writing a TLB entry with \<^verbatim>\<open>witlb\<close> or \<^verbatim>\<open>wdtlb\<close> and then translating any
  address of the entry's page uses exactly that entry: the translation gives the frame written,
  with the protection and ring of the entry, and changes nothing, provided the way and index
  exist and are writable, no other way matches the address, and RASID has four distinct
  non-zero ASIDs.
\<close>

theorem wtlb_then_translate:
  assumes mmu: "xtensa_option_enabled (config env) XTENSA_OPTION_MMU"
    and rasid: "rasid_ok env"
    and spec: "split_tlb_entry_spec env v (is_write \<noteq> 2) = Some (vpn, wi, ei)"
    and size: "ei < way_size (cfg_tlb env (is_write \<noteq> 2)) wi"
    and var: "te_variable (tlb_entry env (is_write \<noteq> 2) wi ei)"
    and page: "vaddr AND xtensa_tlb_get_addr_mask env (is_write \<noteq> 2) wi =
      v AND xtensa_tlb_get_addr_mask env (is_write \<noteq> 2) wi"
    and others: "\<And>w. w < nways (cfg_tlb env (is_write \<noteq> 2)) \<Longrightarrow> w \<noteq> wi \<Longrightarrow>
      \<not> tlb_match env vaddr (is_write \<noteq> 2) w"
  shows "\<exists>env'. helper_wtlb env pte v (is_write \<noteq> 2) = Ret () env' \<and>
    xtensa_get_physical_addr ldl env' upd vaddr is_write idx =
      Ret (page_result env wi pte vaddr is_write idx) env'"
proof -
  let ?d = "is_write \<noteq> 2"
  let ?e = "tlb_entry env ?d wi ei"
  define env1 where "env1 = (if te_asid ?e \<noteq> 0 then call (Tlb_flush_page (te_vaddr ?e)) env else env)"
  define env' where "env' = call (Tlb_flush_page vpn)
    (tlb_store ?d wi ei (xtensa_tlb_set_entry_mmu env ?e ?d wi vpn pte) env1)"
  have wi: "wi < nways (cfg_tlb env ?d)"
    and split: "split_tlb_entry_spec_way env v ?d wi = (vpn, ei)"
    using spec_place [OF mmu spec] by blast+
  have "?d \<or> wi < 8"
    using spec_place [OF mmu spec] word_and_le1 [of v 7] by (simp add: word_le_nat_alt)
  then have split': "split_tlb_entry_spec_way env vaddr ?d wi = (vpn, ei)"
    using split_way_same_page [OF mmu _ page] split by simp
  have env1: "same_tlbcfg env env1" "tlb_entry env1 = tlb_entry env" by (simp_all add: env1_def)
  have set: "xtensa_tlb_set_entry_mmu env1 e ?d wi vpn pte = xtensa_tlb_set_entry_mmu env e ?d wi vpn pte" for e
    using env1(1) by (simp add: xtensa_tlb_set_entry_mmu_def same_tlbcfg_simps [OF env1(1)] same_tlbcfg_def)
  have w: "helper_wtlb env pte v ?d = Ret () env'"
    unfolding helper_wtlb_def spec
    using mmu wi size var
    by (simp add: xtensa_tlb_set_entry_def xtensa_tlb_get_entry_def Let_def env1_def [symmetric] set
        set_entry_mmu_fields env'_def)
  have cfg: "same_tlbcfg env env'" using env1(1) by (simp add: env'_def)
  have new: "tlb_entry env' ?d w i = (if w = wi \<and> i = ei
      then xtensa_tlb_set_entry_mmu env ?e ?d wi vpn pte else tlb_entry env ?d w i)" for w i
    by (simp add: env'_def env1(2))
  have "xtensa_tlb_lookup env' vaddr ?d = Inr (wi, ei, pte_ring pte)"
    using rasid wi split' cfg new others by (rule store_then_lookup)
  then have "mmu_translate walk env' upd vaddr is_write idx =
      Ret (mmu_check env' wi (tlb_entry env' ?d wi ei) (pte_ring pte) vaddr is_write idx) env'" for walk
    by (rule translate_hit) (use wi size in \<open>simp_all add: same_tlbcfg_simps [OF cfg]\<close>)
  then have "xtensa_get_physical_addr ldl env' upd vaddr is_write idx =
      Ret (page_result env wi pte vaddr is_write idx) env'"
    using mmu by (simp add: xtensa_get_physical_addr_def same_tlbcfg_simps [OF cfg] get_physical_addr_mmu_def
        mmu_check_same [OF cfg] new mmu_check_set_entry)
  with w show ?thesis by blast
qed

section \<open>Page-table refill\<close>

lemma lookup_missD:
  assumes "xtensa_tlb_lookup env addr d = Inl (if d then LOAD_STORE_TLB_MISS_CAUSE else INST_TLB_MISS_CAUSE)"
    and "w < nways (cfg_tlb env d)"
  shows "\<not> tlb_match env addr d w"
proof -
  let ?hits = "map (tlb_hit env addr d) (filter (tlb_match env addr d) [0..<nways (cfg_tlb env d)])"
  have "lookup_result d ?hits = Inl (if d then LOAD_STORE_TLB_MISS_CAUSE else INST_TLB_MISS_CAUSE)"
    using assms(1) by (simp add: xtensa_tlb_lookup_def tlb_scan_eq)
  then have "?hits = []" by (simp add: lookup_result_def split: list.split_asm if_split_asm)
  then show ?thesis using assms(2) by (simp add: filter_empty_conv)
qed

lemma refill_way_addressing:
  assumes "wi < 4"
  shows "xtensa_tlb_get_addr_mask env d wi = xtensa_tlb_get_addr_mask env d 0"
    "split_tlb_entry_spec_way env v d wi = split_tlb_entry_spec_way env v d 0"
  using assms by (simp_all add: xtensa_tlb_get_addr_mask_def split_tlb_entry_spec_way_def Let_def)

lemma page_result_refill_way: "wi < 4 \<Longrightarrow> page_result env wi = page_result env 0"
  by (simp add: fun_eq_iff page_result_def refill_way_addressing [of wi])

text \<open>The entry that a refill installs, and the state it leaves.\<close>

definition refilled :: "env \<Rightarrow> bool \<Rightarrow> u32 \<Rightarrow> u32 \<Rightarrow> u32 \<Rightarrow> nat \<Rightarrow> env" where
  "refilled env d vaddr pte vpn ei =
     (let wi = unat ((autorefill_idx env + 1) AND 0x3);
          e = tlb_entry env d wi ei;
          env1 = env\<lparr>autorefill_idx := autorefill_idx env + 1\<rparr>;
          env2 = (if te_asid e \<noteq> 0 then call (Tlb_flush_page (te_vaddr e)) env1 else env1)
      in set_sreg EXCVADDR vaddr (call (Tlb_flush_page vpn)
           (tlb_store d wi ei (xtensa_tlb_set_entry_mmu env e d wi vpn pte) env2)))"

lemma refilled_frame:
  "same_tlbcfg env (refilled env d vaddr pte vpn ei)"
  "autorefill_idx (refilled env d vaddr pte vpn ei) = autorefill_idx env + 1"
  "sregs (refilled env d vaddr pte vpn ei) EXCVADDR = vaddr"
  "tlb_entry (refilled env d vaddr pte vpn ei) d w i =
     (let wi = unat ((autorefill_idx env + 1) AND 0x3) in
      if w = wi \<and> i = ei then xtensa_tlb_set_entry_mmu env (tlb_entry env d wi ei) d wi vpn pte
      else tlb_entry env d w i)"
  "d' \<noteq> d \<Longrightarrow> tlb_entry (refilled env d vaddr pte vpn ei) d' w i = tlb_entry env d' w i"
  by (simp_all add: refilled_def Let_def)
    (simp_all add: set_sreg_def call_def tlb_store_def tlb_entry_def)

text \<open>The low two bits of the incremented index, as a number.\<close>

lemma next_refill_way: "unat ((n + 1) AND 0x3) = (unat n + 1) mod 4" for n :: u32
proof -
  have "unat ((n + 1) AND mask 2) = (unat n + 1) mod 2 ^ 32 mod 4"
    unfolding unat_and_mask by (simp add: unat_word_ariths)
  also have "\<dots> = (unat n + 1) mod 4"
    by (rule mod_mod_cancel) simp
  finally show ?thesis
    by (simp add: mask_eq_exp_minus_1)
qed

lemma refilled_entries:
  "tlb_entry (refilled env d vaddr pte vpn ei) d' w i =
     (if d' = d \<and> w = (unat (autorefill_idx env) + 1) mod 4 \<and> i = ei
      then xtensa_tlb_set_entry_mmu env (tlb_entry env d' w i) d' w vpn pte else tlb_entry env d' w i)"
proof (cases "d' = d")
  case True
  then show ?thesis
    using refilled_frame(4) [of env d vaddr pte vpn ei w i] unfolding next_refill_way Let_def by auto
qed (simp add: refilled_frame(5))

lemma set_entry_mmu_idx:
  "xtensa_tlb_set_entry_mmu (env\<lparr>autorefill_idx := i\<rparr>) = xtensa_tlb_set_entry_mmu env"
  "xtensa_tlb_set_entry_mmu (call c env) = xtensa_tlb_set_entry_mmu env"
proof -
  have cfg: "same_tlbcfg env (env\<lparr>autorefill_idx := i\<rparr>)" "same_tlbcfg env (call c env)" by simp_all
  show "xtensa_tlb_set_entry_mmu (env\<lparr>autorefill_idx := i\<rparr>) = xtensa_tlb_set_entry_mmu env"
    "xtensa_tlb_set_entry_mmu (call c env) = xtensa_tlb_set_entry_mmu env"
    by (simp_all add: fun_eq_iff xtensa_tlb_set_entry_mmu_def cfg [THEN same_tlbcfg_simps(1)])
qed

lemma cfg_tlb_frame [simp]:
  "cfg_tlb (env\<lparr>autorefill_idx := i\<rparr>) = cfg_tlb env" "cfg_tlb (call c env) = cfg_tlb env"
  "cfg_tlb (set_sreg r v env) = cfg_tlb env" "cfg_tlb (tlb_store d wi ei e env) = cfg_tlb env"
  by (simp_all add: fun_eq_iff cfg_tlb_def)

lemma set_entry_refill:
  assumes "xtensa_option_enabled (config env) XTENSA_OPTION_MMU"
    and wi: "wi = unat ((autorefill_idx env + 1) AND 0x3)" "wi < nways (cfg_tlb env d)"
    and "ei < way_size (cfg_tlb env d) wi" "te_variable (tlb_entry env d wi ei)"
  shows "\<exists>env2. xtensa_tlb_set_entry (env\<lparr>autorefill_idx := autorefill_idx env + 1\<rparr>) d wi ei vpn pte = Ret () env2 \<and>
    set_sreg EXCVADDR vaddr env2 = refilled env d vaddr pte vpn ei"
  using assms(1,3-) unfolding refilled_def wi(1) [symmetric]
  by (simp add: xtensa_tlb_set_entry_def xtensa_tlb_get_entry_def Let_def set_entry_mmu_idx set_entry_mmu_fields)

text \<open>
  C12. On a TLB miss whose page-table entry can be read, the translation with refill, the
  side-effect free translation used by the debugger, and every later translation of the
  address give the same result, the one the page-table entry describes. The refill advances the
  round-robin index, installs the entry in the one of the four refill ways that the new index
  selects, for the virtual page of the address, changes no other entry of either TLB, and sets
  EXCVADDR; later translations hit that entry without reading the page table or changing the
  state.
\<close>

theorem autorefill_agrees:
  assumes mmu: "xtensa_option_enabled (config env) XTENSA_OPTION_MMU"
    and rasid: "rasid_ok env" and nways: "4 \<le> nways (cfg_tlb env (is_write \<noteq> 2))"
    and split: "split_tlb_entry_spec_way env vaddr (is_write \<noteq> 2) 0 = (vpn, ei)"
    and place: "\<And>w. w < 4 \<Longrightarrow> ei < way_size (cfg_tlb env (is_write \<noteq> 2)) w \<and>
      te_variable (tlb_entry env (is_write \<noteq> 2) w ei)"
    and miss: "xtensa_tlb_lookup env vaddr (is_write \<noteq> 2) =
      Inl (if is_write \<noteq> 2 then LOAD_STORE_TLB_MISS_CAUSE else INST_TLB_MISS_CAUSE)"
    and pte: "get_pte ldl env vaddr = Ret (Some pte) env"
  shows "\<exists>env'. xtensa_get_physical_addr ldl env True vaddr is_write idx =
      Ret (page_result env 0 pte vaddr is_write idx) env' \<and>
    xtensa_get_physical_addr ldl env False vaddr is_write idx =
      Ret (page_result env 0 pte vaddr is_write idx) env \<and>
    xtensa_get_physical_addr ldl' env' upd vaddr is_write idx =
      Ret (page_result env 0 pte vaddr is_write idx) env' \<and>
    autorefill_idx env' = autorefill_idx env + 1 \<and> sregs env' EXCVADDR = vaddr \<and>
    (\<forall>d w i. tlb_entry env' d w i =
       (if d = (is_write \<noteq> 2) \<and> w = (unat (autorefill_idx env) + 1) mod 4 \<and> i = ei
        then xtensa_tlb_set_entry_mmu env (tlb_entry env d w i) d w vpn pte else tlb_entry env d w i))"
proof -
  let ?d = "is_write \<noteq> 2"
  define wi where "wi = unat ((autorefill_idx env + 1) AND 0x3)"
  define env' where "env' = refilled env ?d vaddr pte vpn ei"
  have wi: "wi < 4" using word_and_le1 [of "autorefill_idx env + 1" 3] by (simp add: wi_def word_le_nat_alt)
  have split': "split_tlb_entry_spec_way env vaddr ?d wi = (vpn, ei)"
    using refill_way_addressing(2) [OF wi] split by simp
  have cfg: "same_tlbcfg env env'" unfolding env'_def by (rule refilled_frame)
  have new: "tlb_entry env' ?d w i = (if w = wi \<and> i = ei
      then xtensa_tlb_set_entry_mmu env (tlb_entry env ?d wi ei) ?d wi vpn pte else tlb_entry env ?d w i)" for w i
    unfolding env'_def refilled_frame(4) Let_def wi_def ..
  have "wi < nways (cfg_tlb env ?d)" using wi nways by simp
  note place' = this place [OF wi]
  have look: "xtensa_tlb_lookup env' vaddr ?d = Inr (wi, ei, pte_ring pte)"
    using rasid place'(1) split' cfg new lookup_missD [OF miss] by (rule store_then_lookup)
  obtain env2 where env2: "xtensa_tlb_set_entry (env\<lparr>autorefill_idx := autorefill_idx env + 1\<rparr>) ?d wi ei vpn pte = Ret () env2"
      "set_sreg EXCVADDR vaddr env2 = env'"
    using set_entry_refill [OF mmu wi_def place'(1)] place'(2) unfolding env'_def by blast
  have get: "xtensa_tlb_get_entry env' ?d wi ei = Ret (tlb_entry env' ?d wi ei) env'"
    using place' by (simp add: xtensa_tlb_get_entry_def same_tlbcfg_simps [OF cfg])
  have check: "mmu_check env' wi (tlb_entry env' ?d wi ei) (pte_ring pte) vaddr is_write idx =
      page_result env 0 pte vaddr is_write idx"
    by (simp add: mmu_check_same [OF cfg] new mmu_check_set_entry page_result_refill_way [OF wi])
  have "xtensa_get_physical_addr ldl env True vaddr is_write idx = Ret (page_result env 0 pte vaddr is_write idx) env'"
    using mmu miss pte split env2 get check
    by (simp add: xtensa_get_physical_addr_def get_physical_addr_mmu_def mmu_translate_def Let_def wi_def [symmetric])
  moreover have "xtensa_get_physical_addr ldl env False vaddr is_write idx = Ret (page_result env 0 pte vaddr is_write idx) env"
    using mmu miss pte split
    by (simp add: xtensa_get_physical_addr_def get_physical_addr_mmu_def mmu_translate_def mmu_check_set_entry Let_def)
  moreover have "xtensa_get_physical_addr ldl' env' upd vaddr is_write idx = Ret (page_result env 0 pte vaddr is_write idx) env'"
    using mmu look get check
    by (simp add: xtensa_get_physical_addr_def get_physical_addr_mmu_def mmu_translate_def same_tlbcfg_simps [OF cfg])
  moreover have "autorefill_idx env' = autorefill_idx env + 1" "sregs env' EXCVADDR = vaddr"
    unfolding env'_def by (rule refilled_frame)+
  moreover have "tlb_entry env' d w i =
     (if d = ?d \<and> w = (unat (autorefill_idx env) + 1) mod 4 \<and> i = ei
      then xtensa_tlb_set_entry_mmu env (tlb_entry env d w i) d w vpn pte else tlb_entry env d w i)" for d w i
    unfolding env'_def by (rule refilled_entries)
  ultimately show ?thesis by blast
qed

section \<open>Changed entries are flushed\<close>

text \<open>
  C24. The soft-TLB never keeps a translation that an instruction has changed: whenever
  \<^verbatim>\<open>witlb\<close>, \<^verbatim>\<open>wdtlb\<close>, \<^verbatim>\<open>iitlb\<close> or \<^verbatim>\<open>idtlb\<close> changes a TLB entry,
  it flushes the page of the old entry if that was valid, and the page of the new one.
\<close>

theorem changed_entry_flushed:
  assumes "helper_wtlb env p v d = Ret () env' \<or> helper_itlb env v d = Ret () env'"
    and "tlb_entry env' d' wi ei \<noteq> tlb_entry env d' wi ei"
  shows "\<exists>flushed. calls env' = flushed @ calls env \<and>
    (te_asid (tlb_entry env d' wi ei) = 0 \<or> Tlb_flush_page (te_vaddr (tlb_entry env d' wi ei)) \<in> set flushed) \<and>
    Tlb_flush_page (te_vaddr (tlb_entry env' d' wi ei)) \<in> set flushed"
proof -
  have calls: "calls (call c env) = c # calls env" "calls (tlb_store d wi ei e env) = calls env" for c d wi ei e env
    by (simp_all add: call_def tlb_store_def)
  from assms(1) show ?thesis
  proof
    assume "helper_wtlb env p v d = Ret () env'"
    then show ?thesis
      using assms(2)
      by (auto simp: helper_wtlb_def xtensa_tlb_set_entry_def xtensa_tlb_get_entry_def Let_def calls
          set_entry_mmu_fields split: if_split_asm prod.split_asm option.split_asm)
  next
    assume "helper_itlb env v d = Ret () env'"
    then show ?thesis
      using assms(2)
      by (auto simp: helper_itlb_def get_tlb_entry_def xtensa_tlb_get_entry_def Let_def calls
          split: if_split_asm prod.split_asm option.split_asm)
  qed
qed

section \<open>Reset\<close>

text \<open>The identity map of the ESP32-S3, which has region protection and no MMU.\<close>

definition identity_map :: "env \<Rightarrow> bool" where
  "identity_map env \<longleftrightarrow> config env = esp32s3_config \<and>
     (\<forall>d. \<forall>i<8. tlb_entry env d 0 i = \<lparr>te_vaddr = push_bit 29 (of_nat i), te_paddr = push_bit 29 (of_nat i),
        te_asid = 1, te_attr = 2, te_variable = True\<rparr>)"

lemma esp32s3_no_mmu:
  "\<not> xtensa_option_enabled esp32s3_config XTENSA_OPTION_MMU"
  "\<not> xtensa_option_enabled esp32s3_config XTENSA_OPTION_MPU"
  "xtensa_option_bits_enabled esp32s3_config
     (XTENSA_OPTION_BIT XTENSA_OPTION_REGION_PROTECTION OR XTENSA_OPTION_BIT XTENSA_OPTION_REGION_TRANSLATION)"
  by (simp_all add: option_enabled_bit config_simps xtensa_option_bits_enabled_def XTENSA_OPTION_BIT_def)

lemma identity_translate:
  assumes "identity_map env" "is_write < 3"
  shows "xtensa_get_physical_addr ldl env upd vaddr is_write idx =
    Ret (Inr (vaddr, 0x20000000, PAGE_READ OR PAGE_WRITE OR PAGE_EXEC OR PAGE_CACHE_BYPASS)) env"
proof -
  have cfg: "config env = esp32s3_config" using assms(1) by (simp add: identity_map_def)
  let ?ei = "unat (drop_bit 29 vaddr AND 7)"
  have ei: "?ei < 8" using word_and_le1 [of "drop_bit 29 vaddr" 7] by (simp add: word_le_nat_alt)
  then have entry: "tlb_entry env d 0 ?ei = \<lparr>te_vaddr = push_bit 29 (of_nat ?ei),
      te_paddr = push_bit 29 (of_nat ?ei), te_asid = 1, te_attr = 2, te_variable = True\<rparr>" for d
    using assms(1) unfolding identity_map_def by blast
  have join: "push_bit 29 (drop_bit 29 vaddr AND 7) OR (vaddr AND NOT REGION_PAGE_MASK) = vaddr"
    unfolding REGION_PAGE_MASK_def
    by (rule bit_word_eqI) (auto simp: bit_simps bit_small_masks bit_high_masks simp del: bit_numeral_word_iff)
  have access: "region_attr_to_access 2 = PAGE_READ OR PAGE_WRITE OR PAGE_EXEC OR PAGE_CACHE_BYPASS"
    by (simp add: region_attr_to_access_def)
  have granted: "is_access_granted (region_attr_to_access 2) is_write"
    using assms(2) unfolding access by (auto simp: is_access_granted_def page_defs less_Suc_eq numeral_3_eq_3)
  have "xtensa_get_physical_addr ldl env upd vaddr is_write idx = get_physical_addr_region env vaddr is_write idx"
    using cfg esp32s3_no_mmu by (simp add: xtensa_get_physical_addr_def)
  also have "\<dots> = Ret (Inr (vaddr, 0x20000000, region_attr_to_access 2)) env"
    using ei granted join cfg
    by (simp add: get_physical_addr_region_def xtensa_tlb_get_entry_def cfg_tlb_def config_simps esp32s3_tlb_def
        entry Let_def REGION_PAGE_MASK_def)
  finally show ?thesis unfolding access .
qed

lemma reset_identity:
  assumes "config env = esp32s3_config"
  shows "\<exists>env'. reset_mmu env = Ret () env' \<and> identity_map env' \<and>
    sregs env' = (sregs env)(CACHEATTR := 0x22222222) \<and> env_pc env' = env_pc env \<and>
    runstall env' = runstall env \<and> pending_irq_level env' = pending_irq_level env"
  using assms esp32s3_no_mmu
  by (simp add: reset_mmu_def Let_def identity_map_def tlb_entry_def reset_tlb_region_way0_def set_sreg_def)

text \<open>
  C25. After \<^verbatim>\<open>reset_mmu\<close> the ESP32-S3 runs with the identity map: every load, store and
  fetch of every address is granted, translates to the same physical address in a 512 MiB
  region, and bypasses the cache.
\<close>

theorem esp32s3_reset_identity_map:
  assumes "config env = esp32s3_config" "is_write < 3"
  shows "\<exists>env'. reset_mmu env = Ret () env' \<and>
    xtensa_get_physical_addr ldl env' upd vaddr is_write idx =
      Ret (Inr (vaddr, 0x20000000, PAGE_READ OR PAGE_WRITE OR PAGE_EXEC OR PAGE_CACHE_BYPASS)) env'"
  using reset_identity [OF assms(1)] identity_translate [OF _ assms(2)] by blast

section \<open>The MPU\<close>

definition mpu_hit :: "(nat \<Rightarrow> xtensa_mpu_entry) \<Rightarrow> nat \<Rightarrow> u32 \<Rightarrow> nat \<Rightarrow> bool" where
  "mpu_hit entry n vaddr i \<longleftrightarrow>
     me_vaddr (entry i) \<le> vaddr \<and> (i = n - 1 \<or> vaddr < me_vaddr (entry (i + 1)))"

lemma mpu_scan_Cons:
  "mpu_scan entry n vaddr (i # is) nhits seg =
     (if mpu_hit entry n vaddr i
      then if nhits \<noteq> 0 then (nhits + 1, seg) else mpu_scan entry n vaddr is 1 (Some i)
      else mpu_scan entry n vaddr is nhits seg)"
  by (auto simp: mpu_hit_def)

lemma mpu_scan_after_hit:
  "mpu_scan entry n vaddr is 1 seg = (if filter (mpu_hit entry n vaddr) is = [] then (1, seg) else (2, seg))"
  by (induction "is") (simp_all only: mpu_scan_Cons mpu_scan.simps(1) filter.simps, simp_all)

lemma mpu_scan_eq:
  "mpu_scan entry n vaddr is 0 seg =
     (case filter (mpu_hit entry n vaddr) is of
        [] \<Rightarrow> (0, seg) | [i] \<Rightarrow> (1, Some i) | i # _ \<Rightarrow> (2, Some i))"
proof (induction "is")
  case (Cons i "is")
  then show ?case
    by (simp add: mpu_scan_Cons mpu_scan_after_hit [unfolded One_nat_def] del: mpu_scan.simps(2) split: list.split)
qed simp

lemma mpu_lookup_cases:
  obtains "xtensa_mpu_lookup entry n vaddr seg = (0, seg)"
    | i where "xtensa_mpu_lookup entry n vaddr seg = (1, Some i)"
    | i where "xtensa_mpu_lookup entry n vaddr seg = (2, Some i)"
proof -
  let ?f = "filter (mpu_hit entry n vaddr) [0..<n]"
  consider "?f = []" | i where "?f = [i]" | i j k where "?f = i # j # k" by (cases ?f rule: remdups_adj.cases) blast+
  then show thesis by cases (rule that, simp add: xtensa_mpu_lookup_def mpu_scan_eq)+
qed

text \<open>In an ordered map starting at 0, the hit is the last segment that starts at or below the address.\<close>

lemma ordered_mono:
  fixes n :: nat
  assumes "\<And>i. 1 \<le> i \<Longrightarrow> i < n \<Longrightarrow> f (i - 1) \<le> (f i :: u32)" "i \<le> j" "j < n"
  shows "f i \<le> f j"
  using assms(2,3)
proof (induction j)
  case (Suc j)
  have "f j \<le> f (Suc j)" using assms(1) [of "Suc j"] Suc.prems by simp
  then show ?case using Suc by (cases "i = Suc j") (auto intro: order_trans)
qed simp

lemma ordered_unique_hit:
  assumes ord: "\<And>i. 1 \<le> i \<Longrightarrow> i < n \<Longrightarrow> me_vaddr (entry (i - 1)) \<le> me_vaddr (entry i)"
    and "0 < n" "me_vaddr (entry 0) = 0"
  shows "\<exists>i<n. mpu_hit entry n vaddr i \<and> filter (mpu_hit entry n vaddr) [0..<n] = [i]"
proof -
  let ?A = "{i. i < n \<and> me_vaddr (entry i) \<le> vaddr}"
  define i where "i = Max ?A"
  have fin: "finite ?A" and "0 \<in> ?A" using assms(2,3) by auto
  then have "?A \<noteq> {}" by blast
  then have i: "i \<in> ?A" unfolding i_def using fin by (rule Max_in [rotated])
  have hit: "mpu_hit entry n vaddr j \<longleftrightarrow> j = i" if j: "j < n" for j
  proof
    assume h: "mpu_hit entry n vaddr j"
    then have "j \<in> ?A" using j by (simp add: mpu_hit_def)
    then have "j \<le> i" unfolding i_def by (rule Max_ge [OF fin])
    moreover have "\<not> j < i"
    proof
      assume "j < i"
      then have "me_vaddr (entry (j + 1)) \<le> me_vaddr (entry i)"
        using i by (intro ordered_mono [where f = "\<lambda>k. me_vaddr (entry k)", OF ord]) auto
      then show False using h i \<open>j < i\<close> by (auto simp: mpu_hit_def)
    qed
    ultimately show "j = i" by simp
  next
    assume "j = i"
    moreover have "i = n - 1 \<or> vaddr < me_vaddr (entry (i + 1))"
    proof (rule ccontr)
      assume "\<not> ?thesis"
      then have "i + 1 \<in> ?A" using i by auto
      then have "i + 1 \<le> i" unfolding i_def by (rule Max_ge [OF fin])
      then show False by simp
    qed
    ultimately show "mpu_hit entry n vaddr j" using i by (simp add: mpu_hit_def)
  qed
  have "filter (mpu_hit entry n vaddr) [0..<n] = filter (\<lambda>j. j = i) [0..<n]"
    using hit by (intro filter_cong) auto
  then show ?thesis using i hit filter_eq_upt [of i n] by auto
qed

text \<open>
  C15. The background map accepted by reset covers the address space without overlap: every
  address hits exactly one segment, the one it lies in. Hence MPU translation always finds
  an attribute (it never reads an uninitialised segment index), never changes the state, and
  maps granted addresses to themselves.
\<close>

theorem mpu_background_covers:
  assumes "mpu_bg_ok (config env)"
  shows "\<exists>i r. i < n_mpu_bg_segments (config env) \<and>
    xtensa_mpu_lookup (mpu_bg (config env)) (n_mpu_bg_segments (config env)) vaddr seg = (1, Some i) \<and>
    mpu_hit (mpu_bg (config env)) (n_mpu_bg_segments (config env)) vaddr i \<and>
    get_physical_addr_mpu env vaddr is_write idx = Ret r env \<and>
    (case r of Inl cause \<Rightarrow> True | Inr (paddr, page_size, access) \<Rightarrow>
       paddr = vaddr \<and> is_access_granted access is_write)"
proof -
  let ?bg = "mpu_bg (config env)" and ?n = "n_mpu_bg_segments (config env)"
  obtain i where i: "i < ?n" "mpu_hit ?bg ?n vaddr i" "filter (mpu_hit ?bg ?n vaddr) [0..<?n] = [i]"
    using ordered_unique_hit [of ?n ?bg vaddr] assms by (auto simp: mpu_bg_ok_def list_all_iff)
  then have look: "xtensa_mpu_lookup ?bg ?n vaddr s = (1, Some i)" for s
    by (simp add: xtensa_mpu_lookup_def mpu_scan_eq)
  have "\<exists>r. get_physical_addr_mpu env vaddr is_write idx = Ret r env \<and>
    (case r of Inl cause \<Rightarrow> True | Inr (paddr, page_size, access) \<Rightarrow>
       paddr = vaddr \<and> is_access_granted access is_write)"
    by (rule mpu_lookup_cases [of "mpu_fg env" "n_mpu_fg_segments (config env)" vaddr None])
      (auto simp: get_physical_addr_mpu_def look Let_def split: sum.split)
  then show ?thesis using i look by blast
qed

lemma and_pow_cases: "p AND 2 ^ n = 0 \<or> p AND 2 ^ n = (2 ^ n :: u32)"
proof (cases "bit p n")
  case True
  then have "p AND 2 ^ n = (2 ^ n :: u32)" by (intro bit_word_eqI) (auto simp: bit_simps)
  then show ?thesis ..
qed (simp add: and_exp_eq_0_iff_not_bit)

text \<open>
  Memory type and cache attribute disagree: \<^verbatim>\<open>mpu_attr_to_access\<close> looks for the memory
  type in the low bits of the attribute word, where \<^verbatim>\<open>mpu_attr_to_type\<close> shifts it down
  from bit 12 first. Whatever is written with \<^verbatim>\<open>wptlb\<close>, the access rights say that the
  segment bypasses the cache, also for types that \<^verbatim>\<open>mpu_attr_to_type\<close> calls cached.
\<close>

theorem mpu_access_always_bypass:
  "mpu_attr_to_access (p AND XTENSA_MPU_ATTR_MASK) ring AND PAGE_CACHE_MASK = PAGE_CACHE_BYPASS \<and>
   mpu_attr_to_type (0x1ff000 AND XTENSA_MPU_ATTR_MASK) AND XTENSA_MPU_TYPE_CPU_CACHE \<noteq> 0"
proof
  let ?a = "p AND XTENSA_MPU_ATTR_MASK"
  have "p AND 0x100 = 0 \<or> p AND 0x100 = 0x100" using and_pow_cases [of p 8] by simp
  then have "\<not> attr_pattern_match ?a [(0x18f, 0x089), (0x188, 0x080), (0x180, 0x180)]"
    by (auto simp: XTENSA_MPU_ATTR_MASK_def and.assoc)
  then have none: "mpu_attr_to_cpu_cache ?a = 0" by (simp add: mpu_attr_to_cpu_cache_def)
  have idx: "unat (drop_bit 8 (?a AND XTENSA_MPU_ACC_RIGHTS_MASK)) < 16"
    using unat_drop_bit [of 8 "?a AND XTENSA_MPU_ACC_RIGHTS_MASK"]
      word_and_le1 [of ?a XTENSA_MPU_ACC_RIGHTS_MASK]
    by (simp add: word_le_nat_alt XTENSA_MPU_ACC_RIGHTS_MASK_def)
  have "length (mpu_access_table u) = 16" "list_all (\<lambda>x. x AND PAGE_CACHE_MASK = 0) (mpu_access_table u)" for u
    by (simp_all add: mpu_access_table_def page_defs)
  then have "(mpu_access_table u ! unat (drop_bit 8 (?a AND XTENSA_MPU_ACC_RIGHTS_MASK))) AND PAGE_CACHE_MASK = 0" for u
    using idx by (simp add: list_all_length)
  then show "mpu_attr_to_access ?a ring AND PAGE_CACHE_MASK = PAGE_CACHE_BYPASS"
    using none by (simp add: mpu_attr_to_access_def Let_def bit.conj_disj_distrib2)
      (simp add: PAGE_CACHE_MASK_def PAGE_CACHE_BYPASS_def)
  show "mpu_attr_to_type (0x1ff000 AND XTENSA_MPU_ATTR_MASK) AND XTENSA_MPU_TYPE_CPU_CACHE \<noteq> 0"
    by (simp add: mpu_attr_to_type_def mpu_attr_to_cpu_cache_def or_if_def mpu_type_defs Let_def
        XTENSA_MPU_ATTR_MASK_def XTENSA_MPU_MEM_TYPE_MASK_def)
qed

section \<open>Instances\<close>

text \<open>
  A core with an MMU, a 16-entry autorefill TLB and fixed ways 5 and 6, as it is after reset, with
  the page table in the fixed way 5.
\<close>

definition mmu_tlb :: xtensa_tlb where
  "mmu_tlb = \<lparr>nways = 7, way_size = table [4, 4, 4, 4, 4, 2, 2] 0, varway56 = False, nrefillentries = 16\<rparr>"

definition mmu_example :: env where
  "mmu_example =
     (let tlb = reset_tlb_mmu_ways56 mmu_tlb (reset_tlb_mmu_all_ways mmu_tlb (\<lambda>_ _. tmp_entry))
      in (new_cpu (esp32s3_config\<lparr>options := 0x80000000000, cfg_itlb := mmu_tlb, cfg_dtlb := mmu_tlb\<rparr>))
           \<lparr>sregs := (\<lambda>_. 0)(RASID := 0x04030201, PTEVADDR := 0xd0000000), itlb := tlb, dtlb := tlb\<rparr>)"

lemma mmu_example_simps:
  "xtensa_option_enabled (config mmu_example) XTENSA_OPTION_MMU"
  "cfg_tlb mmu_example d = mmu_tlb" "rasid_ok mmu_example" "sregs mmu_example PTEVADDR = 0xd0000000"
  "sregs mmu_example RASID = 0x04030201" "sregs mmu_example ITLBCFG = 0" "sregs mmu_example DTLBCFG = 0"
  by (simp_all add: mmu_example_def option_enabled_bit cfg_tlb_def rasid_ok_def rasid_byte_def Let_def new_cpu_simps)

lemma mmu_example_entry:
  "tlb_entry mmu_example d w i =
     (if w = 5 \<and> i < 2 then reset_way5 ! i else if w = 6 \<and> i < 2 then reset_way6 ! i
      else if w < 7 \<and> i < way_size mmu_tlb w then tmp_entry\<lparr>te_variable := True\<rparr> else tmp_entry)"
  by (simp add: tlb_entry_def mmu_example_def reset_tlb_mmu_ways56_def reset_tlb_mmu_all_ways_def Let_def
      mmu_tlb_def tmp_entry_def)

lemma mmu_example_split:
  "split_tlb_entry_spec_way mmu_example v d w =
     (let w = (if d then w else w mod 8) in
      (v AND (if w = 4 then 0xfff00000 else if w = 5 then 0xf8000000 else if w = 6 then 0xf0000000 else 0xfffff000),
       unat (if w < 4 then drop_bit 12 v AND 0x3 else if w = 4 then drop_bit 20 v AND 0x3
             else if w = 5 then drop_bit 27 v AND 0x1 else if w = 6 then drop_bit 28 v AND 0x1 else 0)))"
  using mmu_example_simps(1)
  by (simp add: split_tlb_entry_spec_way_def xtensa_tlb_get_addr_mask_def get_page_size_def mmu_example_simps
      mmu_tlb_def Let_def cong: if_cong)

lemma way_cases: "w < 7 \<Longrightarrow> w = 0 \<or> w = 1 \<or> w = 2 \<or> w = 3 \<or> w = 4 \<or> w = 5 \<or> w = (6 :: nat)"
  by arith

lemmas mmu_example_eval =
  tlb_match_def mmu_example_split mmu_example_entry tmp_entry_def mmu_tlb_def reset_way5_def reset_way6_def

lemma mmu_example_nomatch:
  "w < 7 \<Longrightarrow> \<not> tlb_match mmu_example 0x12345678 True w" "w < 7 \<Longrightarrow> \<not> tlb_match mmu_example 0x1234 True w"
  by (drule way_cases, elim disjE, simp_all add: mmu_example_eval)+

theorem wtlb_then_translate_witness:
  "\<exists>env'. helper_wtlb mmu_example 0xa003 0x12345001 (0 \<noteq> (2 :: nat)) = Ret () env' \<and>
    xtensa_get_physical_addr (\<lambda>_. None) env' True 0x12345678 0 0 =
      Ret (Inr (0xa678, 0x1000, PAGE_READ OR PAGE_WRITE OR PAGE_CACHE_BYPASS)) env'"
proof -
  have spec: "split_tlb_entry_spec mmu_example 0x12345001 (0 \<noteq> (2 :: nat)) = Some (0x12345000, 1, 1)"
    using mmu_example_simps(1)
    by (simp add: split_tlb_entry_spec_def mmu_example_simps mmu_tlb_def mmu_example_split)
  have "page_result mmu_example 1 0xa003 0x12345678 0 0 =
      Inr (0xa678, 0x1000, PAGE_READ OR PAGE_WRITE OR PAGE_CACHE_BYPASS)"
    using mmu_example_simps(1)
    by (simp add: page_result_def xtensa_tlb_get_addr_mask_def mmu_attr_to_access_def is_access_granted_def page_defs)
  moreover have "0x12345678 AND xtensa_tlb_get_addr_mask mmu_example (0 \<noteq> (2 :: nat)) 1 =
      0x12345001 AND xtensa_tlb_get_addr_mask mmu_example (0 \<noteq> (2 :: nat)) 1"
    using mmu_example_simps(1) by (simp add: xtensa_tlb_get_addr_mask_def)
  ultimately show ?thesis
    using wtlb_then_translate [OF mmu_example_simps(1,3) spec, of "0x12345678" "0xa003" "\<lambda>_. None" True 0]
      mmu_example_nomatch(1)
    by (simp add: mmu_example_simps mmu_example_entry mmu_tlb_def tmp_entry_def)
qed


lemma mmu_example_pte:
  "get_pte (\<lambda>a. if a = 4 then Some 0x8003 else None) mmu_example 0x1234 = Ret (Some 0x8003) mmu_example"
proof -
  have "tlb_match mmu_example 0xd0000004 True w \<longleftrightarrow> w = 5" if "w < 7" for w
    using way_cases [OF that] by (elim disjE) (simp_all add: mmu_example_eval get_ring_def mmu_example_simps upt_rec)
  then have "xtensa_tlb_lookup mmu_example 0xd0000004 True = Inr (tlb_hit mmu_example 0xd0000004 True 5)"
    by (intro lookup_eqI) (simp_all add: mmu_example_simps mmu_tlb_def)
  also have "tlb_hit mmu_example 0xd0000004 True 5 = (5, 0, 0)"
    by (simp add: tlb_hit_def mmu_example_eval get_ring_def mmu_example_simps upt_rec)
  finally have "mmu_translate (\<lambda>env. Ret None env) mmu_example False 0xd0000004 0 0 =
      Ret (mmu_check mmu_example 5 (tlb_entry mmu_example True 5 0) 0 0xd0000004 0 0) mmu_example"
    using translate_hit [of mmu_example "0xd0000004" 0 5 0 0] by (simp add: mmu_example_simps mmu_tlb_def)
  also have "mmu_check mmu_example 5 (tlb_entry mmu_example True 5 0) 0 0xd0000004 0 0 =
      Inr (4, 0x8000000, PAGE_READ OR PAGE_WRITE OR PAGE_CACHE_WB)"
    using mmu_example_simps(1)
    by (simp add: mmu_check_def mmu_example_eval xtensa_tlb_get_addr_mask_def mmu_example_simps
        mmu_attr_to_access_def is_access_granted_def page_defs)
  finally show ?thesis by (simp add: get_pte_def mmu_example_simps)
qed

theorem autorefill_agrees_witness:
  "\<exists>env'. xtensa_get_physical_addr (\<lambda>a. if a = 4 then Some 0x8003 else None) mmu_example True 0x1234 0 0 =
      Ret (page_result mmu_example 0 0x8003 0x1234 0 0) env' \<and>
    tlb_entry env' True ((unat (autorefill_idx mmu_example) + 1) mod 4) 1 =
      xtensa_tlb_set_entry_mmu mmu_example (tlb_entry mmu_example True ((unat (autorefill_idx mmu_example) + 1) mod 4) 1)
        True ((unat (autorefill_idx mmu_example) + 1) mod 4) 0x1000 0x8003 \<and>
    xtensa_get_physical_addr (\<lambda>_. None) env' True 0x1234 0 0 =
      Ret (page_result mmu_example 0 0x8003 0x1234 0 0) env'"
proof -
  have split: "split_tlb_entry_spec_way mmu_example 0x1234 (0 \<noteq> (2 :: nat)) 0 = (0x1000, 1)"
    by (simp add: mmu_example_split)
  have place: "1 < way_size (cfg_tlb mmu_example (0 \<noteq> (2 :: nat))) w \<and>
      te_variable (tlb_entry mmu_example (0 \<noteq> (2 :: nat)) w 1)" if "w < 4" for w
  proof -
    have "w = 0 \<or> w = 1 \<or> w = 2 \<or> w = 3" using that by arith
    then show ?thesis by (elim disjE) (simp_all add: mmu_example_simps mmu_example_eval)
  qed
  have miss: "xtensa_tlb_lookup mmu_example 0x1234 (0 \<noteq> (2 :: nat)) =
      Inl (if 0 \<noteq> (2 :: nat) then LOAD_STORE_TLB_MISS_CAUSE else INST_TLB_MISS_CAUSE)"
    using mmu_example_nomatch(2)
    by (simp add: xtensa_tlb_lookup_def tlb_scan_eq mmu_example_simps mmu_tlb_def filter_empty_conv lookup_result_def)
  have "4 \<le> nways (cfg_tlb mmu_example (0 \<noteq> (2 :: nat)))" by (simp add: mmu_example_simps mmu_tlb_def)
  note refill = autorefill_agrees [OF mmu_example_simps(1,3) this split place miss mmu_example_pte, of 0 "\<lambda>_. None" True]
  have "\<exists>env'. xtensa_get_physical_addr (\<lambda>a. if a = 4 then Some 0x8003 else None) mmu_example True 0x1234 0 0 =
      Ret (page_result mmu_example 0 0x8003 0x1234 0 0) env' \<and>
    xtensa_get_physical_addr (\<lambda>_. None) env' True 0x1234 0 0 =
      Ret (page_result mmu_example 0 0x8003 0x1234 0 0) env' \<and>
    (\<forall>d w i. tlb_entry env' d w i =
       (if d = (0 \<noteq> (2 :: nat)) \<and> w = (unat (autorefill_idx mmu_example) + 1) mod 4 \<and> i = 1
        then xtensa_tlb_set_entry_mmu mmu_example (tlb_entry mmu_example d w i) d w 0x1000 0x8003
        else tlb_entry mmu_example d w i))"
    using refill by blast
  then show ?thesis
    by (elim exE conjE, intro exI conjI) (assumption | simp)+
qed

theorem changed_entry_flushed_witness:
  "\<exists>env'. helper_wtlb mmu_example 0xa003 0x12345001 True = Ret () env' \<and>
    Tlb_flush_page 0x12345000 \<in> set (calls env')"
proof -
  let ?env = "call (Tlb_flush_page 0x12345000) (tlb_store True 1 1
    (xtensa_tlb_set_entry_mmu mmu_example (tlb_entry mmu_example True 1 1) True 1 0x12345000 0xa003) mmu_example)"
  have w: "helper_wtlb mmu_example 0xa003 0x12345001 True = Ret () ?env"
    using mmu_example_simps(1)
    by (simp add: helper_wtlb_def split_tlb_entry_spec_def mmu_example_simps mmu_example_eval Let_def
        xtensa_tlb_set_entry_def xtensa_tlb_get_entry_def set_entry_mmu_fields)
  have "tlb_entry ?env True 1 1 \<noteq> tlb_entry mmu_example True 1 1"
    by (simp add: mmu_example_eval xtensa_tlb_set_entry_mmu_def)
  from changed_entry_flushed [OF disjI1 [OF w] this]
  have "Tlb_flush_page 0x12345000 \<in> set (calls ?env)"
    by (auto simp: set_entry_mmu_fields)
  with w show ?thesis by blast
qed

theorem esp32s3_reset_identity_map_witness:
  "\<exists>env'. reset_mmu (new_cpu esp32s3_config) = Ret () env' \<and>
    xtensa_get_physical_addr (\<lambda>_. None) env' True 0x42000010 2 0 =
      Ret (Inr (0x42000010, 0x20000000, PAGE_READ OR PAGE_WRITE OR PAGE_EXEC OR PAGE_CACHE_BYPASS)) env'"
  by (rule esp32s3_reset_identity_map) (simp_all add: new_cpu_simps)

definition mpu_example :: env where
  "mpu_example = new_cpu (esp32s3_config\<lparr>n_mpu_bg_segments := 2,
     mpu_bg := table [\<lparr>me_vaddr = 0, me_attr = 0x700\<rparr>, \<lparr>me_vaddr = 0x40000000, me_attr = 0x600\<rparr>]
       \<lparr>me_vaddr = 0, me_attr = 0\<rparr>\<rparr>)"

theorem mpu_background_covers_witness:
  "mpu_bg_ok (config mpu_example) \<and>
   (\<exists>i r. i < 2 \<and> xtensa_mpu_lookup (mpu_bg (config mpu_example)) 2 0x40001000 None = (1, Some i) \<and>
     get_physical_addr_mpu mpu_example 0x40001000 1 0 = Ret r mpu_example)"
proof -
  have ok: "mpu_bg_ok (config mpu_example)" and n: "n_mpu_bg_segments (config mpu_example) = 2"
    by (simp_all add: mpu_example_def new_cpu_simps mpu_bg_ok_def upt_rec)
  show ?thesis using ok mpu_background_covers [OF ok, of "0x40001000" None 1 0] unfolding n by blast
qed

end
