(* ===== verification/Dbg_Helper.thy ===== *)
theory Dbg_Helper
  imports Exc_Helper
begin

text \<open>
  Breakpoints: the list of \<^verbatim>\<open>cpu-common.c\<close> that the execution loop consults, and the debug
  registers of \<^verbatim>\<open>target/xtensa/dbg_helper.c\<close> that keep entries of it. The address that
  \<^verbatim>\<open>g_malloc\<close> returns for a new breakpoint is an argument (\<open>alloc\<close>, or the address
  itself); a null pointer that the code would follow is \<^verbatim>\<open>AssertFail\<close>. Watchpoints are
  kept outside the repository: inserting one is an argument that returns the address of the
  watchpoint, or none when it fails. \<^verbatim>\<open>cpu_breakpoint_insert\<close> lets the CPU class adjust the
  address through a hook, \<^verbatim>\<open>gdb_adjust_breakpoint\<close>; the Xtensa class does not set it, so the
  address is used as given.
\<close>

section \<open>The breakpoint list\<close>

definition BP_MEM_READ :: u32 where "BP_MEM_READ = 0x01"
definition BP_MEM_WRITE :: u32 where "BP_MEM_WRITE = 0x02"
definition BP_STOP_BEFORE_ACCESS :: u32 where "BP_STOP_BEFORE_ACCESS = 0x04"
definition BP_GDB :: u32 where "BP_GDB = 0x10"
definition BP_CPU :: u32 where "BP_CPU = 0x20"

definition bp_insert :: "CPUBreakpoint \<Rightarrow> CPUBreakpoint list \<Rightarrow> CPUBreakpoint list" where
  "bp_insert bp bps = (if bp_flags bp AND BP_GDB \<noteq> 0 then bp # bps else bps @ [bp])"

definition cpu_breakpoint_insert :: "nat \<Rightarrow> env \<Rightarrow> u32 \<Rightarrow> u32 \<Rightarrow> nat option \<Rightarrow> env" where
  "cpu_breakpoint_insert ref env pc flags slot =
     (let bp = \<lparr>bp_ref = ref, bp_pc = pc, bp_flags = flags\<rparr>;
          env = env\<lparr>breakpoints := bp_insert bp (breakpoints env)\<rparr>
      in case slot of
           Some i \<Rightarrow> env\<lparr>cpu_breakpoint := (cpu_breakpoint env)(i := Some ref)\<rparr>
         | None \<Rightarrow> env)"

definition bp_remove :: "nat \<Rightarrow> CPUBreakpoint list \<Rightarrow> CPUBreakpoint list" where
  "bp_remove ref bps = filter (\<lambda>bp. bp_ref bp \<noteq> ref) bps"

definition cpu_breakpoint_remove_by_ref :: "env \<Rightarrow> nat \<Rightarrow> env" where
  "cpu_breakpoint_remove_by_ref env ref = env\<lparr>breakpoints := bp_remove ref (breakpoints env)\<rparr>"

fun bp_find :: "u32 \<Rightarrow> u32 \<Rightarrow> CPUBreakpoint list \<Rightarrow> nat option" where
  "bp_find pc flags [] = None"
| "bp_find pc flags (bp # bps) =
     (if bp_pc bp = pc \<and> bp_flags bp = flags then Some (bp_ref bp) else bp_find pc flags bps)"

definition ENOENT :: int where "ENOENT = 2"

definition cpu_breakpoint_remove :: "env \<Rightarrow> u32 \<Rightarrow> u32 \<Rightarrow> env \<times> int" where
  "cpu_breakpoint_remove env pc flags =
     (case bp_find pc flags (breakpoints env) of
        Some ref \<Rightarrow> (cpu_breakpoint_remove_by_ref env ref, 0)
      | None \<Rightarrow> (env, - ENOENT))"

fun remove_all_loop :: "u32 \<Rightarrow> CPUBreakpoint list \<Rightarrow> env \<Rightarrow> env" where
  "remove_all_loop m [] env = env"
| "remove_all_loop m (bp # bps) env =
     remove_all_loop m bps (if bp_flags bp AND m \<noteq> 0 then cpu_breakpoint_remove_by_ref env (bp_ref bp) else env)"

definition cpu_breakpoint_remove_all :: "env \<Rightarrow> u32 \<Rightarrow> env" where
  "cpu_breakpoint_remove_all env m = remove_all_loop m (breakpoints env) env"

definition cpu_breakpoint_test :: "env \<Rightarrow> u32 \<Rightarrow> u32 \<Rightarrow> bool" where
  "cpu_breakpoint_test env pc m = list_ex (\<lambda>bp. bp_pc bp = pc \<and> bp_flags bp AND m \<noteq> 0) (breakpoints env)"

section \<open>Instruction breakpoints\<close>

fun ibreak_loop :: "(env \<Rightarrow> nat) \<Rightarrow> u32 \<Rightarrow> u32 \<Rightarrow> nat list \<Rightarrow> env \<Rightarrow> (env, unit) outcome" where
  "ibreak_loop alloc change v [] env = Ret () env"
| "ibreak_loop alloc change v (i # is) env =
     (if change AND push_bit i 1 \<noteq> 0 then
        if v AND push_bit i 1 \<noteq> 0 then
          ibreak_loop alloc change v is
            (cpu_breakpoint_insert (alloc env) env (sregs env (IBREAKA + i)) BP_CPU (Some i))
        else
          case cpu_breakpoint env i of
            Some ref \<Rightarrow>
              let env = cpu_breakpoint_remove_by_ref env ref
              in ibreak_loop alloc change v is (env\<lparr>cpu_breakpoint := (cpu_breakpoint env)(i := None)\<rparr>)
          | None \<Rightarrow> AssertFail
      else ibreak_loop alloc change v is env)"

definition helper_wsr_ibreakenable :: "(env \<Rightarrow> nat) \<Rightarrow> env \<Rightarrow> u32 \<Rightarrow> (env, unit) outcome" where
  "helper_wsr_ibreakenable alloc env v =
     (let change = v XOR sregs env IBREAKENABLE in
      obind (ibreak_loop alloc change v [0..<nibreak (config env)] env)
        (\<lambda>_ env. Ret () (set_sreg IBREAKENABLE (v AND (push_bit (nibreak (config env)) 1 - 1)) env)))"

definition helper_wsr_ibreaka :: "(env \<Rightarrow> nat) \<Rightarrow> env \<Rightarrow> nat \<Rightarrow> u32 \<Rightarrow> (env, unit) outcome" where
  "helper_wsr_ibreaka alloc env i v =
     (if sregs env IBREAKENABLE AND push_bit i 1 \<noteq> 0 \<and> sregs env (IBREAKA + i) \<noteq> v then
        case cpu_breakpoint env i of
          Some ref \<Rightarrow>
            let env = cpu_breakpoint_remove_by_ref env ref;
                env = cpu_breakpoint_insert (alloc env) env v BP_CPU (Some i)
            in Ret () (set_sreg (IBREAKA + i) v env)
        | None \<Rightarrow> AssertFail
      else Ret () (set_sreg (IBREAKA + i) v env))"

definition xtensa_debug_check_breakpoint :: "env \<Rightarrow> bool" where
  "xtensa_debug_check_breakpoint env =
     (if xtensa_get_cintlevel env \<ge> int (debug_level (config env)) then False
      else list_ex (\<lambda>i. sregs env IBREAKENABLE AND push_bit i 1 \<noteq> 0 \<and> sregs env (IBREAKA + i) = env_pc env)
             [0..<nibreak (config env)])"

section \<open>Data breakpoints\<close>

definition set_dbreak ::
    "(u32 \<Rightarrow> u32 \<Rightarrow> u32 \<Rightarrow> nat option) \<Rightarrow> env \<Rightarrow> nat \<Rightarrow> u32 \<Rightarrow> u32 \<Rightarrow> env" where
  "set_dbreak wp_insert env i dbreaka dbreakc =
     (let flags = BP_CPU OR BP_STOP_BEFORE_ACCESS;
          m = dbreakc OR NOT DBREAKC_MASK;
          env = (case cpu_watchpoint env i of Some wp \<Rightarrow> call (Watchpoint_remove wp) env | None \<Rightarrow> env);
          flags = (if dbreakc AND DBREAKC_SB \<noteq> 0 then flags OR BP_MEM_WRITE else flags);
          flags = (if dbreakc AND DBREAKC_LB \<noteq> 0 then flags OR BP_MEM_READ else flags);
          m = (if (NOT m + 1) AND NOT m \<noteq> 0 then push_bit (32 - clo32 m) 0xffffffff else m);
          env = call (Watchpoint_insert (dbreaka AND m) (NOT m + 1) flags) env
      in env\<lparr>cpu_watchpoint := (cpu_watchpoint env)(i := wp_insert (dbreaka AND m) (NOT m + 1) flags)\<rparr>)"

definition helper_wsr_dbreaka ::
    "(u32 \<Rightarrow> u32 \<Rightarrow> u32 \<Rightarrow> nat option) \<Rightarrow> env \<Rightarrow> nat \<Rightarrow> u32 \<Rightarrow> env" where
  "helper_wsr_dbreaka wp_insert env i v =
     (let dbreakc = sregs env (DBREAKC + i);
          env = (if dbreakc AND DBREAKC_SB_LB \<noteq> 0 \<and> sregs env (DBREAKA + i) \<noteq> v
                 then set_dbreak wp_insert env i v dbreakc else env)
      in set_sreg (DBREAKA + i) v env)"

definition helper_wsr_dbreakc ::
    "(u32 \<Rightarrow> u32 \<Rightarrow> u32 \<Rightarrow> nat option) \<Rightarrow> env \<Rightarrow> nat \<Rightarrow> u32 \<Rightarrow> env" where
  "helper_wsr_dbreakc wp_insert env i v =
     (let env =
        (if (sregs env (DBREAKC + i) XOR v) AND (DBREAKC_SB_LB OR DBREAKC_MASK) \<noteq> 0 then
           if v AND DBREAKC_SB_LB \<noteq> 0 then set_dbreak wp_insert env i (sregs env (DBREAKA + i)) v
           else case cpu_watchpoint env i of
                  Some wp \<Rightarrow>
                    let env = call (Watchpoint_remove wp) env
                    in env\<lparr>cpu_watchpoint := (cpu_watchpoint env)(i := None)\<rparr>
                | None \<Rightarrow> env
         else env)
      in set_sreg (DBREAKC + i) v env)"

section \<open>Breakpoint registers and breakpoint list agree\<close>

text \<open>
  What a client of the breakpoint list relies on: which breakpoints are in it after an insertion
  and a removal. The registers number \<open>n\<close>; \<open>en\<close> tells which are enabled, \<open>addr\<close> their
  addresses and \<open>slot\<close> the breakpoint each one owns.
\<close>

definition coherent ::
    "nat \<Rightarrow> (nat \<Rightarrow> bool) \<Rightarrow> (nat \<Rightarrow> u32) \<Rightarrow> (nat \<Rightarrow> nat option) \<Rightarrow> CPUBreakpoint set \<Rightarrow> bool" where
  "coherent n en addr slot B \<longleftrightarrow>
     (\<forall>i<n. en i \<longrightarrow> (\<exists>r. slot i = Some r \<and> \<lparr>bp_ref = r, bp_pc = addr i, bp_flags = BP_CPU\<rparr> \<in> B)) \<and>
     (\<forall>i<n. \<not> en i \<longrightarrow> slot i = None) \<and>
     (\<forall>b\<in>B. bp_flags b AND BP_CPU \<noteq> 0 \<longrightarrow> (\<exists>i<n. slot i = Some (bp_ref b))) \<and>
     (\<forall>b\<in>B. \<forall>c\<in>B. bp_ref b = bp_ref c \<longrightarrow> b = c) \<and>
     (\<forall>i<n. \<forall>j<n. \<forall>r. slot i = Some r \<longrightarrow> slot j = Some r \<longrightarrow> i = j)"

lemma coherentI:
  assumes "\<And>i. i < n \<Longrightarrow> en i \<Longrightarrow> \<exists>r. slot i = Some r \<and> \<lparr>bp_ref = r, bp_pc = addr i, bp_flags = BP_CPU\<rparr> \<in> B"
    and "\<And>i. i < n \<Longrightarrow> \<not> en i \<Longrightarrow> slot i = None"
    and "\<And>b. b \<in> B \<Longrightarrow> bp_flags b AND BP_CPU \<noteq> 0 \<Longrightarrow> \<exists>i<n. slot i = Some (bp_ref b)"
    and "\<And>b c. b \<in> B \<Longrightarrow> c \<in> B \<Longrightarrow> bp_ref b = bp_ref c \<Longrightarrow> b = c"
    and "\<And>i j r. i < n \<Longrightarrow> j < n \<Longrightarrow> slot i = Some r \<Longrightarrow> slot j = Some r \<Longrightarrow> i = j"
  shows "coherent n en addr slot B"
  using assms unfolding coherent_def by blast

lemma coherent_slot:
  "coherent n en addr slot B \<Longrightarrow> i < n \<Longrightarrow> en i \<Longrightarrow>
     \<exists>r. slot i = Some r \<and> \<lparr>bp_ref = r, bp_pc = addr i, bp_flags = BP_CPU\<rparr> \<in> B"
  unfolding coherent_def by blast

lemma coherent_disabled: "coherent n en addr slot B \<Longrightarrow> i < n \<Longrightarrow> \<not> en i \<Longrightarrow> slot i = None"
  unfolding coherent_def by blast

lemma coherent_cpu:
  "coherent n en addr slot B \<Longrightarrow> b \<in> B \<Longrightarrow> bp_flags b AND BP_CPU \<noteq> 0 \<Longrightarrow> \<exists>i<n. slot i = Some (bp_ref b)"
  unfolding coherent_def by blast

lemma coherent_ref: "coherent n en addr slot B \<Longrightarrow> b \<in> B \<Longrightarrow> c \<in> B \<Longrightarrow> bp_ref b = bp_ref c \<Longrightarrow> b = c"
  unfolding coherent_def by blast

lemma coherent_inj:
  "coherent n en addr slot B \<Longrightarrow> i < n \<Longrightarrow> j < n \<Longrightarrow> slot i = Some r \<Longrightarrow> slot j = Some r \<Longrightarrow> i = j"
  unfolding coherent_def by blast

lemma coherent_owner:
  assumes "coherent n en addr slot B" "i < n" "slot i = Some r"
  shows "en i" "\<lparr>bp_ref = r, bp_pc = addr i, bp_flags = BP_CPU\<rparr> \<in> B"
proof -
  show en: "en i" using coherent_disabled [OF assms(1,2)] assms(3) by (cases "en i") simp_all
  show "\<lparr>bp_ref = r, bp_pc = addr i, bp_flags = BP_CPU\<rparr> \<in> B"
    using coherent_slot [OF assms(1,2) en] assms(3) by simp
qed

locale breakpoint_store =
  fixes ins :: "CPUBreakpoint \<Rightarrow> 's \<Rightarrow> 's" and del :: "nat \<Rightarrow> 's \<Rightarrow> 's" and members :: "'s \<Rightarrow> CPUBreakpoint set"
  assumes members_ins: "members (ins b s) = insert b (members s)"
    and members_del: "members (del r s) = {b \<in> members s. bp_ref b \<noteq> r}"
begin

lemma enable:
  assumes c: "coherent n en addr slot (members s)" and i: "i < n" "\<not> en i" and r: "r \<notin> bp_ref ` members s"
  shows "coherent n (en(i := True)) addr (slot(i := Some r))
    (members (ins \<lparr>bp_ref = r, bp_pc = addr i, bp_flags = BP_CPU\<rparr> s))"
proof -
  have unused: "slot j \<noteq> Some r" if "j < n" for j
    using coherent_owner(2) [OF c that] r by force
  have ref: "bp_ref b \<noteq> r" "r \<noteq> bp_ref b" if "b \<in> members s" for b using r that by blast+
  have none: "slot i = None" using coherent_disabled [OF c i] .
  show ?thesis
  proof (rule coherentI)
    fix j assume "j < n" "(en(i := True)) j"
    then show "\<exists>r'. (slot(i := Some r)) j = Some r' \<and> \<lparr>bp_ref = r', bp_pc = addr j, bp_flags = BP_CPU\<rparr> \<in>
        members (ins \<lparr>bp_ref = r, bp_pc = addr i, bp_flags = BP_CPU\<rparr> s)"
      using coherent_slot [OF c, of j] by (cases "j = i") (auto simp: members_ins)
  next
    fix j assume "j < n" "\<not> (en(i := True)) j"
    then show "(slot(i := Some r)) j = None" using coherent_disabled [OF c, of j] by (auto split: if_splits)
  next
    fix b assume b: "b \<in> members (ins \<lparr>bp_ref = r, bp_pc = addr i, bp_flags = BP_CPU\<rparr> s)" "bp_flags b AND BP_CPU \<noteq> 0"
    then show "\<exists>j<n. (slot(i := Some r)) j = Some (bp_ref b)"
    proof (cases "bp_ref b = r")
      case False
      then have "b \<in> members s" using b by (auto simp: members_ins)
      then obtain j where "j < n" "slot j = Some (bp_ref b)" using coherent_cpu [OF c _ b(2)] by blast
      then show ?thesis using none by (intro exI [of _ j]) auto
    qed (use i in auto)
  qed (use ref coherent_ref [OF c] coherent_inj [OF c] unused in \<open>auto simp: members_ins split: if_splits\<close>)
qed

lemma disable:
  assumes c: "coherent n en addr slot (members s)" and i: "i < n" "slot i = Some r"
  shows "coherent n (en(i := False)) addr (slot(i := None)) (members (del r s))"
proof (rule coherentI)
  fix j assume "j < n" "(en(i := False)) j"
  then show "\<exists>r'. (slot(i := None)) j = Some r' \<and> \<lparr>bp_ref = r', bp_pc = addr j, bp_flags = BP_CPU\<rparr> \<in> members (del r s)"
    using coherent_slot [OF c, of j] coherent_inj [OF c i(1) _ i(2), of j] by (auto simp: members_del split: if_splits)
next
  fix b assume "b \<in> members (del r s)" "bp_flags b AND BP_CPU \<noteq> 0"
  then obtain j where "j < n" "slot j = Some (bp_ref b)" "bp_ref b \<noteq> r"
    using coherent_cpu [OF c] by (auto simp: members_del)
  then show "\<exists>j<n. (slot(i := None)) j = Some (bp_ref b)" using i by (intro exI [of _ j]) auto
qed (use coherent_disabled [OF c] coherent_ref [OF c] coherent_inj [OF c] in \<open>auto simp: members_del split: if_splits\<close>)

lemma retarget:
  assumes c: "coherent n en addr slot (members s)" and i: "i < n" "slot i = Some r"
    and r': "r' \<notin> bp_ref ` members (del r s)"
  shows "coherent n en (addr(i := v)) (slot(i := Some r'))
    (members (ins \<lparr>bp_ref = r', bp_pc = v, bp_flags = BP_CPU\<rparr> (del r s)))"
proof -
  have d: "coherent n (en(i := False)) (addr(i := v)) (slot(i := None)) (members (del r s))"
    using disable [OF c i] unfolding coherent_def by auto
  have "en(i := True) = en" using coherent_owner(1) [OF c i] by (simp add: fun_upd_idem)
  with enable [OF d i(1) _ r'] show ?thesis by simp
qed

text \<open>Breakpoints of the debugger do not disturb the registers.\<close>

lemma foreign_ins:
  assumes c: "coherent n en addr slot (members s)" and "bp_flags b AND BP_CPU = 0" "bp_ref b \<notin> bp_ref ` members s"
  shows "coherent n en addr slot (members (ins b s))"
proof (rule coherentI)
  fix i assume "i < n" "en i"
  then show "\<exists>r. slot i = Some r \<and> \<lparr>bp_ref = r, bp_pc = addr i, bp_flags = BP_CPU\<rparr> \<in> members (ins b s)"
    using coherent_slot [OF c, of i] by (auto simp: members_ins)
qed (use assms(2,3) coherent_disabled [OF c] coherent_cpu [OF c] coherent_ref [OF c] coherent_inj [OF c]
    in \<open>auto simp: members_ins image_iff\<close>)

lemma foreign_del:
  assumes c: "coherent n en addr slot (members s)"
    and foreign: "\<And>b. b \<in> members s \<Longrightarrow> bp_ref b = r \<Longrightarrow> bp_flags b AND BP_CPU = 0"
  shows "coherent n en addr slot (members (del r s))"
proof -
  have own: "slot i \<noteq> Some r" if "i < n" for i
    using coherent_owner(2) [OF c that] foreign by (fastforce simp: BP_CPU_def)
  show ?thesis
  proof (rule coherentI)
    fix i assume i: "i < n" "en i"
    then obtain r' where r': "slot i = Some r'" "\<lparr>bp_ref = r', bp_pc = addr i, bp_flags = BP_CPU\<rparr> \<in> members s"
      using coherent_slot [OF c] by blast
    then show "\<exists>r'. slot i = Some r' \<and> \<lparr>bp_ref = r', bp_pc = addr i, bp_flags = BP_CPU\<rparr> \<in> members (del r s)"
      using own [OF i(1)] by (auto simp: members_del)
  qed (use coherent_disabled [OF c] coherent_cpu [OF c] coherent_ref [OF c] coherent_inj [OF c]
      in \<open>auto simp: members_del\<close>)
qed

end

interpretation bl: breakpoint_store bp_insert bp_remove set
  by unfold_locales (auto simp: bp_insert_def bp_remove_def)

text \<open>The documented behaviour of the allocator: a new object is none of those in use.\<close>

definition fresh_alloc :: "(env \<Rightarrow> nat) \<Rightarrow> bool" where
  "fresh_alloc alloc \<longleftrightarrow> (\<forall>env. alloc env \<notin> bp_ref ` set (breakpoints env))"

definition ibreak_ok :: "env \<Rightarrow> bool" where
  "ibreak_ok env \<longleftrightarrow> nibreak (config env) \<le> 16 \<and>
     coherent (nibreak (config env)) (bit (sregs env IBREAKENABLE)) (\<lambda>i. sregs env (IBREAKA + i))
       (cpu_breakpoint env) (set (breakpoints env))"

lemma insert_frame [simp]:
  "breakpoints (cpu_breakpoint_insert ref env pc flags slot) =
     bp_insert \<lparr>bp_ref = ref, bp_pc = pc, bp_flags = flags\<rparr> (breakpoints env)"
  "cpu_breakpoint (cpu_breakpoint_insert ref env pc flags (Some i)) = (cpu_breakpoint env)(i := Some ref)"
  "cpu_breakpoint (cpu_breakpoint_insert ref env pc flags None) = cpu_breakpoint env"
  "sregs (cpu_breakpoint_insert ref env pc flags slot) = sregs env"
  "config (cpu_breakpoint_insert ref env pc flags slot) = config env"
  "env_pc (cpu_breakpoint_insert ref env pc flags slot) = env_pc env"
  by (simp_all add: cpu_breakpoint_insert_def Let_def split: option.split)

lemma remove_frame [simp]:
  "breakpoints (cpu_breakpoint_remove_by_ref env ref) = bp_remove ref (breakpoints env)"
  "cpu_breakpoint (cpu_breakpoint_remove_by_ref env ref) = cpu_breakpoint env"
  "sregs (cpu_breakpoint_remove_by_ref env ref) = sregs env"
  "config (cpu_breakpoint_remove_by_ref env ref) = config env"
  "env_pc (cpu_breakpoint_remove_by_ref env ref) = env_pc env"
  by (simp_all add: cpu_breakpoint_remove_by_ref_def)

lemma ibreak_loop_coherent:
  assumes "fresh_alloc alloc" "distinct is" "\<forall>i\<in>set is. i < n \<and> (bit change i \<longleftrightarrow> bit v i \<noteq> en i)"
    and "coherent n en (\<lambda>i. sregs env (IBREAKA + i)) (cpu_breakpoint env) (set (breakpoints env))"
  shows "\<exists>env'. ibreak_loop alloc change v is env = Ret () env' \<and>
    coherent n (\<lambda>i. if i \<in> set is then bit v i else en i) (\<lambda>i. sregs env (IBREAKA + i))
      (cpu_breakpoint env') (set (breakpoints env')) \<and>
    sregs env' = sregs env \<and> config env' = config env \<and> env_pc env' = env_pc env"
  using assms(2-)
proof (induction "is" arbitrary: env en)
  case (Cons i "is")
  note c = Cons.prems(3)
  have i: "i < n" "bit change i \<longleftrightarrow> bit v i \<noteq> en i" using Cons.prems(2) by auto
  have upd: "(\<lambda>j. if j \<in> set is then bit v j else (en(i := bit v i)) j) =
      (\<lambda>j. if j \<in> set (i # is) then bit v j else en j)"
    by auto
  have rest: "\<forall>j\<in>set is. j < n \<and> (bit change j \<longleftrightarrow> bit v j \<noteq> (en(i := bit v i)) j)" using Cons.prems by auto
  note IH = Cons.IH [OF _ rest, unfolded upd]
  consider "bit v i" "\<not> en i" | "\<not> bit v i" "en i" | "bit v i = en i" by blast
  then show ?case
  proof cases
    case 1
    let ?env = "cpu_breakpoint_insert (alloc env) env (sregs env (IBREAKA + i)) BP_CPU (Some i)"
    have "coherent n (en(i := bit v i)) (\<lambda>j. sregs ?env (IBREAKA + j)) (cpu_breakpoint ?env) (set (breakpoints ?env))"
      using bl.enable [OF c i(1) 1(2), of "alloc env"] 1(1) assms(1) by (simp add: fresh_alloc_def)
    from IH [OF _ this] Cons.prems(1) 1 i show ?thesis by (simp add: and_exp_eq_0_iff_not_bit)
  next
    case 2
    obtain r where r: "cpu_breakpoint env i = Some r" using coherent_slot [OF c i(1) 2(2)] by blast
    let ?env = "(cpu_breakpoint_remove_by_ref env r)\<lparr>cpu_breakpoint := (cpu_breakpoint env)(i := None)\<rparr>"
    have "coherent n (en(i := bit v i)) (\<lambda>j. sregs ?env (IBREAKA + j)) (cpu_breakpoint ?env) (set (breakpoints ?env))"
      using bl.disable [OF c i(1) r] 2(1) by simp
    from IH [OF _ this] Cons.prems(1) 2 i r show ?thesis by (simp add: and_exp_eq_0_iff_not_bit)
  next
    case 3
    then have "coherent n (en(i := bit v i)) (\<lambda>j. sregs env (IBREAKA + j)) (cpu_breakpoint env) (set (breakpoints env))"
      using c by (simp add: fun_upd_idem)
    from IH [OF _ this] Cons.prems(1) 3 i show ?thesis by (simp add: and_exp_eq_0_iff_not_bit)
  qed
qed simp

lemma wsr_ibreakenable_ok:
  assumes "fresh_alloc alloc" "ibreak_ok env"
  shows "\<exists>env'. helper_wsr_ibreakenable alloc env v = Ret () env' \<and> ibreak_ok env'"
proof -
  let ?n = "nibreak (config env)" and ?change = "v XOR sregs env IBREAKENABLE"
  have n: "?n \<le> 16" and c: "coherent ?n (bit (sregs env IBREAKENABLE)) (\<lambda>i. sregs env (IBREAKA + i))
      (cpu_breakpoint env) (set (breakpoints env))"
    using assms(2) by (auto simp: ibreak_ok_def)
  obtain env' where env': "ibreak_loop alloc ?change v [0..<?n] env = Ret () env'"
      "coherent ?n (\<lambda>i. if i \<in> set [0..<?n] then bit v i else bit (sregs env IBREAKENABLE) i)
        (\<lambda>i. sregs env (IBREAKA + i)) (cpu_breakpoint env') (set (breakpoints env'))"
      "sregs env' = sregs env" "config env' = config env"
    using ibreak_loop_coherent [OF assms(1) distinct_upt _ c, of 0 ?n ?change v] by (auto simp: bit_xor_iff)
  let ?w = "v AND (push_bit ?n 1 - 1)"
  have "push_bit ?n 1 - 1 = (mask ?n :: u32)" by (simp add: mask_eq_exp_minus_1 push_bit_eq_mult)
  then have w: "bit ?w i \<longleftrightarrow> bit v i" if "i < ?n" for i
    using that n by (simp add: bit_and_iff bit_mask_iff)
  have "coherent ?n (bit ?w) (\<lambda>i. sregs env (IBREAKA + i)) (cpu_breakpoint env') (set (breakpoints env'))"
    using env'(2) w unfolding coherent_def by simp
  then have "ibreak_ok (set_sreg IBREAKENABLE ?w env')"
    using n env'(3,4) by (simp add: ibreak_ok_def set_sreg_def)
  then show ?thesis using env' by (auto simp: helper_wsr_ibreakenable_def Let_def)
qed

lemma wsr_ibreaka_ok:
  assumes "fresh_alloc alloc" "ibreak_ok env" "i < nibreak (config env)"
  shows "\<exists>env'. helper_wsr_ibreaka alloc env i v = Ret () env' \<and> ibreak_ok env'"
proof -
  let ?n = "nibreak (config env)" and ?addr = "\<lambda>i. sregs env (IBREAKA + i)"
  have n: "?n \<le> 16" and c: "coherent ?n (bit (sregs env IBREAKENABLE)) ?addr
      (cpu_breakpoint env) (set (breakpoints env))"
    using assms(2) by (auto simp: ibreak_ok_def)
  have addr: "(\<lambda>j. ((sregs env)(IBREAKA + i := v)) (IBREAKA + j)) = ?addr(i := v)" by auto
  have same: "ibreak_ok (set_sreg (IBREAKA + i) v env)" if "\<not> bit (sregs env IBREAKENABLE) i \<or> ?addr i = v"
  proof -
    have "coherent ?n (bit (sregs env IBREAKENABLE)) (?addr(i := v)) (cpu_breakpoint env) (set (breakpoints env))"
      using c that unfolding coherent_def by fastforce
    then show ?thesis using n addr by (simp add: ibreak_ok_def set_sreg_def)
  qed
  show ?thesis
  proof (cases "bit (sregs env IBREAKENABLE) i \<and> ?addr i \<noteq> v")
    case True
    obtain r where r: "cpu_breakpoint env i = Some r" using coherent_slot [OF c assms(3)] True by blast
    let ?e1 = "cpu_breakpoint_remove_by_ref env r"
    let ?e2 = "cpu_breakpoint_insert (alloc ?e1) ?e1 v BP_CPU (Some i)"
    have "alloc ?e1 \<notin> bp_ref ` set (bp_remove r (breakpoints env))"
      using assms(1) unfolding fresh_alloc_def by (metis remove_frame(1))
    from bl.retarget [OF c assms(3) r this, of v]
    have "ibreak_ok (set_sreg (IBREAKA + i) v ?e2)" using n addr by (simp add: ibreak_ok_def set_sreg_def)
    then show ?thesis using True r by (simp add: helper_wsr_ibreaka_def and_exp_eq_0_iff_not_bit Let_def)
  next
    case False
    then show ?thesis using same by (auto simp: helper_wsr_ibreaka_def and_exp_eq_0_iff_not_bit)
  qed
qed

text \<open>With the breakpoints of a debugger in the list as well.\<close>

definition dbg_ok :: "env \<Rightarrow> bool" where
  "dbg_ok env \<longleftrightarrow> ibreak_ok env \<and> (\<forall>b\<in>set (breakpoints env). bp_flags b = BP_GDB \<or> bp_flags b = BP_CPU)"

lemma bp_masks [simp]: "BP_GDB AND BP_CPU = 0" "BP_CPU AND BP_GDB = 0" "BP_GDB \<noteq> 0" "BP_CPU \<noteq> 0"
  by (simp_all add: BP_GDB_def BP_CPU_def)

lemma ibreak_loop_flags:
  "ibreak_loop alloc change v is env = Ret () env' \<Longrightarrow> b \<in> set (breakpoints env') \<Longrightarrow>
     b \<in> set (breakpoints env) \<or> bp_flags b = BP_CPU"
  by (induction "is" arbitrary: env)
    (fastforce simp: bp_remove_def bp_insert_def Let_def split: if_split_asm option.split_asm)+

lemma dbg_ok_wsr:
  assumes "fresh_alloc alloc" "dbg_ok env"
  shows "\<exists>env'. helper_wsr_ibreakenable alloc env v = Ret () env'"
    and "helper_wsr_ibreakenable alloc env v = Ret () env' \<Longrightarrow> dbg_ok env'"
    and "i < nibreak (config env) \<Longrightarrow> \<exists>env'. helper_wsr_ibreaka alloc env i v = Ret () env'"
    and "i < nibreak (config env) \<Longrightarrow> helper_wsr_ibreaka alloc env i v = Ret () env' \<Longrightarrow> dbg_ok env'"
proof -
  have ok: "ibreak_ok env" and fl: "\<forall>b\<in>set (breakpoints env). bp_flags b = BP_GDB \<or> bp_flags b = BP_CPU"
    using assms(2) by (auto simp: dbg_ok_def)
  show "\<exists>env'. helper_wsr_ibreakenable alloc env v = Ret () env'"
    using wsr_ibreakenable_ok [OF assms(1) ok] by blast
  show "\<exists>env'. helper_wsr_ibreaka alloc env i v = Ret () env'" if "i < nibreak (config env)"
    using wsr_ibreaka_ok [OF assms(1) ok that] by blast
  show "dbg_ok env'" if "helper_wsr_ibreakenable alloc env v = Ret () env'"
    using that wsr_ibreakenable_ok [OF assms(1) ok, of v] fl
    by (auto simp: dbg_ok_def helper_wsr_ibreakenable_def Let_def obind_eq_Ret set_sreg_def dest: ibreak_loop_flags)
  show "dbg_ok env'" if "i < nibreak (config env)" "helper_wsr_ibreaka alloc env i v = Ret () env'"
    using that wsr_ibreaka_ok [OF assms(1) ok that(1), of v] fl
    by (auto simp: dbg_ok_def helper_wsr_ibreaka_def Let_def set_sreg_def bp_insert_def bp_remove_def
        split: if_split_asm option.split_asm)
qed

lemma dbg_ok_gdb_insert:
  assumes "fresh_alloc alloc" "dbg_ok env"
  shows "dbg_ok (cpu_breakpoint_insert (alloc env) env pc BP_GDB None)"
proof -
  have "alloc env \<notin> bp_ref ` set (breakpoints env)" using assms(1) by (simp add: fresh_alloc_def)
  then have "ibreak_ok (cpu_breakpoint_insert (alloc env) env pc BP_GDB None)"
    using assms(2) bl.foreign_ins unfolding dbg_ok_def ibreak_ok_def insert_frame by simp
  then show ?thesis using assms(2) by (auto simp: dbg_ok_def bl.members_ins)
qed

lemma dbg_ok_del_gdb:
  assumes "dbg_ok env" "\<And>b. b \<in> set (breakpoints env) \<Longrightarrow> bp_ref b = r \<Longrightarrow> bp_flags b \<noteq> BP_CPU"
  shows "dbg_ok (cpu_breakpoint_remove_by_ref env r)"
proof -
  have "bp_flags b AND BP_CPU = 0" if "b \<in> set (breakpoints env)" "bp_ref b = r" for b
    using assms that by (auto simp: dbg_ok_def)
  then have "ibreak_ok (cpu_breakpoint_remove_by_ref env r)"
    using assms(1) unfolding dbg_ok_def ibreak_ok_def remove_frame by (auto intro!: bl.foreign_del)
  then show ?thesis using assms(1) by (auto simp: dbg_ok_def bl.members_del)
qed

lemma bp_find_Some: "bp_find pc flags bps = Some r \<Longrightarrow> \<exists>b\<in>set bps. bp_ref b = r \<and> bp_flags b = flags"
  by (induction bps) (auto split: if_splits)

lemma dbg_ok_refs: "dbg_ok env \<Longrightarrow> b \<in> set (breakpoints env) \<Longrightarrow> c \<in> set (breakpoints env) \<Longrightarrow> bp_ref b = bp_ref c \<Longrightarrow> b = c"
  unfolding dbg_ok_def ibreak_ok_def by (blast dest: coherent_ref)

lemma BP_neq: "BP_GDB \<noteq> BP_CPU" by (simp add: BP_GDB_def BP_CPU_def)

lemma dbg_ok_gdb_remove: "dbg_ok env \<Longrightarrow> dbg_ok (fst (cpu_breakpoint_remove env pc BP_GDB))"
proof (cases "bp_find pc BP_GDB (breakpoints env)")
  case (Some r)
  assume ok: "dbg_ok env"
  obtain b where "b \<in> set (breakpoints env)" "bp_ref b = r" "bp_flags b = BP_GDB"
    using bp_find_Some [OF Some] by blast
  then have "bp_flags c \<noteq> BP_CPU" if "c \<in> set (breakpoints env)" "bp_ref c = r" for c
    using dbg_ok_refs [OF ok that(1)] that(2) BP_neq by metis
  from dbg_ok_del_gdb [OF ok this] show ?thesis using Some by (simp add: cpu_breakpoint_remove_def)
qed (simp add: cpu_breakpoint_remove_def)

lemma dbg_ok_remove_all_loop:
  assumes "dbg_ok env" "\<forall>b\<in>set bps. bp_flags b = BP_GDB \<or> bp_flags b = BP_CPU"
    and "\<forall>b\<in>set bps. \<forall>c\<in>set (breakpoints env). bp_ref b = bp_ref c \<longrightarrow> b = c"
  shows "dbg_ok (remove_all_loop BP_GDB bps env)"
  using assms
proof (induction bps arbitrary: env)
  case (Cons b bps)
  show ?case
  proof (cases "bp_flags b = BP_GDB")
    case True
    have "bp_flags c \<noteq> BP_CPU" if "c \<in> set (breakpoints env)" "bp_ref c = bp_ref b" for c
      using Cons.prems(3) that True BP_neq by (metis list.set_intros(1))
    then have ok: "dbg_ok (cpu_breakpoint_remove_by_ref env (bp_ref b))"
      using dbg_ok_del_gdb [OF Cons.prems(1)] by blast
    have "dbg_ok (remove_all_loop BP_GDB bps (cpu_breakpoint_remove_by_ref env (bp_ref b)))"
      by (rule Cons.IH [OF ok]) (use Cons.prems(2,3) in \<open>auto simp: bl.members_del\<close>)
    then show ?thesis using True by simp
  next
    case False
    then have "bp_flags b = BP_CPU" using Cons.prems(2) by simp
    then show ?thesis using Cons.IH [OF Cons.prems(1)] Cons.prems(2,3) by simp
  qed
qed simp

lemma dbg_ok_gdb_remove_all: "dbg_ok env \<Longrightarrow> dbg_ok (cpu_breakpoint_remove_all env BP_GDB)"
  unfolding cpu_breakpoint_remove_all_def
  by (rule dbg_ok_remove_all_loop) (simp, simp add: dbg_ok_def, blast dest: dbg_ok_refs)

text \<open>
  Runs of the debug unit: the guest writes the breakpoint registers and moves on, a debugger
  inserts and removes breakpoints of its own.
\<close>

inductive dbg_run :: "(env \<Rightarrow> nat) \<Rightarrow> env \<Rightarrow> env \<Rightarrow> bool" for alloc where
  start: "dbg_run alloc env env"
| ibreakenable: "dbg_run alloc env e1 \<Longrightarrow> helper_wsr_ibreakenable alloc e1 v = Ret () e2 \<Longrightarrow> dbg_run alloc env e2"
| ibreaka: "dbg_run alloc env e1 \<Longrightarrow> i < nibreak (config e1) \<Longrightarrow> helper_wsr_ibreaka alloc e1 i v = Ret () e2 \<Longrightarrow>
    dbg_run alloc env e2"
| gdb_insert: "dbg_run alloc env e1 \<Longrightarrow> dbg_run alloc env (cpu_breakpoint_insert (alloc e1) e1 pc BP_GDB None)"
| gdb_remove: "dbg_run alloc env e1 \<Longrightarrow> dbg_run alloc env (fst (cpu_breakpoint_remove e1 pc BP_GDB))"
| gdb_remove_all: "dbg_run alloc env e1 \<Longrightarrow> dbg_run alloc env (cpu_breakpoint_remove_all e1 BP_GDB)"
| jump: "dbg_run alloc env e1 \<Longrightarrow> dbg_run alloc env (e1\<lparr>env_pc := pc\<rparr>)"

lemma dbg_run_ok:
  assumes "fresh_alloc alloc" "dbg_run alloc env env'" "dbg_ok env"
  shows "dbg_ok env'"
  using assms(2,3)
proof (induction rule: dbg_run.induct)
  case (ibreakenable env e1 v e2)
  then show ?case using dbg_ok_wsr(2) [OF assms(1)] by blast
next
  case (ibreaka env e1 i v e2)
  then show ?case using dbg_ok_wsr(4) [OF assms(1)] by blast
next
  case (jump env e1 pc)
  then show ?case by (simp add: dbg_ok_def ibreak_ok_def)
qed (simp_all only: dbg_ok_gdb_insert [OF assms(1)] dbg_ok_gdb_remove dbg_ok_gdb_remove_all)

text \<open>
  C6. The breakpoint registers and the breakpoint list never drift apart. Starting with no
  breakpoint set and whatever the guest then writes to IBREAKENABLE and IBREAKA while a debugger
  inserts and removes its own breakpoints, the execution loop finds a CPU breakpoint at the pc
  exactly when the registers have one there, and further register writes do not follow a null
  pointer.
\<close>

theorem breakpoints_follow_registers:
  assumes "fresh_alloc alloc" "dbg_run alloc env env'" "nibreak (config env) \<le> 16"
    and "breakpoints env = []" "sregs env IBREAKENABLE = 0" "cpu_breakpoint env = (\<lambda>_. None)"
  shows "(xtensa_debug_check_breakpoint env' \<longleftrightarrow>
      xtensa_get_cintlevel env' < int (debug_level (config env')) \<and>
      cpu_breakpoint_test env' (env_pc env') BP_CPU) \<and>
    (\<exists>env''. helper_wsr_ibreakenable alloc env' v = Ret () env'')"
proof
  have "dbg_ok env" using assms(3-) by (auto simp: dbg_ok_def ibreak_ok_def intro!: coherentI)
  then have ok: "dbg_ok env'" by (rule dbg_run_ok [OF assms(1,2)])
  let ?n = "nibreak (config env')"
  have c: "coherent ?n (bit (sregs env' IBREAKENABLE)) (\<lambda>i. sregs env' (IBREAKA + i))
      (cpu_breakpoint env') (set (breakpoints env'))"
    using ok by (simp add: dbg_ok_def ibreak_ok_def)
  have "(\<exists>i<?n. bit (sregs env' IBREAKENABLE) i \<and> sregs env' (IBREAKA + i) = pc) \<longleftrightarrow>
      (\<exists>b\<in>set (breakpoints env'). bp_pc b = pc \<and> bp_flags b AND BP_CPU \<noteq> 0)" (is "?l \<longleftrightarrow> ?r") for pc
  proof
    assume ?l
    then obtain i where i: "i < ?n" "bit (sregs env' IBREAKENABLE) i" "sregs env' (IBREAKA + i) = pc" by blast
    from coherent_slot [OF c i(1,2)] i(3)
    obtain r where "\<lparr>bp_ref = r, bp_pc = pc, bp_flags = BP_CPU\<rparr> \<in> set (breakpoints env')" by auto
    then show ?r by (rule rev_bexI) simp
  next
    assume ?r
    then obtain b where b: "b \<in> set (breakpoints env')" "bp_pc b = pc" "bp_flags b AND BP_CPU \<noteq> 0" by blast
    then obtain i where i: "i < ?n" "cpu_breakpoint env' i = Some (bp_ref b)" using coherent_cpu [OF c] by blast
    have "\<lparr>bp_ref = bp_ref b, bp_pc = sregs env' (IBREAKA + i), bp_flags = BP_CPU\<rparr> = b"
      using coherent_ref [OF c coherent_owner(2) [OF c i] b(1)] by simp
    then have "sregs env' (IBREAKA + i) = pc" using b(2) by (metis CPUBreakpoint.select_convs(2))
    then show ?l using i coherent_owner(1) [OF c i] by blast
  qed
  from this [of "env_pc env'"]
  show "xtensa_debug_check_breakpoint env' \<longleftrightarrow>
      xtensa_get_cintlevel env' < int (debug_level (config env')) \<and> cpu_breakpoint_test env' (env_pc env') BP_CPU"
    by (auto simp: xtensa_debug_check_breakpoint_def cpu_breakpoint_test_def list_ex_iff and_exp_eq_0_iff_not_bit)
  show "\<exists>env''. helper_wsr_ibreakenable alloc env' v = Ret () env''"
    by (rule dbg_ok_wsr(1) [OF assms(1) ok])
qed

definition alloc_example :: "env \<Rightarrow> nat" where
  "alloc_example env = Suc (foldr max (map bp_ref (breakpoints env)) 0)"

lemma fresh_alloc_example: "fresh_alloc alloc_example"
proof -
  have "x \<le> foldr max xs 0" if "x \<in> set xs" for x :: nat and xs
    using that by (induction xs) auto
  then have "bp_ref b \<le> foldr max (map bp_ref (breakpoints env)) 0" if "b \<in> set (breakpoints env)" for b env
    using that by simp
  then show ?thesis by (force simp: fresh_alloc_def alloc_example_def)
qed

theorem breakpoints_follow_registers_witness:
  "\<exists>env'. helper_wsr_ibreakenable alloc_example (new_cpu esp32s3_config) 1 = Ret () env' \<and>
    (xtensa_debug_check_breakpoint env' \<longleftrightarrow>
      xtensa_get_cintlevel env' < int (debug_level (config env')) \<and>
      cpu_breakpoint_test env' (env_pc env') BP_CPU)"
proof -
  let ?env = "new_cpu esp32s3_config"
  have init: "nibreak (config ?env) \<le> 16" "breakpoints ?env = []" "sregs ?env IBREAKENABLE = 0"
    "cpu_breakpoint ?env = (\<lambda>_. None)"
    by (simp_all add: new_cpu_def esp32s3_config_def)
  note follow = breakpoints_follow_registers [OF fresh_alloc_example _ init]
  obtain env' where e: "helper_wsr_ibreakenable alloc_example ?env 1 = Ret () env'"
    using follow [OF dbg_run.start] by blast
  from follow [OF dbg_run.ibreakenable [OF dbg_run.start e]] e show ?thesis by blast
qed

section \<open>The range a data breakpoint watches\<close>

text \<open>The mask used for the low six address bits, for each of their 64 values.\<close>

lemma dbreak_masks:
  "list_all (\<lambda>n::u32. list_ex (\<lambda>k.
      (if (n + 1) AND n \<noteq> 0 then push_bit (32 - clo32 (NOT n)) 0xffffffff else NOT n) = NOT (mask k) \<and>
      n AND NOT (mask k) = 0 \<and> ((n + 1) AND n \<noteq> 0 \<or> n = mask k)) [0, 1, 2, 3, 4, 5, 6])
     (map of_nat [0..<64])"
  by code_simp

lemma dbreak_mask_cases:
  assumes "m = dbreakc OR NOT DBREAKC_MASK"
  shows "\<exists>k\<le>6. (if (NOT m + 1) AND NOT m \<noteq> 0 then push_bit (32 - clo32 m) 0xffffffff else m) = NOT (mask k) \<and>
    NOT m AND NOT (mask k) = 0 \<and> ((NOT m + 1) AND NOT m \<noteq> 0 \<or> m = NOT (mask k))"
proof -
  let ?n = "NOT m"
  have "?n = NOT dbreakc AND 0x3f" by (simp add: assms DBREAKC_MASK_def)
  then have "unat ?n < 64" using word_and_le1 [of "NOT dbreakc" "0x3f"] by (simp add: word_le_nat_alt)
  then have "?n \<in> set (map of_nat [0..<64])"
    by (simp only: set_map) (intro image_eqI [of _ _ "unat ?n"], simp_all)
  from dbreak_masks [unfolded list_all_iff, rule_format, OF this, unfolded list_ex_iff]
  obtain k where k: "k \<in> set [0, 1, 2, 3, 4, 5, 6]"
      "(if (?n + 1) AND ?n \<noteq> 0 then push_bit (32 - clo32 (NOT ?n)) 0xffffffff else NOT ?n) = NOT (mask k)"
      "?n AND NOT (mask k) = 0" "(?n + 1) AND ?n \<noteq> 0 \<or> ?n = mask k"
    by blast
  have "k \<le> 6" using k(1) by auto
  moreover have "m = NOT (mask k)" if "?n = mask k" using arg_cong [OF that, of "\<lambda>w. NOT w"] by simp
  ultimately show ?thesis using k(2-4) unfolding bit.double_compl by blast
qed

text \<open>
  The watchpoint set for a data breakpoint is a power-of-two block of at most 64 bytes,
  aligned to its size. It watches stores and loads as DBREAKC says. When the mask of DBREAKC is
  contiguous the block is exactly the set of addresses the registers describe, otherwise it
  contains that set.
\<close>

theorem set_dbreak_range:
  "\<exists>k flags. k \<le> 6 \<and>
     hd (calls (set_dbreak wp_insert env i dbreaka dbreakc)) =
       Watchpoint_insert (dbreaka AND NOT (mask k)) (2 ^ k) flags \<and>
     (flags AND BP_MEM_WRITE \<noteq> 0 \<longleftrightarrow> dbreakc AND DBREAKC_SB \<noteq> 0) \<and>
     (flags AND BP_MEM_READ \<noteq> 0 \<longleftrightarrow> dbreakc AND DBREAKC_LB \<noteq> 0) \<and>
     (let m = dbreakc OR NOT DBREAKC_MASK;
          registers = {a. a AND m = dbreaka AND m};
          block = {a. a AND NOT (mask k) = dbreaka AND NOT (mask k)}
      in if (NOT m + 1) AND NOT m = 0 then registers = block else registers \<subseteq> block)"
proof -
  define m where "m = dbreakc OR NOT DBREAKC_MASK"
  obtain k where k: "k \<le> 6"
      "(if (NOT m + 1) AND NOT m \<noteq> 0 then push_bit (32 - clo32 m) 0xffffffff else m) = NOT (mask k)"
      "NOT m AND NOT (mask k) = 0" "(NOT m + 1) AND NOT m \<noteq> 0 \<or> m = NOT (mask k)"
    using dbreak_mask_cases [OF m_def] by blast
  define flags where "flags =
    (let flags = BP_CPU OR BP_STOP_BEFORE_ACCESS;
         flags = (if dbreakc AND DBREAKC_SB \<noteq> 0 then flags OR BP_MEM_WRITE else flags)
     in if dbreakc AND DBREAKC_LB \<noteq> 0 then flags OR BP_MEM_READ else flags)"
  have len: "NOT (NOT (mask k)) + 1 = (2 ^ k :: u32)" by (simp add: mask_eq_exp_minus_1)
  have "hd (calls (set_dbreak wp_insert env i dbreaka dbreakc)) =
      Watchpoint_insert (dbreaka AND NOT (mask k)) (2 ^ k) flags"
    unfolding set_dbreak_def Let_def m_def [symmetric] k(2) len
    by (simp add: call_def flags_def Let_def)
  moreover have "flags AND BP_MEM_WRITE \<noteq> 0 \<longleftrightarrow> dbreakc AND DBREAKC_SB \<noteq> 0"
    "flags AND BP_MEM_READ \<noteq> 0 \<longleftrightarrow> dbreakc AND DBREAKC_LB \<noteq> 0"
    by (simp_all add: flags_def Let_def BP_CPU_def BP_STOP_BEFORE_ACCESS_def BP_MEM_WRITE_def BP_MEM_READ_def)
  moreover have "{a. a AND m = dbreaka AND m} \<subseteq> {a. a AND NOT (mask k) = dbreaka AND NOT (mask k)}"
  proof -
    have "bit m j" if "bit (NOT (mask k) :: u32) j" for j
      using arg_cong [OF k(3), of "\<lambda>w. bit w j"] that by (auto simp: bit_simps)
    then have "NOT (mask k) = m AND NOT (mask k)" by (intro bit_word_eqI) (auto simp: bit_simps)
    then show ?thesis by (metis (mono_tags, lifting) Collect_mono and.assoc)
  qed
  ultimately show ?thesis
    using k(1,4) unfolding m_def [symmetric] Let_def by (intro exI [of _ k] exI [of _ flags]) auto
qed

end
