(* ===== verification/Cpu_Helper.thy ===== *)
theory Cpu_Helper
  imports Mmu_Correct Dbg_Helper
begin

text \<open>
  The handlers the execution loop calls, from \<^verbatim>\<open>target/xtensa/helper.c\<close> and
  \<^verbatim>\<open>target/xtensa/cpu.c\<close>: soft-TLB misses, alignment and bus faults, debug stops, run-stall
  and reset. Code outside the repository enters as arguments: \<open>restore\<close> is
  \<^verbatim>\<open>cpu_restore_state\<close>, \<open>noexc\<close> the state change of \<^verbatim>\<open>cpu_loop_exit_noexc\<close> before
  it leaves the loop, and \<open>parent_hold\<close> the reset of the parent class.
\<close>

abbreviation (input) "CPU_INTERRUPT_HALT \<equiv> 0x20 :: u32"
abbreviation (input) "MMU_INST_FETCH \<equiv> 2 :: nat"

definition DEBUGCAUSE_IC :: u32 where "DEBUGCAUSE_IC = 0x1"
definition DEBUGCAUSE_IB :: u32 where "DEBUGCAUSE_IB = 0x2"
definition DEBUGCAUSE_DB :: u32 where "DEBUGCAUSE_DB = 0x4"
definition BP_WATCHPOINT_HIT :: u32 where "BP_WATCHPOINT_HIT = push_bit 6 (BP_MEM_READ OR BP_MEM_WRITE)"
definition MEMCTL_IL0EN :: u32 where "MEMCTL_IL0EN = 0x1"

section \<open>Program counter\<close>

definition xtensa_cpu_set_pc :: "env \<Rightarrow> u32 \<Rightarrow> env" where
  "xtensa_cpu_set_pc env value = env\<lparr>env_pc := value\<rparr>"

definition xtensa_cpu_get_pc :: "env \<Rightarrow> u32" where
  "xtensa_cpu_get_pc env = env_pc env"

definition xtensa_restore_state_to_opc :: "env \<Rightarrow> u64 list \<Rightarrow> env" where
  "xtensa_restore_state_to_opc env data = env\<lparr>env_pc := ucast (data ! 0)\<rparr>"

definition xtensa_cpu_has_work :: "env \<Rightarrow> bool" where
  "xtensa_cpu_has_work env \<longleftrightarrow> \<not> runstall env \<and> pending_irq_level env \<noteq> 0"

definition xtensa_cpu_mmu_index :: "env \<Rightarrow> nat" where
  "xtensa_cpu_mmu_index env = xtensa_get_cring env"

section \<open>Debug stops\<close>

fun hw_breakpoint_loop :: "env \<Rightarrow> nat list \<Rightarrow> u32" where
  "hw_breakpoint_loop env [] = 0"
| "hw_breakpoint_loop env (i # is) =
     (case cpu_watchpoint env i of
        Some wp \<Rightarrow>
          if watchpoint_flags env wp AND BP_WATCHPOINT_HIT \<noteq> 0
          then DEBUGCAUSE_DB OR push_bit 8 (of_nat i) else hw_breakpoint_loop env is
      | None \<Rightarrow> hw_breakpoint_loop env is)"

definition check_hw_breakpoints :: "env \<Rightarrow> u32" where
  "check_hw_breakpoints env = hw_breakpoint_loop env [0..<ndbreak (config env)]"

definition xtensa_breakpoint_handler :: "(env \<Rightarrow> env) \<Rightarrow> env \<Rightarrow> (env, unit) outcome" where
  "xtensa_breakpoint_handler noexc env =
     (case watchpoint_hit env of
        Some wp \<Rightarrow>
          if watchpoint_flags env wp AND BP_CPU \<noteq> 0 then
            let env = env\<lparr>watchpoint_hit := None\<rparr>; cause = check_hw_breakpoints env in
            obind (if cause \<noteq> 0 then debug_exception_env env cause else Ret () env)
              (\<lambda>_ env. LoopExit (noexc env))
          else Ret () env
      | None \<Rightarrow>
          if cpu_breakpoint_test env (env_pc env) BP_GDB \<or> \<not> cpu_breakpoint_test env (env_pc env) BP_CPU
          then Ret () env
          else
            obind (if sregs env ICOUNT = 0xffffffff \<and> xtensa_get_cintlevel env < uint (sregs env ICOUNTLEVEL)
                   then debug_exception_env env DEBUGCAUSE_IC else debug_exception_env env DEBUGCAUSE_IB)
              (\<lambda>_ env. LoopExit (noexc env)))"

section \<open>Memory faults\<close>

definition xtensa_cpu_do_unaligned_access :: "(env \<Rightarrow> env) \<Rightarrow> env \<Rightarrow> u32 \<Rightarrow> (env, unit) outcome" where
  "xtensa_cpu_do_unaligned_access restore env addr =
     (if xtensa_option_enabled (config env) XTENSA_OPTION_UNALIGNED_EXCEPTION then
        let env = restore env
        in exception_cause_vaddr env (env_pc env) LOAD_STORE_ALIGNMENT_CAUSE addr
      else AssertFail)"

definition TARGET_PAGE_MASK :: u32 where "TARGET_PAGE_MASK = - push_bit 12 1"

definition xtensa_cpu_tlb_fill ::
    "(u32 \<Rightarrow> u32 option) \<Rightarrow> (env \<Rightarrow> env) \<Rightarrow> env \<Rightarrow> u32 \<Rightarrow> nat \<Rightarrow> nat \<Rightarrow> bool \<Rightarrow> (env, bool) outcome" where
  "xtensa_cpu_tlb_fill ldl restore env address access_type mmu_idx probe =
     obind (xtensa_get_physical_addr ldl env True address access_type mmu_idx)
       (\<lambda>r env. case r of
          Inr (paddr, page_size, access) \<Rightarrow>
            Ret True (call (Tlb_set_page (address AND TARGET_PAGE_MASK) (paddr AND TARGET_PAGE_MASK)
                             access mmu_idx page_size) env)
        | Inl ret \<Rightarrow>
            if probe then Ret False env
            else
              let env = restore env
              in obind (exception_cause_vaddr env (env_pc env) ret address) (\<lambda>_ env. AssertFail))"

definition xtensa_cpu_do_transaction_failed :: "(env \<Rightarrow> env) \<Rightarrow> env \<Rightarrow> u32 \<Rightarrow> nat \<Rightarrow> (env, unit) outcome" where
  "xtensa_cpu_do_transaction_failed restore env addr access_type =
     (let env = restore env in
      exception_cause_vaddr env (env_pc env)
        (if access_type = MMU_INST_FETCH then INSTR_PIF_ADDR_ERROR_CAUSE else LOAD_STORE_PIF_ADDR_ERROR_CAUSE) addr)"

section \<open>Run-stall and reset\<close>

definition xtensa_runstall :: "env \<Rightarrow> bool \<Rightarrow> env" where
  "xtensa_runstall env stall =
     (let env = env\<lparr>runstall := stall, halted := stall\<rparr>
      in if stall then call (Cpu_interrupt CPU_INTERRUPT_HALT) env else call Cpu_kick env)"

text \<open>The floating-point status words that the end of the reset sets are not part of the state.\<close>

definition reset_registers :: "env \<Rightarrow> env" where
  "reset_registers env =
     (let env = env\<lparr>env_pc := exception_vector (config env) (EXC_RESET0 + int (static_vectors env))\<rparr>;
          env = set_sreg LITBASE (sregs env LITBASE AND NOT 1) env;
          env = set_sreg PS (if xtensa_option_enabled (config env) XTENSA_OPTION_INTERRUPT then 0x1f else 0x10) env;
          env = env\<lparr>pending_irq_level := 0\<rparr>;
          env = set_sreg VECBASE (vecbase (config env)) env;
          env = set_sreg IBREAKENABLE 0 env;
          env = set_sreg MEMCTL (MEMCTL_IL0EN AND memctl_mask (config env)) env;
          env = set_sreg ATOMCTL (if xtensa_option_enabled (config env) XTENSA_OPTION_ATOMCTL then 0x28 else 0x15) env;
          env = set_sreg CONFIGID0 (configid (config env) 0) env;
          env = set_sreg CONFIGID1 (configid (config env) 1) env
      in env\<lparr>exclusive_addr := - 1\<rparr>)"

definition xtensa_cpu_reset_hold :: "(env \<Rightarrow> env) \<Rightarrow> env \<Rightarrow> (env, unit) outcome" where
  "xtensa_cpu_reset_hold parent_hold env =
     obind (reset_mmu (reset_registers (parent_hold env)))
       (\<lambda>_ env. Ret () (env\<lparr>halted := runstall env\<rparr>))"

text \<open>
  The part of the reset of the ESP32-S3 (\<^verbatim>\<open>hw/xtensa/esp32s3.c\<close>) that resets one CPU:
  the vector base is the one that the RTC controller selects for the CPU, and the watchpoints of
  the data breakpoints are removed before the CPU is reset.
\<close>

definition remove_cpu_watchpoints :: "env \<Rightarrow> env" where
  "remove_cpu_watchpoints env =
     fold (\<lambda>i env. case cpu_watchpoint env i of
             Some wp \<Rightarrow>
               let env = call (Watchpoint_remove wp) env
               in env\<lparr>cpu_watchpoint := (cpu_watchpoint env)(i := None)\<rparr>
           | None \<Rightarrow> env) [0..<2] env"

definition esp32s3_soc_reset_cpu :: "(env \<Rightarrow> env) \<Rightarrow> bool \<Rightarrow> env \<Rightarrow> (env, unit) outcome" where
  "esp32s3_soc_reset_cpu parent_hold stat_vector_sel env =
     obind (xtensa_select_static_vectors env (of_bool stat_vector_sel))
       (\<lambda>_ env. xtensa_cpu_reset_hold parent_hold (remove_cpu_watchpoints env))"

section \<open>The state after reset\<close>

lemma remove_cpu_watchpoints_frame:
  "config (remove_cpu_watchpoints env) = config env"
  "static_vectors (remove_cpu_watchpoints env) = static_vectors env"
  by (simp_all add: remove_cpu_watchpoints_def call_def Let_def upt_rec split: option.splits)

text \<open>What the registers hold after the reset, for either vector base.\<close>

lemma reset_registers_esp32s3:
  assumes "config env = esp32s3_config" "static_vectors env = of_bool sel"
  shows "config (reset_registers env) = esp32s3_config" "sregs (reset_registers env) PS = 0x1f"
    "env_pc (reset_registers env) = (if sel then 0x40000400 else 0x50000000)"
    "pending_irq_level (reset_registers env) = 0" "runstall (reset_registers env) = runstall env"
  using assms
  by (simp_all add: reset_registers_def Let_def set_sreg_def config_simps esp32s3_exception_vector_def option_enabled_bit)

text \<open>
  C27. A reset ESP32-S3 CPU is ready to run: whatever its previous state, the reset puts the pc at
  the reset vector of the base that the RTC controller selects, 0x40000400 for the second base and
  0x50000000 for the first; it masks every interrupt below the NMI level and halts the core only if
  it is run-stalled, and the first instruction fetch fills the soft-TLB with the identity mapping
  of the page of the vector. The reset of the parent class, which is not in the repository, is only
  assumed to keep two fields of the Xtensa state, the configuration and the selected base.
\<close>

theorem esp32s3_reset_ready:
  assumes "config env = esp32s3_config"
    and "\<And>e. config (parent_hold e) = config e" "\<And>e. static_vectors (parent_hold e) = static_vectors e"
  shows "\<exists>env'. esp32s3_soc_reset_cpu parent_hold sel env = Ret () env' \<and>
    env_pc env' = (if sel then 0x40000400 else 0x50000000) \<and>
    pending_irq_level env' = 0 \<and> halted env' = runstall env' \<and> irq_minlevel env' = 6 \<and>
    xtensa_cpu_tlb_fill ldl restore env' (env_pc env') MMU_INST_FETCH idx False =
      Ret True (call (Tlb_set_page (if sel then 0x40000000 else 0x50000000) (if sel then 0x40000000 else 0x50000000)
        (PAGE_READ OR PAGE_WRITE OR PAGE_EXEC OR PAGE_CACHE_BYPASS) idx 0x20000000) env')"
proof -
  let ?upd = "\<lambda>env'. env'\<lparr>halted := runstall env'\<rparr>"
  define e0 where "e0 = parent_hold (remove_cpu_watchpoints (env\<lparr>static_vectors := of_bool sel\<rparr>))"
  have "config e0 = esp32s3_config" "static_vectors e0 = of_bool sel"
    using assms by (simp_all add: e0_def remove_cpu_watchpoints_frame)
  note e1 = reset_registers_esp32s3 [OF this]
  have hold: "esp32s3_soc_reset_cpu parent_hold sel env = obind (reset_mmu (reset_registers e0)) (\<lambda>_ env. Ret () (?upd env))"
    by (cases sel) (simp_all add: esp32s3_soc_reset_cpu_def xtensa_select_static_vectors_def xtensa_cpu_reset_hold_def e0_def)
  obtain e2 where e2: "reset_mmu (reset_registers e0) = Ret () e2" "identity_map e2" "sregs e2 PS = 0x1f"
      "env_pc e2 = (if sel then 0x40000400 else 0x50000000)" "pending_irq_level e2 = 0"
    using reset_identity [OF e1(1)] e1 by auto
  have "tlb_entry (?upd e2) = tlb_entry e2" by (simp add: fun_eq_iff tlb_entry_def)
  then have map: "identity_map (?upd e2)" using e2(2) by (simp add: identity_map_def)
  then have cfg: "config e2 = esp32s3_config" by (simp add: identity_map_def)
  have "xtensa_get_cintlevel (?upd e2) = 15"
    using cfg e2(3) by (simp add: xtensa_get_cintlevel_def config_simps PS_INTLEVEL_def PS_EXCM_def Let_def)
  then have "irq_minlevel (?upd e2) = 6" using cfg by (simp add: irq_minlevel_def config_simps)
  moreover have "xtensa_cpu_tlb_fill ldl restore (?upd e2) pc MMU_INST_FETCH idx False =
      Ret True (call (Tlb_set_page (pc AND TARGET_PAGE_MASK) (pc AND TARGET_PAGE_MASK)
        (PAGE_READ OR PAGE_WRITE OR PAGE_EXEC OR PAGE_CACHE_BYPASS) idx 0x20000000) (?upd e2))" for pc
    by (simp add: xtensa_cpu_tlb_fill_def identity_translate [OF map])
  moreover have "(if sel then 0x40000400 else 0x50000000 :: u32) AND TARGET_PAGE_MASK =
      (if sel then 0x40000000 else 0x50000000)"
    by (simp add: TARGET_PAGE_MASK_def)
  ultimately show ?thesis using hold e2(1,4,5) by simp
qed

theorem esp32s3_reset_ready_witness:
  "\<exists>env'. esp32s3_soc_reset_cpu (\<lambda>env. env) True (new_cpu esp32s3_config) = Ret () env' \<and> env_pc env' = 0x40000400"
proof -
  have "config (new_cpu esp32s3_config) = esp32s3_config"
    by (simp add: new_cpu_def)
  from esp32s3_reset_ready [OF this refl refl, of True "\<lambda>_. None" "\<lambda>env. env" 0] show ?thesis by auto
qed

text \<open>
  The own part of the reset clears IBREAKENABLE and does not touch the list of breakpoints: if the
  reset of the parent class leaves a breakpoint that the register has set, then the execution
  loop still finds it at its address, and the registers and the list no longer agree.
\<close>

lemma reset_leaks_breakpoint:
  assumes env: "env = parent_hold env0" "config env = esp32s3_config"
    and "ibreak_ok env" "i < 2" "bit (sregs env IBREAKENABLE) i"
    and "xtensa_cpu_reset_hold parent_hold env0 = Ret () env'"
  shows "sregs env' IBREAKENABLE = 0 \<and> cpu_breakpoint_test env' (sregs env (IBREAKA + i)) BP_CPU \<and> \<not> ibreak_ok env'"
proof -
  have n: "nibreak (config env) = 2" using assms(2) by (simp add: esp32s3_config_def)
  then obtain r where r: "cpu_breakpoint env i = Some r"
      "\<lparr>bp_ref = r, bp_pc = sregs env (IBREAKA + i), bp_flags = BP_CPU\<rparr> \<in> set (breakpoints env)"
    using assms(3-5) coherent_slot by (fastforce simp: ibreak_ok_def)
  have env': "sregs env' IBREAKENABLE = 0" "cpu_breakpoint env' = cpu_breakpoint env"
    "breakpoints env' = breakpoints env" "config env' = config env"
    using assms(2,6) esp32s3_no_mmu unfolding xtensa_cpu_reset_hold_def env(1) [symmetric]
    by (auto simp: reset_registers_def reset_mmu_def Let_def set_sreg_def obind_eq_Ret)
  have "cpu_breakpoint_test env' (sregs env (IBREAKA + i)) BP_CPU"
    unfolding cpu_breakpoint_test_def list_ex_iff env' by (rule bexI [OF _ r(2)]) simp
  moreover have "\<not> ibreak_ok env'"
    using coherent_disabled [of 2 "bit (sregs env' IBREAKENABLE)" _ "cpu_breakpoint env'" _ i] r(1) n assms(4) env'
    by (auto simp: ibreak_ok_def)
  ultimately show ?thesis using env'(1) by simp
qed

end
