(* ===== verification/Mx_Pic.thy ===== *)
theory Mx_Pic
  imports Prelude
begin

text \<open>
  The multi-core interrupt distributor, \<^verbatim>\<open>hw/xtensa/mx_pic.c\<close>: it routes external
  interrupts and inter-processor interrupts to the interrupt lines of up to 32 CPUs. The levels
  last driven on the output lines with \<^verbatim>\<open>qemu_set_irq\<close> are part of the state.
\<close>

section \<open>State\<close>

record XtensaMxPicCpu =
  mipicause :: u32
  mirout_cache :: u32
  irq_state_cache :: u32
  ccon :: u32

record XtensaMxPic =
  n_cpu :: nat
  n_irq :: nat
  ext_irq_state :: u32
  mieng :: u32
  miasg :: u32
  mirout :: "nat \<Rightarrow> u32"
  mipipart :: u32
  mx_runstall :: u32
  mx_cpu :: "nat \<Rightarrow> XtensaMxPicCpu"
  irq_line :: "nat \<Rightarrow> nat \<Rightarrow> bool"
  runstall_line :: "nat \<Rightarrow> bool"

abbreviation (input) "MX_MAX_CPU \<equiv> 32 :: nat"
abbreviation (input) "MX_MAX_IRQ \<equiv> 32 :: nat"
abbreviation (input) "MIROUT \<equiv> 0 :: nat"
abbreviation (input) "MIPICAUSE \<equiv> 0x100 :: nat"
abbreviation (input) "MIPISET \<equiv> 0x140 :: nat"
abbreviation (input) "MIENG \<equiv> 0x180 :: nat"
abbreviation (input) "MIENGSET \<equiv> 0x184 :: nat"
abbreviation (input) "MIASG \<equiv> 0x188 :: nat"
abbreviation (input) "MIASGSET \<equiv> 0x18c :: nat"
abbreviation (input) "MIPIPART \<equiv> 0x190 :: nat"
abbreviation (input) "SYSCFGID \<equiv> 0x1a0 :: nat"
abbreviation (input) "MPSCORE \<equiv> 0x200 :: nat"
abbreviation (input) "CCON \<equiv> 0x220 :: nat"

section \<open>Operations\<close>

definition xtensa_mx_pic_ext_reg_read :: "XtensaMxPic \<Rightarrow> nat \<Rightarrow> nat \<Rightarrow> u64" where
  "xtensa_mx_pic_ext_reg_read mx self offset =
     (if offset < MIROUT + MX_MAX_IRQ then ucast (mirout mx (offset - MIROUT))
      else if offset \<ge> MIPICAUSE \<and> offset < MIPICAUSE + MX_MAX_CPU
      then ucast (mipicause (mx_cpu mx (offset - MIPICAUSE)))
      else if offset = MIENG then ucast (mieng mx)
      else if offset = MIASG then ucast (miasg mx)
      else if offset = MIPIPART then ucast (mipipart mx)
      else if offset = SYSCFGID then push_bit 18 (of_nat (n_cpu mx - 1)) OR of_nat self
      else if offset = MPSCORE then ucast (mx_runstall mx)
      else if offset = CCON then ucast (ccon (mx_cpu mx self))
      else 0)"

definition xtensa_mx_pic_get_ipi_for_cpu :: "XtensaMxPic \<Rightarrow> nat \<Rightarrow> u32" where
  "xtensa_mx_pic_get_ipi_for_cpu mx cpu =
     (let cause = mipicause (mx_cpu mx cpu); part = mipipart mx in
      (push_bit (unat (part AND 3)) (cause AND 1) OR
       push_bit (unat (drop_bit 2 part AND 3)) (of_bool (cause AND 0x000e \<noteq> 0)) OR
       push_bit (unat (drop_bit 4 part AND 3)) (of_bool (cause AND 0x00f0 \<noteq> 0)) OR
       push_bit (unat (drop_bit 6 part AND 3)) (of_bool (cause AND 0xff00 \<noteq> 0))) AND 0x7)"

definition xtensa_mx_pic_get_ext_irq_for_cpu :: "XtensaMxPic \<Rightarrow> nat \<Rightarrow> u32" where
  "xtensa_mx_pic_get_ext_irq_for_cpu mx cpu =
     push_bit 2 (((ext_irq_state mx AND mieng mx) OR miasg mx) AND mirout_cache (mx_cpu mx cpu)) OR
     xtensa_mx_pic_get_ipi_for_cpu mx cpu"

definition upd_cpu :: "nat \<Rightarrow> (XtensaMxPicCpu \<Rightarrow> XtensaMxPicCpu) \<Rightarrow> XtensaMxPic \<Rightarrow> XtensaMxPic" where
  "upd_cpu cpu f mx = mx\<lparr>mx_cpu := (mx_cpu mx)(cpu := f (mx_cpu mx cpu))\<rparr>"

text \<open>The loop that drives the lines which changed, over the line numbers that remain.\<close>

fun drive_lines :: "u32 \<Rightarrow> nat list \<Rightarrow> u32 \<Rightarrow> (nat \<Rightarrow> bool) \<Rightarrow> nat \<Rightarrow> bool" where
  "drive_lines irq [] changed lines = lines"
| "drive_lines irq (i # is) changed lines =
     (if changed = 0 then lines
      else if changed AND push_bit i 1 \<noteq> 0
      then drive_lines irq is (changed XOR push_bit i 1) (lines(i := irq AND push_bit i 1 \<noteq> 0))
      else drive_lines irq is changed lines)"

definition xtensa_mx_pic_update_cpu :: "XtensaMxPic \<Rightarrow> nat \<Rightarrow> XtensaMxPic" where
  "xtensa_mx_pic_update_cpu mx cpu =
     (let irq = xtensa_mx_pic_get_ext_irq_for_cpu mx cpu;
          changed_irq = irq_state_cache (mx_cpu mx cpu) XOR irq;
          mx = upd_cpu cpu (\<lambda>c. c\<lparr>irq_state_cache := irq\<rparr>) mx
      in mx\<lparr>irq_line := (irq_line mx)(cpu := drive_lines irq [0..<32] changed_irq (irq_line mx cpu))\<rparr>)"

definition xtensa_mx_pic_update_all :: "XtensaMxPic \<Rightarrow> XtensaMxPic" where
  "xtensa_mx_pic_update_all mx = foldl xtensa_mx_pic_update_cpu mx [0..<n_cpu mx]"

text \<open>One round of each of the three loops over the CPUs in a register write.\<close>

definition mirout_step :: "u32 \<Rightarrow> nat \<Rightarrow> XtensaMxPic \<Rightarrow> nat \<Rightarrow> XtensaMxPic" where
  "mirout_step v k mx cpu =
     (let m = push_bit k 1 in
      if (mirout_cache (mx_cpu mx cpu) AND m = 0) \<noteq> (v AND push_bit cpu 1 = 0)
      then xtensa_mx_pic_update_cpu
             (upd_cpu cpu (\<lambda>c. c\<lparr>mirout_cache := mirout_cache c XOR m\<rparr>) mx) cpu
      else mx)"

definition mipiset_step :: "u32 \<Rightarrow> nat \<Rightarrow> XtensaMxPic \<Rightarrow> nat \<Rightarrow> XtensaMxPic" where
  "mipiset_step v k mx cpu =
     (if v AND push_bit cpu 1 \<noteq> 0
      then xtensa_mx_pic_update_cpu
             (upd_cpu cpu (\<lambda>c. c\<lparr>mipicause := mipicause c OR push_bit k 1\<rparr>) mx) cpu
      else mx)"

definition runstall_step :: "u32 \<Rightarrow> u32 \<Rightarrow> XtensaMxPic \<Rightarrow> nat \<Rightarrow> XtensaMxPic" where
  "runstall_step v change mx cpu =
     (if change AND push_bit cpu 1 \<noteq> 0
      then mx\<lparr>runstall_line := (runstall_line mx)(cpu := v AND push_bit cpu 1 \<noteq> 0)\<rparr> else mx)"

definition xtensa_mx_pic_ext_reg_write :: "XtensaMxPic \<Rightarrow> nat \<Rightarrow> nat \<Rightarrow> u64 \<Rightarrow> XtensaMxPic" where
  "xtensa_mx_pic_ext_reg_write mx self offset v64 =
     (let v = ucast v64 :: u32 in
      if offset < MIROUT + n_irq mx then
        foldl (mirout_step v (offset - MIROUT))
          (mx\<lparr>mirout := (mirout mx)(offset - MIROUT := v)\<rparr>) [0..<n_cpu mx]
      else if offset \<ge> MIPICAUSE \<and> offset < MIPICAUSE + n_cpu mx then
        let cpu = offset - MIPICAUSE
        in xtensa_mx_pic_update_cpu (upd_cpu cpu (\<lambda>c. c\<lparr>mipicause := mipicause c AND NOT v\<rparr>) mx) cpu
      else if offset \<ge> MIPISET \<and> offset < MIPISET + 16 then
        foldl (mipiset_step v (offset - MIPISET)) mx [0..<n_cpu mx]
      else
        let (change, mx) =
          (if offset = MIENG then (mieng mx AND v, mx\<lparr>mieng := mieng mx AND NOT v\<rparr>)
           else if offset = MIENGSET then (NOT (mieng mx) AND v, mx\<lparr>mieng := mieng mx OR v\<rparr>)
           else if offset = MIASG then (miasg mx AND v, mx\<lparr>miasg := miasg mx AND NOT v\<rparr>)
           else if offset = MIASGSET then (NOT (miasg mx) AND v, mx\<lparr>miasg := miasg mx OR v\<rparr>)
           else if offset = MIPIPART then (mipipart mx XOR v, mx\<lparr>mipipart := v\<rparr>)
           else if offset = MPSCORE then
             let change = mx_runstall mx XOR v
             in (change, foldl (runstall_step v change) (mx\<lparr>mx_runstall := v\<rparr>) [0..<n_cpu mx])
           else if offset = CCON then (0, upd_cpu self (\<lambda>c. c\<lparr>ccon := v AND 0x1\<rparr>) mx)
           else (0, mx))
        in if change \<noteq> 0 then xtensa_mx_pic_update_all mx else mx)"

definition xtensa_mx_pic_register_cpu :: "XtensaMxPic \<Rightarrow> XtensaMxPic" where
  "xtensa_mx_pic_register_cpu mx = mx\<lparr>n_cpu := n_cpu mx + 1\<rparr>"

definition xtensa_mx_pic_set_irq :: "XtensaMxPic \<Rightarrow> nat \<Rightarrow> bool \<Rightarrow> XtensaMxPic" where
  "xtensa_mx_pic_set_irq mx irq active =
     (if irq < n_irq mx then
        let old_irq_state = ext_irq_state mx;
            mx = (if active then mx\<lparr>ext_irq_state := ext_irq_state mx OR push_bit irq 1\<rparr>
                  else mx\<lparr>ext_irq_state := ext_irq_state mx AND NOT (push_bit irq 1)\<rparr>)
        in if old_irq_state \<noteq> ext_irq_state mx then xtensa_mx_pic_update_all mx else mx
      else mx)"

text \<open>A zero-initialised distributor, with all of its lines low.\<close>

definition xtensa_mx_pic_init :: "nat \<Rightarrow> XtensaMxPic" where
  "xtensa_mx_pic_init irqs =
     \<lparr>n_cpu = 0, n_irq = irqs + 1, ext_irq_state = 0, mieng = 0, miasg = 0, mirout = (\<lambda>_. 0),
      mipipart = 0, mx_runstall = 0,
      mx_cpu = (\<lambda>_. \<lparr>mipicause = 0, mirout_cache = 0, irq_state_cache = 0, ccon = 0\<rparr>),
      irq_line = (\<lambda>_ _. False), runstall_line = (\<lambda>_. False)\<rparr>"

definition xtensa_mx_pic_reset :: "XtensaMxPic \<Rightarrow> XtensaMxPic" where
  "xtensa_mx_pic_reset mx =
     (let mx = mx\<lparr>ext_irq_state := 0, mieng := (if n_irq mx < 32 then push_bit (n_irq mx) 1 - 1 else NOT 0),
                  miasg := 0, mipipart := 0,
                  mirout := (\<lambda>i. if i < n_irq mx then 0 else mirout mx i)\<rparr>;
          mx = mx\<lparr>mx_cpu := (\<lambda>i. if i < n_cpu mx
                      then \<lparr>mipicause = 0, mirout_cache = (if i \<noteq> 0 then 0 else mieng mx),
                            irq_state_cache = 0, ccon = 0\<rparr>
                      else mx_cpu mx i)\<rparr>;
          mx = mx\<lparr>mx_runstall := push_bit (n_cpu mx) 1 - 2\<rparr>
      in mx\<lparr>runstall_line := (\<lambda>i. if i < n_cpu mx then i > 0 else runstall_line mx i)\<rparr>)"

section \<open>The lines follow the registers\<close>

definition lines_ok :: "XtensaMxPic \<Rightarrow> nat \<Rightarrow> bool" where
  "lines_ok mx cpu \<longleftrightarrow> (\<forall>i<32. irq_line mx cpu i = bit (irq_state_cache (mx_cpu mx cpu)) i)"

definition cpu_ok :: "XtensaMxPic \<Rightarrow> nat \<Rightarrow> bool" where
  "cpu_ok mx cpu \<longleftrightarrow> lines_ok mx cpu \<and>
     irq_state_cache (mx_cpu mx cpu) = xtensa_mx_pic_get_ext_irq_for_cpu mx cpu"

definition stall_ok :: "XtensaMxPic \<Rightarrow> nat \<Rightarrow> bool" where
  "stall_ok mx cpu \<longleftrightarrow> (runstall_line mx cpu \<longleftrightarrow> bit (mx_runstall mx) cpu)"

lemma drive_lines_eq:
  "distinct is \<Longrightarrow> drive_lines irq is changed lines =
     (\<lambda>i. if i \<in> set is \<and> bit changed i then bit irq i else lines i)"
proof (induction "is" arbitrary: changed lines)
  case (Cons i "is")
  show ?case
  proof (cases "changed = 0")
    case False
    have "bit (changed XOR 2 ^ i) j \<longleftrightarrow> bit changed j" if "j \<noteq> i" for j
      using that by (auto simp: bit_xor_iff bit_exp_iff)
    then show ?thesis
      using Cons False by (auto simp: fun_eq_iff and_exp_eq_0_iff_not_bit)
  qed (simp add: fun_eq_iff)
qed simp

text \<open>The lines a CPU should see depend on the routing registers and on its own fields.\<close>

lemma ext_irq_cong:
  assumes "ext_irq_state mx' = ext_irq_state mx" "mieng mx' = mieng mx" "miasg mx' = miasg mx"
    "mipipart mx' = mipipart mx" "mirout_cache (mx_cpu mx' c) = mirout_cache (mx_cpu mx c)"
    "mipicause (mx_cpu mx' c) = mipicause (mx_cpu mx c)"
  shows "xtensa_mx_pic_get_ext_irq_for_cpu mx' c = xtensa_mx_pic_get_ext_irq_for_cpu mx c"
  using assms by (simp add: xtensa_mx_pic_get_ext_irq_for_cpu_def xtensa_mx_pic_get_ipi_for_cpu_def)

lemma update_cpu_frame [simp]:
  "n_cpu (xtensa_mx_pic_update_cpu mx cpu) = n_cpu mx" "n_irq (xtensa_mx_pic_update_cpu mx cpu) = n_irq mx"
  "mx_runstall (xtensa_mx_pic_update_cpu mx cpu) = mx_runstall mx"
  "runstall_line (xtensa_mx_pic_update_cpu mx cpu) = runstall_line mx"
  "n_cpu (upd_cpu cpu f mx) = n_cpu mx" "n_irq (upd_cpu cpu f mx) = n_irq mx"
  "mx_runstall (upd_cpu cpu f mx) = mx_runstall mx" "runstall_line (upd_cpu cpu f mx) = runstall_line mx"
  by (simp_all add: xtensa_mx_pic_update_cpu_def upd_cpu_def Let_def)

lemma update_cpu_irq:
  "xtensa_mx_pic_get_ext_irq_for_cpu (xtensa_mx_pic_update_cpu mx cpu) c = xtensa_mx_pic_get_ext_irq_for_cpu mx c"
  by (rule ext_irq_cong) (simp_all add: xtensa_mx_pic_update_cpu_def upd_cpu_def Let_def)

lemma update_cpu_lines:
  "lines_ok mx c \<Longrightarrow> lines_ok (xtensa_mx_pic_update_cpu mx cpu) c"
  by (auto simp: lines_ok_def xtensa_mx_pic_update_cpu_def upd_cpu_def Let_def drive_lines_eq bit_xor_iff)

lemma update_cpu_ok:
  "lines_ok mx cpu \<Longrightarrow> cpu_ok (xtensa_mx_pic_update_cpu mx cpu) cpu"
  "cpu_ok mx c \<Longrightarrow> cpu_ok (xtensa_mx_pic_update_cpu mx cpu) c"
  by (simp_all add: cpu_ok_def update_cpu_lines update_cpu_irq)
    (simp_all add: xtensa_mx_pic_update_cpu_def upd_cpu_def Let_def)

lemma update_all_frame [simp]:
  "n_cpu (foldl xtensa_mx_pic_update_cpu mx cs) = n_cpu mx" "n_irq (foldl xtensa_mx_pic_update_cpu mx cs) = n_irq mx"
  "mx_runstall (foldl xtensa_mx_pic_update_cpu mx cs) = mx_runstall mx"
  "runstall_line (foldl xtensa_mx_pic_update_cpu mx cs) = runstall_line mx"
  by (induction cs arbitrary: mx) simp_all

lemma update_all_ok:
  assumes "\<And>c. c < n_cpu mx \<Longrightarrow> lines_ok mx c" "c < n_cpu mx"
  shows "cpu_ok (xtensa_mx_pic_update_all mx) c"
proof -
  have "(\<forall>c<n. lines_ok (foldl xtensa_mx_pic_update_cpu mx cs) c) \<and>
      (\<forall>c\<in>set cs. cpu_ok (foldl xtensa_mx_pic_update_cpu mx cs) c)"
    if "\<forall>c<n. lines_ok mx c" "\<forall>c\<in>set cs. c < n" for n cs
    using that
  proof (induction cs rule: rev_induct)
    case (snoc c cs)
    then show ?case by (auto simp: update_cpu_lines update_cpu_ok)
  qed simp
  from this [of "n_cpu mx" "[0..<n_cpu mx]"] show ?thesis
    using assms by (simp add: xtensa_mx_pic_update_all_def)
qed

lemma cpu_ok_lines: "cpu_ok mx c \<Longrightarrow> lines_ok mx c"
  by (simp add: cpu_ok_def)

text \<open>Changing fields of one CPU and updating it keeps every CPU right.\<close>

lemma upd_update_ok:
  assumes "cpu_ok mx c" "\<And>x. irq_state_cache (f x) = irq_state_cache x" "lines_ok mx cpu"
  shows "cpu_ok (xtensa_mx_pic_update_cpu (upd_cpu cpu f mx) cpu) c"
proof (cases "c = cpu")
  case True
  have "lines_ok (upd_cpu cpu f mx) cpu" using assms(2,3) by (simp add: lines_ok_def upd_cpu_def)
  then show ?thesis using True by (simp add: update_cpu_ok)
next
  case False
  then have "xtensa_mx_pic_get_ext_irq_for_cpu (upd_cpu cpu f mx) c = xtensa_mx_pic_get_ext_irq_for_cpu mx c"
    by (intro ext_irq_cong) (simp_all add: upd_cpu_def)
  then have "cpu_ok (upd_cpu cpu f mx) c"
    using assms(1) False by (simp add: cpu_ok_def lines_ok_def upd_cpu_def)
  then show ?thesis by (rule update_cpu_ok)
qed

lemma foldl_cpus_ok:
  assumes "\<And>mx c. c < n \<Longrightarrow> \<forall>c<n. cpu_ok mx c \<Longrightarrow> \<forall>c'<n. cpu_ok (f mx c) c'" "\<forall>c<n. cpu_ok mx c"
    "\<forall>c\<in>set cs. c < n"
  shows "\<forall>c<n. cpu_ok (foldl f mx cs) c"
  using assms(2,3)
proof (induction cs arbitrary: mx)
  case (Cons a cs)
  then show ?case using assms(1) [of a mx] by simp
qed simp

lemma foldl_frame: "(\<And>s x. g (f s x) = g s) \<Longrightarrow> g (foldl f s xs) = g s"
  by (induction xs arbitrary: s) simp_all

lemma steps_frame [simp]:
  "n_cpu (mirout_step v k mx cpu) = n_cpu mx" "mx_runstall (mirout_step v k mx cpu) = mx_runstall mx"
  "runstall_line (mirout_step v k mx cpu) = runstall_line mx"
  "n_cpu (mipiset_step v k mx cpu) = n_cpu mx" "mx_runstall (mipiset_step v k mx cpu) = mx_runstall mx"
  "runstall_line (mipiset_step v k mx cpu) = runstall_line mx"
  "n_cpu (runstall_step v ch mx cpu) = n_cpu mx" "mx_runstall (runstall_step v ch mx cpu) = mx_runstall mx"
  "mx_cpu (runstall_step v ch mx cpu) = mx_cpu mx" "irq_line (runstall_step v ch mx cpu) = irq_line mx"
  by (simp_all add: mirout_step_def mipiset_step_def runstall_step_def Let_def)

lemmas foldl_frames [simp] =
  foldl_frame [where g = n_cpu and f = "mirout_step v k" for v k, OF steps_frame(1)]
  foldl_frame [where g = mx_runstall and f = "mirout_step v k" for v k, OF steps_frame(2)]
  foldl_frame [where g = runstall_line and f = "mirout_step v k" for v k, OF steps_frame(3)]
  foldl_frame [where g = n_cpu and f = "mipiset_step v k" for v k, OF steps_frame(4)]
  foldl_frame [where g = mx_runstall and f = "mipiset_step v k" for v k, OF steps_frame(5)]
  foldl_frame [where g = runstall_line and f = "mipiset_step v k" for v k, OF steps_frame(6)]
  foldl_frame [where g = n_cpu and f = "runstall_step v ch" for v ch, OF steps_frame(7)]
  foldl_frame [where g = mx_runstall and f = "runstall_step v ch" for v ch, OF steps_frame(8)]
  foldl_frame [where g = mx_cpu and f = "runstall_step v ch" for v ch, OF steps_frame(9)]
  foldl_frame [where g = irq_line and f = "runstall_step v ch" for v ch, OF steps_frame(10)]

lemma foldl_runstall:
  "runstall_line (foldl (runstall_step v ch) mx cs) =
     (\<lambda>c. if c \<in> set cs \<and> bit ch c then bit v c else runstall_line mx c)"
  by (induction cs arbitrary: mx) (auto simp: runstall_step_def and_exp_eq_0_iff_not_bit fun_eq_iff)

definition mx_ok :: "XtensaMxPic \<Rightarrow> bool" where
  "mx_ok mx \<longleftrightarrow> (\<forall>c<n_cpu mx. cpu_ok mx c \<and> stall_ok mx c)"

lemma update_all_mx_ok:
  assumes "\<And>c. c < n_cpu mx \<Longrightarrow> lines_ok mx c \<and> stall_ok mx c"
  shows "mx_ok (xtensa_mx_pic_update_all mx)"
  using assms update_all_ok [of mx]
  by (auto simp: mx_ok_def stall_ok_def xtensa_mx_pic_update_all_def)

lemma mirout_write_ok:
  assumes "mx_ok mx"
  shows "mx_ok (foldl (mirout_step v k) (mx\<lparr>mirout := m\<rparr>) [0..<n_cpu mx])"
proof -
  have "\<forall>c<n_cpu mx. cpu_ok (mx\<lparr>mirout := m\<rparr>) c"
    using assms ext_irq_cong [of "mx\<lparr>mirout := m\<rparr>" mx] by (auto simp: mx_ok_def cpu_ok_def lines_ok_def)
  then have "\<forall>c<n_cpu mx. cpu_ok (foldl (mirout_step v k) (mx\<lparr>mirout := m\<rparr>) [0..<n_cpu mx]) c"
    by (intro foldl_cpus_ok) (auto simp: mirout_step_def Let_def cpu_ok_lines intro!: upd_update_ok)
  then show ?thesis using assms by (auto simp: mx_ok_def stall_ok_def)
qed

lemma mipiset_write_ok:
  assumes "mx_ok mx"
  shows "mx_ok (foldl (mipiset_step v k) mx [0..<n_cpu mx])"
proof -
  have "\<forall>c<n_cpu mx. cpu_ok (foldl (mipiset_step v k) mx [0..<n_cpu mx]) c"
    using assms
    by (intro foldl_cpus_ok) (auto simp: mx_ok_def mipiset_step_def Let_def cpu_ok_lines intro!: upd_update_ok)
  then show ?thesis using assms by (auto simp: mx_ok_def stall_ok_def)
qed

lemma mx_ok_upd_update:
  assumes "mx_ok mx" "cpu < n_cpu mx" "\<And>x. irq_state_cache (f x) = irq_state_cache x"
  shows "mx_ok (xtensa_mx_pic_update_cpu (upd_cpu cpu f mx) cpu)"
  using assms upd_update_ok [of mx _ f cpu] by (auto simp: mx_ok_def stall_ok_def cpu_ok_lines)

lemma mx_ok_regs:
  assumes "mx_ok mx" "n_cpu mx' = n_cpu mx" "mx_runstall mx' = mx_runstall mx" "runstall_line mx' = runstall_line mx"
    "mx_cpu mx' = mx_cpu mx" "irq_line mx' = irq_line mx"
  shows "mx_ok (xtensa_mx_pic_update_all mx')"
    and "ext_irq_state mx' = ext_irq_state mx \<Longrightarrow> mieng mx' = mieng mx \<Longrightarrow> miasg mx' = miasg mx \<Longrightarrow>
      mipipart mx' = mipipart mx \<Longrightarrow> mx_ok mx'"
proof -
  show "mx_ok (xtensa_mx_pic_update_all mx')"
    using assms by (intro update_all_mx_ok) (auto simp: mx_ok_def cpu_ok_def lines_ok_def stall_ok_def)
  assume "ext_irq_state mx' = ext_irq_state mx" "mieng mx' = mieng mx" "miasg mx' = miasg mx"
      "mipipart mx' = mipipart mx"
  then have "xtensa_mx_pic_get_ext_irq_for_cpu mx' c = xtensa_mx_pic_get_ext_irq_for_cpu mx c" for c
    using assms(5) by (intro ext_irq_cong) simp_all
  then show "mx_ok mx'" using assms by (auto simp: mx_ok_def cpu_ok_def lines_ok_def stall_ok_def)
qed

lemma mpscore_write_ok:
  assumes "mx_ok mx"
  shows "mx_ok (xtensa_mx_pic_update_all
    (foldl (runstall_step v (mx_runstall mx XOR v)) (mx\<lparr>mx_runstall := v\<rparr>) [0..<n_cpu mx]))"
  using assms
  by (intro update_all_mx_ok) (auto simp: mx_ok_def cpu_ok_def lines_ok_def stall_ok_def foldl_runstall bit_xor_iff)

lemma no_change:
  fixes a v :: u32
  shows "a AND v = 0 \<Longrightarrow> a AND NOT v = a" "NOT a AND v = 0 \<Longrightarrow> a OR v = a" "a XOR v = 0 \<Longrightarrow> v = a"
proof -
  show "a AND NOT v = a" if "a AND v = 0"
    using arg_cong [OF that, of bit] by (intro bit_word_eqI) (auto simp: fun_eq_iff bit_simps)
  show "a OR v = a" if "NOT a AND v = 0"
    using arg_cong [OF that, of bit] by (intro bit_word_eqI) (auto simp: fun_eq_iff bit_simps)
  show "v = a" if "a XOR v = 0"
    using arg_cong [OF that, of bit] by (intro bit_word_eqI) (auto simp: fun_eq_iff bit_simps)
qed

lemma maybe_update_ok:
  assumes "mx_ok (xtensa_mx_pic_update_all mx')" "change = 0 \<Longrightarrow> mx_ok mx'"
  shows "mx_ok (if change \<noteq> 0 then xtensa_mx_pic_update_all mx' else mx')"
  using assms by simp

lemma ccon_ok: "mx_ok mx \<Longrightarrow> mx_ok (upd_cpu self (\<lambda>c. c\<lparr>ccon := w\<rparr>) mx)"
  using ext_irq_cong [of "upd_cpu self (\<lambda>c. c\<lparr>ccon := w\<rparr>) mx" mx]
  by (auto simp: mx_ok_def cpu_ok_def lines_ok_def stall_ok_def upd_cpu_def)

lemma reg_write_ok:
  assumes ok: "mx_ok mx"
  shows "mx_ok (xtensa_mx_pic_ext_reg_write mx self offset v)"
proof -
  let ?v = "ucast v :: u32"
  let ?stall = "foldl (runstall_step ?v (mx_runstall mx XOR ?v)) (mx\<lparr>mx_runstall := ?v\<rparr>) [0..<n_cpu mx]"
  have regs: "mx_ok (if mieng mx AND ?v \<noteq> 0 then xtensa_mx_pic_update_all (mx\<lparr>mieng := mieng mx AND NOT ?v\<rparr>)
        else mx\<lparr>mieng := mieng mx AND NOT ?v\<rparr>)"
    "mx_ok (if NOT (mieng mx) AND ?v \<noteq> 0 then xtensa_mx_pic_update_all (mx\<lparr>mieng := mieng mx OR ?v\<rparr>)
        else mx\<lparr>mieng := mieng mx OR ?v\<rparr>)"
    "mx_ok (if miasg mx AND ?v \<noteq> 0 then xtensa_mx_pic_update_all (mx\<lparr>miasg := miasg mx AND NOT ?v\<rparr>)
        else mx\<lparr>miasg := miasg mx AND NOT ?v\<rparr>)"
    "mx_ok (if NOT (miasg mx) AND ?v \<noteq> 0 then xtensa_mx_pic_update_all (mx\<lparr>miasg := miasg mx OR ?v\<rparr>)
        else mx\<lparr>miasg := miasg mx OR ?v\<rparr>)"
    "mx_ok (if mipipart mx XOR ?v \<noteq> 0 then xtensa_mx_pic_update_all (mx\<lparr>mipipart := ?v\<rparr>)
        else mx\<lparr>mipipart := ?v\<rparr>)"
    by (rule maybe_update_ok; rule mx_ok_regs [OF ok]; simp add: no_change)+
  have stall: "mx_ok (if mx_runstall mx XOR ?v \<noteq> 0 then xtensa_mx_pic_update_all ?stall else ?stall)"
  proof (rule maybe_update_ok [OF mpscore_write_ok [OF ok]])
    assume z: "mx_runstall mx XOR ?v = 0"
    have "foldl (runstall_step ?v 0) m cs = m" for m cs
      by (induction cs) (simp_all add: runstall_step_def)
    then show "mx_ok ?stall" using ok no_change(3) [OF z] by (simp add: z)
  qed
  show ?thesis
    using regs stall ok mirout_write_ok [OF ok] mipiset_write_ok [OF ok] ccon_ok [OF ok]
    unfolding xtensa_mx_pic_ext_reg_write_def Let_def by (auto intro!: mx_ok_upd_update)
qed

lemma set_irq_ok:
  assumes "mx_ok mx"
  shows "mx_ok (xtensa_mx_pic_set_irq mx irq active)"
  using mx_ok_regs [OF assms, of "mx\<lparr>ext_irq_state := s\<rparr>" for s] assms
  by (simp add: xtensa_mx_pic_set_irq_def Let_def)

lemma reset_ok:
  assumes "\<forall>c<n_cpu mx. \<forall>i<32. \<not> irq_line mx c i" "n_cpu mx < 32"
  shows "mx_ok (xtensa_mx_pic_reset mx)"
proof -
  have irq: "xtensa_mx_pic_get_ext_irq_for_cpu (xtensa_mx_pic_reset mx) c = 0" if "c < n_cpu mx" for c
    using that by (simp add: xtensa_mx_pic_get_ext_irq_for_cpu_def xtensa_mx_pic_get_ipi_for_cpu_def
        xtensa_mx_pic_reset_def Let_def)
  have stall: "bit (2 ^ n_cpu mx - 2 :: u32) c \<longleftrightarrow> c > 0" if "c < n_cpu mx" for c
  proof -
    obtain m where m: "n_cpu mx = Suc m" using \<open>c < n_cpu mx\<close> by (cases "n_cpu mx") simp_all
    have "(2 ^ n_cpu mx - 2 :: u32) = push_bit 1 (mask m)"
      by (simp add: m mask_eq_exp_minus_1 push_bit_eq_mult algebra_simps)
    then have "bit (2 ^ n_cpu mx - 2 :: u32) c \<longleftrightarrow> 1 \<le> c \<and> bit (mask m :: u32) (c - 1)"
      using that assms(2) m by (simp only: bit_push_bit_iff) simp
    then show ?thesis using that assms(2) m by (auto simp: bit_mask_iff)
  qed
  show ?thesis
    using assms irq stall
    by (auto simp: mx_ok_def cpu_ok_def lines_ok_def stall_ok_def)
      (simp_all add: xtensa_mx_pic_reset_def Let_def)
qed

section \<open>The routing follows MIROUT\<close>

text \<open>
  The distributor keeps the routing twice: in the MIROUT registers, one per interrupt with a bit for
  each CPU, and transposed in the caches of the CPUs. Only a write of MIROUT changes either.
\<close>

definition routing :: "XtensaMxPic \<Rightarrow> nat \<times> nat \<times> (nat \<Rightarrow> u32) \<times> (nat \<Rightarrow> u32)" where
  "routing mx = (n_cpu mx, n_irq mx, mirout mx, \<lambda>c. mirout_cache (mx_cpu mx c))"

lemma routing_update_cpu [simp]: "routing (xtensa_mx_pic_update_cpu mx cpu) = routing mx"
  by (auto simp: routing_def xtensa_mx_pic_update_cpu_def upd_cpu_def Let_def)

lemma routing_upd_cpu: "(\<And>x. mirout_cache (f x) = mirout_cache x) \<Longrightarrow> routing (upd_cpu cpu f mx) = routing mx"
  by (auto simp: routing_def upd_cpu_def)

lemma routing_loops [simp]:
  "routing (xtensa_mx_pic_update_all mx) = routing mx"
  "routing (foldl (mipiset_step v k) mx cs) = routing mx"
  "routing (foldl (runstall_step v ch) mx cs) = routing mx"
  unfolding xtensa_mx_pic_update_all_def
  by (rule foldl_frame; simp add: mipiset_step_def runstall_step_def routing_upd_cpu; simp add: routing_def)+

lemma routing_reg_write:
  assumes "\<not> offset < n_irq mx"
  shows "routing (xtensa_mx_pic_ext_reg_write mx self offset v) = routing mx"
proof -
  have upd: "routing (mx\<lparr>mieng := a\<rparr>) = routing mx" "routing (mx\<lparr>miasg := a\<rparr>) = routing mx"
    "routing (mx\<lparr>mipipart := a\<rparr>) = routing mx" "routing (mx\<lparr>mx_runstall := a\<rparr>) = routing mx" for a
    by (simp_all add: routing_def)
  show ?thesis
    using assms by (simp add: xtensa_mx_pic_ext_reg_write_def Let_def upd routing_upd_cpu)
qed

lemma routing_set_irq: "routing (xtensa_mx_pic_set_irq mx n active) = routing mx"
proof -
  have "routing (mx\<lparr>ext_irq_state := a\<rparr>) = routing mx" for a
    by (simp add: routing_def)
  then show ?thesis
    by (simp add: xtensa_mx_pic_set_irq_def Let_def)
qed

lemma routing_reset:
  "routing (xtensa_mx_pic_reset mx) =
     (n_cpu mx, n_irq mx, \<lambda>k. if k < n_irq mx then 0 else mirout mx k,
      \<lambda>c. if c < n_cpu mx then if c \<noteq> 0 then 0 else if n_irq mx < 32 then push_bit (n_irq mx) 1 - 1 else NOT 0
          else mirout_cache (mx_cpu mx c))"
  by (auto simp: routing_def xtensa_mx_pic_reset_def Let_def)

text \<open>The loop of a MIROUT write sets one bit in the cache of every CPU.\<close>

lemma mirout_step_routing:
  assumes "k < 32"
  shows "mirout (mirout_step v k mx cpu) = mirout mx" "n_irq (mirout_step v k mx cpu) = n_irq mx"
    "bit (mirout_cache (mx_cpu (mirout_step v k mx cpu) c)) j =
       (if c = cpu \<and> j = k then bit v cpu else bit (mirout_cache (mx_cpu mx c)) j)"
proof -
  define mx' where "mx' = upd_cpu cpu (\<lambda>c. c\<lparr>mirout_cache := mirout_cache c XOR push_bit k 1\<rparr>) mx"
  have step: "routing (mirout_step v k mx cpu) =
      routing (if bit (mirout_cache (mx_cpu mx cpu)) k \<noteq> bit v cpu then mx' else mx)"
    by (simp add: mirout_step_def Let_def mx'_def and_exp_eq_0_iff_not_bit)
  show "mirout (mirout_step v k mx cpu) = mirout mx" "n_irq (mirout_step v k mx cpu) = n_irq mx"
    using step by (simp_all add: routing_def mx'_def upd_cpu_def split: if_splits)
  have "mirout_cache (mx_cpu (mirout_step v k mx cpu) c) =
      mirout_cache (mx_cpu (if bit (mirout_cache (mx_cpu mx cpu)) k \<noteq> bit v cpu then mx' else mx) c)"
    using step by (simp add: routing_def fun_eq_iff split: if_splits)
  moreover have "bit (mirout_cache (mx_cpu mx' cpu)) j = (bit (mirout_cache (mx_cpu mx cpu)) j \<noteq> (j = k))"
    using assms by (auto simp: mx'_def upd_cpu_def bit_xor_iff bit_exp_iff)
  moreover have "mx_cpu mx' c = mx_cpu mx c" if "c \<noteq> cpu"
    using that by (simp add: mx'_def upd_cpu_def)
  ultimately show "bit (mirout_cache (mx_cpu (mirout_step v k mx cpu) c)) j =
      (if c = cpu \<and> j = k then bit v cpu else bit (mirout_cache (mx_cpu mx c)) j)"
    by (cases "c = cpu") auto
qed

lemma mirout_loop_routing:
  assumes "k < 32"
  shows "mirout (foldl (mirout_step v k) mx cs) = mirout mx" "n_irq (foldl (mirout_step v k) mx cs) = n_irq mx"
    "bit (mirout_cache (mx_cpu (foldl (mirout_step v k) mx cs) c)) j =
       (if c \<in> set cs \<and> j = k then bit v c else bit (mirout_cache (mx_cpu mx c)) j)"
  by (induction cs arbitrary: mx) (auto simp: mirout_step_routing [OF assms])

text \<open>
  Runs: the board creates the distributor, registers its CPUs and resets it; then devices drive lines
  and CPUs write registers. A run records the value last written to each MIROUT register.
\<close>

inductive mx_run :: "(nat \<rightharpoonup> u32) \<Rightarrow> XtensaMxPic \<Rightarrow> bool" where
  boot: "n < 32 \<Longrightarrow> irqs < 32 \<Longrightarrow>
    mx_run Map.empty (xtensa_mx_pic_reset ((xtensa_mx_pic_register_cpu ^^ n) (xtensa_mx_pic_init irqs)))"
| reg_write: "mx_run written mx \<Longrightarrow>
    mx_run (if offset < MIROUT + n_irq mx then written(offset - MIROUT \<mapsto> ucast v) else written)
      (xtensa_mx_pic_ext_reg_write mx self offset v)"
| set_line: "mx_run written mx \<Longrightarrow> mx_run written (xtensa_mx_pic_set_irq mx n active)"

lemma register_cpus [simp]:
  "n_cpu ((xtensa_mx_pic_register_cpu ^^ n) (xtensa_mx_pic_init irqs)) = n"
  "n_irq ((xtensa_mx_pic_register_cpu ^^ n) (xtensa_mx_pic_init irqs)) = irqs + 1"
  "mirout ((xtensa_mx_pic_register_cpu ^^ n) (xtensa_mx_pic_init irqs)) = (\<lambda>_. 0)"
  "irq_line ((xtensa_mx_pic_register_cpu ^^ n) (xtensa_mx_pic_init irqs)) = (\<lambda>_ _. False)"
  by (induction n) (simp_all add: xtensa_mx_pic_register_cpu_def xtensa_mx_pic_init_def)

lemma mx_run_ok: "mx_run written mx \<Longrightarrow> mx_ok mx"
  by (induction rule: mx_run.induct) (simp_all add: reset_ok reg_write_ok set_irq_ok)

text \<open>Before MIROUT of an interrupt is written, the interrupt is routed to the first CPU only.\<close>

definition routed :: "(nat \<rightharpoonup> u32) \<Rightarrow> nat \<Rightarrow> nat \<Rightarrow> nat \<Rightarrow> bool" where
  "routed written irqs k c \<longleftrightarrow> k < irqs \<and> (case written k of Some v \<Rightarrow> bit v c | None \<Rightarrow> c = 0)"

definition route_ok :: "(nat \<rightharpoonup> u32) \<Rightarrow> nat \<times> nat \<times> (nat \<Rightarrow> u32) \<times> (nat \<Rightarrow> u32) \<Rightarrow> bool" where
  "route_ok written = (\<lambda>(cpus, irqs, regs, caches). irqs \<le> 32 \<and>
     (\<forall>k<irqs. regs k = (case written k of Some v \<Rightarrow> v | None \<Rightarrow> 0)) \<and>
     (\<forall>c<cpus. \<forall>k. bit (caches c) k \<longleftrightarrow> routed written irqs k c))"

lemma mx_run_routing: "mx_run written mx \<Longrightarrow> route_ok written (routing mx)"
proof (induction rule: mx_run.induct)
  case (boot n irqs)
  define all where "all = (if irqs + 1 < 32 then push_bit (irqs + 1) 1 - 1 else NOT 0 :: u32)"
  have "bit all k \<longleftrightarrow> k < irqs + 1" for k
  proof (cases "irqs + 1 < 32")
    case True
    have "push_bit (irqs + 1) 1 - 1 = (mask (irqs + 1) :: u32)"
      by (simp add: mask_eq_exp_minus_1)
    then show ?thesis
      unfolding all_def using True by (simp only: if_True bit_mask_iff) auto
  qed (use boot in \<open>auto simp: all_def dest: bit_imp_le_length\<close>)
  then show ?case
    unfolding routing_reset register_cpus all_def [symmetric] using boot by (auto simp: route_ok_def routed_def)
next
  case (reg_write written mx offset v self)
  show ?case
  proof (cases "offset < n_irq mx")
    case True
    define mx' where "mx' = foldl (mirout_step (ucast v) offset) (mx\<lparr>mirout := (mirout mx)(offset := ucast v)\<rparr>) [0..<n_cpu mx]"
    have w: "xtensa_mx_pic_ext_reg_write mx self offset v = mx'"
      using True by (simp add: xtensa_mx_pic_ext_reg_write_def mx'_def Let_def)
    have "offset < 32"
      using True reg_write.IH by (auto simp: route_ok_def routing_def)
    note loop = mirout_loop_routing [OF this, of "ucast v" "mx\<lparr>mirout := (mirout mx)(offset := ucast v)\<rparr>" "[0..<n_cpu mx]", folded mx'_def]
    have "n_cpu mx' = n_cpu mx"
      by (simp add: mx'_def)
    then show ?thesis
      using True reg_write.IH unfolding w by (auto simp: route_ok_def routing_def routed_def loop)
  qed (use reg_write.IH routing_reg_write in simp)
qed (simp add: routing_set_irq)

text \<open>
  C7. In every run of the interrupt distributor the lines of each CPU are exactly what the
  registers say, although only lines that change are driven: above the inter-processor lines,
  line \<open>i\<close> of a CPU is high when external interrupt \<open>i\<close> - 2 is pending and enabled in MIENG, or
  asserted by software in MIASG, and the value last written to its MIROUT register has the bit of
  the CPU; an interrupt whose MIROUT register has not been written since reset goes to the
  first CPU, although the register reads zero. MIROUT reads back the value written. The lines below
  are those of the routed interrupts too, and the run-stall line of a CPU is its bit of MPSCORE.
\<close>

theorem mx_lines_follow_registers:
  assumes "mx_run written mx" "c < n_cpu mx" "i < 32"
  shows "(irq_line mx c i \<longleftrightarrow> bit (xtensa_mx_pic_get_ext_irq_for_cpu mx c) i) \<and>
    (if 3 \<le> i
     then irq_line mx c i \<longleftrightarrow>
       (bit (ext_irq_state mx) (i - 2) \<and> bit (mieng mx) (i - 2) \<or> bit (miasg mx) (i - 2)) \<and>
       i - 2 < n_irq mx \<and> (case written (i - 2) of Some v \<Rightarrow> bit v c | None \<Rightarrow> c = 0)
     else True) \<and>
    (if i < n_irq mx
     then xtensa_mx_pic_ext_reg_read mx self (MIROUT + i) =
       (case written i of Some v \<Rightarrow> ucast v | None \<Rightarrow> 0)
     else True) \<and>
    (runstall_line mx c \<longleftrightarrow> bit (mx_runstall mx) c)"
proof -
  have ok: "irq_line mx c i \<longleftrightarrow> bit (xtensa_mx_pic_get_ext_irq_for_cpu mx c) i"
    "runstall_line mx c \<longleftrightarrow> bit (mx_runstall mx) c"
    using mx_run_ok [OF assms(1)] assms(2,3) by (auto simp: mx_ok_def cpu_ok_def lines_ok_def stall_ok_def)
  have route: "bit (mirout_cache (mx_cpu mx c)) k \<longleftrightarrow> routed written (n_irq mx) k c"
    "k < n_irq mx \<Longrightarrow> mirout mx k = (case written k of Some v \<Rightarrow> v | None \<Rightarrow> 0)" for k
    using mx_run_routing [OF assms(1)] assms(2) by (auto simp: route_ok_def routing_def)
  have seven: "(7 :: u32) = mask 3" by (simp add: mask_eq_exp_minus_1)
  have "\<not> bit (xtensa_mx_pic_get_ipi_for_cpu mx c) i" if "3 \<le> i"
    using that unfolding xtensa_mx_pic_get_ipi_for_cpu_def Let_def seven bit_and_iff bit_mask_iff by simp
  then have "irq_line mx c i \<longleftrightarrow>
       (bit (ext_irq_state mx) (i - 2) \<and> bit (mieng mx) (i - 2) \<or> bit (miasg mx) (i - 2)) \<and>
       routed written (n_irq mx) (i - 2) c" if "3 \<le> i"
    using ok that assms(3) by (auto simp: xtensa_mx_pic_get_ext_irq_for_cpu_def bit_simps route(1))
  moreover have "xtensa_mx_pic_ext_reg_read mx self (MIROUT + i) = (case written i of Some v \<Rightarrow> ucast v | None \<Rightarrow> 0)"
    if "i < n_irq mx"
    using that assms(3) by (simp add: xtensa_mx_pic_ext_reg_read_def route(2) split: option.splits)
  ultimately show ?thesis
    using ok by (simp add: routed_def)
qed

theorem mx_lines_follow_registers_witness:
  "\<exists>mx. mx_run [3 \<mapsto> 2] mx \<and> n_cpu mx = 2 \<and> ext_irq_state mx = 8 \<and> \<not> irq_line mx 0 5 \<and> irq_line mx 1 5"
proof -
  let ?boot = "xtensa_mx_pic_reset ((xtensa_mx_pic_register_cpu ^^ 2) (xtensa_mx_pic_init 7))"
  let ?up = "xtensa_mx_pic_set_irq ?boot 3 True"
  let ?mx = "xtensa_mx_pic_ext_reg_write ?up 0 3 2"
  have up: "n_cpu ?up = 2" "n_irq ?up = 8" "ext_irq_state ?up = 8" "mieng ?up = 0xff"
    by (simp_all add: xtensa_mx_pic_set_irq_def xtensa_mx_pic_reset_def xtensa_mx_pic_register_cpu_def
        xtensa_mx_pic_init_def Let_def xtensa_mx_pic_update_all_def xtensa_mx_pic_update_cpu_def upd_cpu_def numeral_2_eq_2)
  have "mx_run Map.empty ?up" by (intro mx_run.set_line mx_run.boot) simp_all
  from mx_run.reg_write [OF this, of 3 2 0] up(2) have run: "mx_run [3 \<mapsto> 2] ?mx" by simp
  have "ext_irq_state (foldl (mirout_step v k) m cs) = ext_irq_state m" "mieng (foldl (mirout_step v k) m cs) = mieng m" for v k m cs
    by (rule foldl_frame; simp add: mirout_step_def Let_def xtensa_mx_pic_update_cpu_def upd_cpu_def)+
  then have mx: "n_cpu ?mx = 2" "n_irq ?mx = 8" "ext_irq_state ?mx = 8" "mieng ?mx = 0xff"
    using up by (simp_all add: xtensa_mx_pic_ext_reg_write_def mirout_loop_routing)
  define m where "m = ?mx"
  note follow = mx_lines_follow_registers [OF run [folded m_def]] and fields = mx [folded m_def]
  have "bit (8 :: u32) 3" "bit (0xff :: u32) 3"
    by simp_all
  then have "\<not> irq_line m 0 5" "irq_line m 1 5"
    using follow [of 0 5] follow [of 1 5] fields by auto
  then show ?thesis
    using run [folded m_def] fields by blast
qed

text \<open>
  Reset forgets the state of the lines without lowering them: a line that is high at reset stays
  high although nothing is routed to it any more, and no later update lowers it before its
  interrupt is raised again.
\<close>

lemma reset_keeps_lines_high:
  assumes "c < n_cpu mx" "irq_line mx c i"
  shows "irq_line (xtensa_mx_pic_reset mx) c i \<and>
    xtensa_mx_pic_get_ext_irq_for_cpu (xtensa_mx_pic_reset mx) c = 0 \<and>
    irq_line (xtensa_mx_pic_update_cpu (xtensa_mx_pic_reset mx) c) c i"
  using assms
  by (simp add: xtensa_mx_pic_get_ext_irq_for_cpu_def xtensa_mx_pic_get_ipi_for_cpu_def
      xtensa_mx_pic_update_cpu_def xtensa_mx_pic_reset_def upd_cpu_def Let_def drive_lines_eq)

end
