(* ===== verification/Esp32s3_Intc.thy ===== *)
theory Esp32s3_Intc
  imports Pic_Cpu "HOL-Library.Signed_Division"
begin

text \<open>
  The interrupt matrix of the ESP32-S3, \<^verbatim>\<open>hw/xtensa/esp32s3_intc.c\<close>: it routes 512
  peripheral interrupt sources to the external interrupt lines of the two CPUs through a
  table of one byte for each CPU and source. The CPUs the matrix is linked to are part of its
  state, and driving line \<open>k\<close> of \<^verbatim>\<open>outputs[i]\<close> is the call of the handler that
  \<^verbatim>\<open>xtensa_irq_init\<close> attaches to it, \<^verbatim>\<open>xtensa_set_irq\<close> on interrupt
  \<^verbatim>\<open>extint[k]\<close> of CPU \<open>i\<close>.
\<close>

section \<open>State\<close>

abbreviation (input) "ESP32S3_CPU_COUNT \<equiv> 2 :: nat"
abbreviation (input) "ESP32S3_INT_MATRIX_INPUTS \<equiv> 512 :: int"
abbreviation (input) "INTMATRIX_UNINT_VALUE \<equiv> 6 :: u8"

text \<open>\<^verbatim>\<open>outputs i\<close> tells that the pointer \<^verbatim>\<open>outputs[i]\<close> is not null.\<close>

record Esp32s3IntMatrixState =
  outputs :: "nat \<Rightarrow> bool"
  irq_map :: "int \<Rightarrow> int \<Rightarrow> u8"
  int_cpu :: "nat \<Rightarrow> env option"

section \<open>Operations\<close>

text \<open>The inner loop of the handler, over the indices of external interrupts that remain.\<close>

fun drive_extint :: "nat \<Rightarrow> bool \<Rightarrow> nat list \<Rightarrow> env \<Rightarrow> env" where
  "drive_extint out_index level [] env = env"
| "drive_extint out_index level (k # ks) env =
     (if extint (config env) k = out_index then xtensa_set_irq env (extint (config env) k) level
      else drive_extint out_index level ks env)"

definition route_to_cpu :: "int \<Rightarrow> bool \<Rightarrow> nat \<Rightarrow> Esp32s3IntMatrixState \<Rightarrow> Esp32s3IntMatrixState" where
  "route_to_cpu n level i s =
     (if \<not> outputs s i then s
      else case int_cpu s i of
        None \<Rightarrow> s
      | Some env \<Rightarrow>
          let out_index = unat (irq_map s (int i) n) in
          s\<lparr>int_cpu := (int_cpu s)(i \<mapsto> drive_extint out_index level [0..<nextint (config env)] env)\<rparr>)"

definition esp32s3_intmatrix_irq_handler ::
    "Esp32s3IntMatrixState \<Rightarrow> int \<Rightarrow> bool \<Rightarrow> Esp32s3IntMatrixState" where
  "esp32s3_intmatrix_irq_handler s n level = fold (route_to_cpu n level) [0..<ESP32S3_CPU_COUNT] s"

text \<open>
  The entry of \<^verbatim>\<open>irq_map\<close> that an address selects; the index is an \<^verbatim>\<open>int\<close>, so the
  quotient of the address is cut to 32 bits and read as a signed number.
\<close>

definition get_map_entry :: "u64 \<Rightarrow> (int \<times> int) option" where
  "get_map_entry addr =
     (let source_index = sint (ucast (addr div 4) :: u32) in
      if source_index > ESP32S3_INT_MATRIX_INPUTS * int ESP32S3_CPU_COUNT then None
      else Some (source_index sdiv ESP32S3_INT_MATRIX_INPUTS, source_index smod ESP32S3_INT_MATRIX_INPUTS))"

definition esp32s3_intmatrix_read :: "Esp32s3IntMatrixState \<Rightarrow> u64 \<Rightarrow> u64" where
  "esp32s3_intmatrix_read s addr =
     (case get_map_entry addr of Some (c, n) \<Rightarrow> ucast (irq_map s c n) | None \<Rightarrow> 0)"

definition esp32s3_intmatrix_write :: "Esp32s3IntMatrixState \<Rightarrow> u64 \<Rightarrow> u64 \<Rightarrow> Esp32s3IntMatrixState" where
  "esp32s3_intmatrix_write s addr v =
     (case get_map_entry addr of
        Some (c, n) \<Rightarrow> s\<lparr>irq_map := (irq_map s)(c := (irq_map s c)(n := ucast (v AND 0x1f)))\<rparr>
      | None \<Rightarrow> s)"

definition lower_extints :: "nat \<Rightarrow> Esp32s3IntMatrixState \<Rightarrow> Esp32s3IntMatrixState" where
  "lower_extints i s =
     (if \<not> outputs s i then s
      else case int_cpu s i of
        None \<Rightarrow> s
      | Some env \<Rightarrow>
          s\<lparr>int_cpu := (int_cpu s)(i \<mapsto>
            fold (\<lambda>k env. xtensa_set_irq env (extint (config env) k) False) [0..<nextint (config env)] env)\<rparr>)"

definition esp32s3_intmatrix_reset_hold :: "Esp32s3IntMatrixState \<Rightarrow> Esp32s3IntMatrixState" where
  "esp32s3_intmatrix_reset_hold s =
     fold lower_extints [0..<ESP32S3_CPU_COUNT]
       (s\<lparr>irq_map := (\<lambda>c n. if 0 \<le> c \<and> c < int ESP32S3_CPU_COUNT \<and> 0 \<le> n \<and> n < ESP32S3_INT_MATRIX_INPUTS
            then INTMATRIX_UNINT_VALUE else irq_map s c n)\<rparr>)"

definition esp32s3_intmatrix_realize :: "Esp32s3IntMatrixState \<Rightarrow> Esp32s3IntMatrixState" where
  "esp32s3_intmatrix_realize s =
     esp32s3_intmatrix_reset_hold
       (s\<lparr>outputs := (\<lambda>i. if i < ESP32S3_CPU_COUNT \<and> int_cpu s i \<noteq> None then True else outputs s i)\<rparr>)"

section \<open>Addresses of the table\<close>

text \<open>The memory region of the matrix ends where its table does.\<close>

definition map_addr :: "nat \<Rightarrow> nat \<Rightarrow> u64" where
  "map_addr c n = of_nat (4 * (512 * c + n))"

lemma get_map_entry_addr:
  assumes "c < 2" "n < 512"
  shows "get_map_entry (map_addr c n) = Some (int c, int n)"
proof -
  let ?k = "512 * c + n"
  have k: "?k < 1024" using assms by simp
  have lt: "4 * ?k < 4096" using k by simp
  have "unat (of_nat m :: u64) = m" if "m < 4096" for m
    using that by (simp add: unsigned_of_nat take_bit_nat_eq_self)
  from this [OF lt] have "unat (map_addr c n) = 4 * ?k" unfolding map_addr_def .
  then have q: "unat (map_addr c n div 4) = ?k" by (simp add: unat_div)
  have "ucast (map_addr c n div 4) = (of_nat (unat (map_addr c n div 4)) :: u32)" by simp
  then have "ucast (map_addr c n div 4) = (word_of_int (int ?k) :: u32)"
    unfolding q by (simp only: of_int_of_nat_eq)
  then have "sint (ucast (map_addr c n div 4) :: u32) = int ?k"
    using k sint32_of_int [of "int ?k"] by (simp only:) simp
  moreover have "int ?k sdiv 512 = int c" "int ?k smod 512 = int n"
    using assms by (auto simp: signed_divide_int_def signed_modulo_int_def sgn_if)
  ultimately show ?thesis using k by (simp add: get_map_entry_def Let_def)
qed

text \<open>The guard of \<^verbatim>\<open>get_map_entry\<close> lets the first address behind the table through.\<close>

lemma get_map_entry_past_end: "get_map_entry (map_addr 2 0) = Some (2, 0)"
  by (simp add: get_map_entry_def map_addr_def signed_divide_int_def signed_modulo_int_def)

section \<open>Routing\<close>

lemma drive_extint_in:
  assumes "k \<in> set ks" "extint (config env) k = out"
  shows "drive_extint out level ks env = xtensa_set_irq env out level"
  using assms by (induction ks) auto

lemma drive_extint_out:
  assumes "\<forall>k \<in> set ks. extint (config env) k \<noteq> out"
  shows "drive_extint out level ks env = env"
  using assms by (induction ks) auto

text \<open>The interrupts of the ESP32-S3 core that have an external line.\<close>

definition is_extint :: "nat \<Rightarrow> bool" where
  "is_extint out \<longleftrightarrow> out \<in> set (map (extint esp32s3_config) [0..<nextint esp32s3_config])"

lemma is_extint_list:
  "is_extint out \<longleftrightarrow> out \<in> {0, 1, 2, 3, 4, 5, 8, 9, 10, 12, 13, 14, 17, 18, 19, 20,
     21, 22, 23, 24, 25, 26, 27, 28, 30, 31}"
  unfolding is_extint_def config_simps upt_0_26 by (simp add: esp32s3_extint_def table_def)

lemma drive_extint_esp32s3:
  assumes "config env = esp32s3_config"
  shows "drive_extint out level [0..<nextint esp32s3_config] env =
    (if is_extint out then xtensa_set_irq env out level else env)"
proof (cases "is_extint out")
  case True
  then obtain k where "k \<in> set [0..<nextint esp32s3_config]" "extint (config env) k = out"
    using assms by (auto simp: is_extint_def)
  from drive_extint_in [OF this] True show ?thesis by simp
next
  case False
  then have "\<forall>k \<in> set [0..<nextint esp32s3_config]. extint (config env) k \<noteq> out"
    using assms by (auto simp: is_extint_def)
  from drive_extint_out [OF this] False show ?thesis by simp
qed

lemma upt_0_2: "[0..<2] = [0, 1 :: nat]"
  by (simp add: upt_rec numeral_2_eq_2)

text \<open>The matrix of the machine: both CPUs are ESP32-S3 cores and both outputs are connected.\<close>

definition intmatrix_ok :: "Esp32s3IntMatrixState \<Rightarrow> bool" where
  "intmatrix_ok s \<longleftrightarrow> list_all (\<lambda>i. outputs s i \<and>
     (case int_cpu s i of Some env \<Rightarrow> config env = esp32s3_config | None \<Rightarrow> False)) [0..<2]"

lemma intmatrix_okE:
  assumes "intmatrix_ok s" "c < 2"
  obtains env where "outputs s c" "int_cpu s c = Some env" "config env = esp32s3_config"
proof -
  have "outputs s c \<and> (case int_cpu s c of Some env \<Rightarrow> config env = esp32s3_config | None \<Rightarrow> False)"
    using assms by (simp add: intmatrix_ok_def list_all_iff)
  then show thesis using that by (auto split: option.splits)
qed

lemma handler_cpu:
  assumes "intmatrix_ok s" "c < 2" "int_cpu s c = Some env"
  shows "int_cpu (esp32s3_intmatrix_irq_handler s n level) c =
    Some (if is_extint (unat (irq_map s (int c) n)) then xtensa_set_irq env (unat (irq_map s (int c) n)) level
          else env)"
proof -
  obtain e0 where e0: "outputs s 0" "int_cpu s 0 = Some e0" "config e0 = esp32s3_config"
    using intmatrix_okE [OF assms(1), of 0] by auto
  obtain e1 where e1: "outputs s 1" "int_cpu s 1 = Some e1" "config e1 = esp32s3_config"
    using intmatrix_okE [OF assms(1), of 1] by auto
  have "c = 0 \<or> c = 1" using assms(2) by auto
  then show ?thesis
    using e0 e1 assms(3)
    by (auto simp: esp32s3_intmatrix_irq_handler_def upt_0_2 route_to_cpu_def Let_def
        drive_extint_esp32s3)
qed

lemma handler_frame [frame_simps]:
  "outputs (esp32s3_intmatrix_irq_handler s n level) = outputs s"
  "irq_map (esp32s3_intmatrix_irq_handler s n level) = irq_map s"
  by (simp_all add: esp32s3_intmatrix_irq_handler_def upt_0_2 route_to_cpu_def Let_def split: option.splits)

lemma handler_ok:
  assumes ok: "intmatrix_ok s"
  shows "intmatrix_ok (esp32s3_intmatrix_irq_handler s n level)"
proof -
  have "\<exists>e. int_cpu (esp32s3_intmatrix_irq_handler s n level) i = Some e \<and> config e = esp32s3_config"
    if i: "i < 2" for i
  proof -
    obtain e where "int_cpu s i = Some e" "config e = esp32s3_config" using intmatrix_okE [OF ok i] by auto
    with handler_cpu [OF ok i this(1)] show ?thesis by (simp add: frame_simps)
  qed
  with ok show ?thesis by (fastforce simp: intmatrix_ok_def list_all_iff frame_simps)
qed

lemma write_frame [frame_simps]:
  "outputs (esp32s3_intmatrix_write s addr v) = outputs s"
  "int_cpu (esp32s3_intmatrix_write s addr v) = int_cpu s"
  "intmatrix_ok (esp32s3_intmatrix_write s addr v) = intmatrix_ok s"
  by (simp_all add: esp32s3_intmatrix_write_def intmatrix_ok_def split: option.splits)

lemma write_irq_map:
  "c < 2 \<Longrightarrow> n < 512 \<Longrightarrow> irq_map (esp32s3_intmatrix_write s (map_addr c n) v) =
     (irq_map s)(int c := (irq_map s (int c))(int n := ucast (v AND 0x1f)))"
  by (simp add: esp32s3_intmatrix_write_def get_map_entry_addr)

lemma low5:
  fixes v :: u64
  shows "ucast (ucast (v AND 0x1f) :: u8) = v AND 0x1f" "unat (ucast (v AND 0x1f) :: u8) = unat (v AND 0x1f)"
proof -
  have "v AND 0x1f = take_bit 5 v" by (simp add: take_bit_eq_mask mask_eq_exp_minus_1)
  then show "ucast (ucast (v AND 0x1f) :: u8) = v AND 0x1f" "unat (ucast (v AND 0x1f) :: u8) = unat (v AND 0x1f)"
    by (auto intro!: bit_word_eqI simp: bit_simps unsigned_ucast_eq unsigned_take_bit_eq)
qed

text \<open>
  C28. The interrupt matrix is a routing table. Writing a value to the entry of CPU \<open>c\<close> and
  source \<open>n\<close> stores its low five bits, which are what a read of the entry returns, and
  changes no other entry. The source then drives the interrupt with that number of the CPU,
  provided that the interrupt has an external line; a source routed to an internal
  (timer, software or profiling) interrupt leaves the CPU alone.
\<close>

theorem intmatrix_routes:
  assumes "intmatrix_ok s" "int_cpu s c = Some env" "c < 2" "n < 512" "c' < 2" "n' < 512"
  shows "let s' = esp32s3_intmatrix_write s (map_addr c n) v; k = unat (v AND 0x1f) in
    esp32s3_intmatrix_read s' (map_addr c' n') =
      (if c' = c \<and> n' = n then v AND 0x1f else esp32s3_intmatrix_read s (map_addr c' n')) \<and>
    int_cpu (esp32s3_intmatrix_irq_handler s' (int n) level) c =
      Some (if is_extint k then xtensa_set_irq env k level else env)"
  unfolding Let_def
proof (intro conjI)
  let ?s' = "esp32s3_intmatrix_write s (map_addr c n) v"
  show "esp32s3_intmatrix_read ?s' (map_addr c' n') =
      (if c' = c \<and> n' = n then v AND 0x1f else esp32s3_intmatrix_read s (map_addr c' n'))"
    using assms by (auto simp: esp32s3_intmatrix_read_def get_map_entry_addr write_irq_map low5)
  have "intmatrix_ok ?s'" "int_cpu ?s' c = Some env" using assms by (simp_all add: frame_simps)
  from handler_cpu [OF this(1) \<open>c < 2\<close> this(2)]
  show "int_cpu (esp32s3_intmatrix_irq_handler ?s' (int n) level) c =
      Some (if is_extint (unat (v AND 0x1f)) then xtensa_set_irq env (unat (v AND 0x1f)) level else env)"
    using assms by (simp add: write_irq_map low5)
qed

text \<open>The machine at power-on: two ESP32-S3 cores as allocated, linked to the matrix.\<close>

definition new_intmatrix :: Esp32s3IntMatrixState where
  "new_intmatrix =
     \<lparr>outputs = (\<lambda>_. False), irq_map = (\<lambda>_ _. 0),
      int_cpu = (\<lambda>i. if i < ESP32S3_CPU_COUNT then Some (new_cpu esp32s3_config) else None)\<rparr>"

lemma lower_extints_config:
  "config (fold (\<lambda>k env. xtensa_set_irq env (extint (config env) k) False) ks env) = config env"
  by (induction ks arbitrary: env) (simp_all add: frame_simps)

lemma lower_extints_ok:
  assumes "intmatrix_ok s"
  shows "intmatrix_ok (lower_extints i s)"
  using assms
  by (auto simp: lower_extints_def intmatrix_ok_def list_all_iff lower_extints_config split: option.splits if_splits)

lemma reset_hold_ok:
  assumes "intmatrix_ok s"
  shows "intmatrix_ok (esp32s3_intmatrix_reset_hold s)"
  using assms unfolding esp32s3_intmatrix_reset_hold_def upt_0_2
  by (simp add: lower_extints_ok intmatrix_ok_def [of "s\<lparr>irq_map := _\<rparr>"] intmatrix_ok_def [of s, symmetric])

lemma new_intmatrix_ok: "intmatrix_ok (esp32s3_intmatrix_realize new_intmatrix)"
  unfolding esp32s3_intmatrix_realize_def
  by (rule reset_hold_ok) (simp add: intmatrix_ok_def new_intmatrix_def upt_0_2 new_cpu_def)

theorem intmatrix_routes_witness:
  "\<exists>s env. intmatrix_ok s \<and> int_cpu s 1 = Some env \<and>
    int_cpu (esp32s3_intmatrix_irq_handler (esp32s3_intmatrix_write s (map_addr 1 79) 0x33) 79 True) 1 =
      Some (xtensa_set_irq env 19 True) \<and>
    esp32s3_intmatrix_read (esp32s3_intmatrix_write s (map_addr 1 79) 0x33) (map_addr 1 79) = 19"
proof -
  let ?s = "esp32s3_intmatrix_realize new_intmatrix"
  obtain env where env: "int_cpu ?s 1 = Some env" using intmatrix_okE [OF new_intmatrix_ok, of 1] by auto
  have "is_extint 19" by (simp add: is_extint_list)
  then show ?thesis
    using intmatrix_routes [OF new_intmatrix_ok env, of 79 1 79 "0x33" True] env new_intmatrix_ok
    by (intro exI [of _ ?s] exI [of _ env]) (simp add: Let_def)
qed

section \<open>Reset\<close>

lemma lower_all_bits:
  assumes "config env = esp32s3_config"
  shows "bit (sregs (fold (\<lambda>k env. xtensa_set_irq env (extint (config env) k) False) ks env) INTSET) j \<longleftrightarrow>
    bit (sregs env INTSET) j \<and>
    \<not> (j \<in> extint esp32s3_config ` set ks \<and> j < 32 \<and> interrupt_inttype esp32s3_config j = INTTYPE_LEVEL)"
  using assms
proof (induction ks arbitrary: env)
  case (Cons k ks)
  let ?e = "xtensa_set_irq env (extint (config env) k) False"
  have "config ?e = esp32s3_config" using Cons.prems by (simp add: frame_simps)
  from Cons.IH [OF this] set_irq_bits [of env "extint (config env) k" False j] Cons.prems
  show ?case by (auto simp: config_simps)
qed simp

lemma reset_cpu:
  assumes "intmatrix_ok s" "c < 2" "int_cpu s c = Some env"
  shows "int_cpu (esp32s3_intmatrix_reset_hold s) c =
    Some (fold (\<lambda>k env. xtensa_set_irq env (extint (config env) k) False) [0..<nextint esp32s3_config] env)"
proof -
  obtain e0 where e0: "outputs s 0" "int_cpu s 0 = Some e0" "config e0 = esp32s3_config"
    using intmatrix_okE [OF assms(1), of 0] by auto
  obtain e1 where e1: "outputs s 1" "int_cpu s 1 = Some e1" "config e1 = esp32s3_config"
    using intmatrix_okE [OF assms(1), of 1] by auto
  have "c = 0 \<or> c = 1" using assms(2) by auto
  then show ?thesis
    using e0 e1 assms(3) by (auto simp: esp32s3_intmatrix_reset_hold_def upt_0_2 lower_extints_def)
qed

lemma reset_irq_map:
  "c < 2 \<Longrightarrow> 0 \<le> n \<Longrightarrow> n < 512 \<Longrightarrow> irq_map (esp32s3_intmatrix_reset_hold s) (int c) n = 6"
  by (simp add: esp32s3_intmatrix_reset_hold_def upt_0_2 lower_extints_def split: option.splits)

text \<open>
  C29. Reset disconnects every source: each level-triggered external interrupt of both CPUs is
  lowered, the latched ones keep their state, and until the table is written again no source
  reaches a CPU, because the reset value of the table, interrupt 6, is a timer interrupt without an
  external line.
\<close>

theorem intmatrix_reset_disconnects:
  assumes "intmatrix_ok s" "int_cpu s c = Some env" "c < 2" "n < 512"
  shows "\<exists>env'. int_cpu (esp32s3_intmatrix_reset_hold s) c = Some env' \<and>
    int_cpu (esp32s3_intmatrix_irq_handler (esp32s3_intmatrix_reset_hold s) (int n) level) c = Some env' \<and>
    bit (sregs env' INTSET) j =
      (bit (sregs env INTSET) j \<and> \<not> (is_extint j \<and> interrupt_inttype esp32s3_config j = INTTYPE_LEVEL))"
proof -
  let ?env' = "fold (\<lambda>k env. xtensa_set_irq env (extint (config env) k) False) [0..<nextint esp32s3_config] env"
  have cpu: "int_cpu (esp32s3_intmatrix_reset_hold s) c = Some ?env'"
    using reset_cpu assms by simp
  have "\<not> is_extint 6" by (simp add: is_extint_list)
  then have "int_cpu (esp32s3_intmatrix_irq_handler (esp32s3_intmatrix_reset_hold s) (int n) level) c = Some ?env'"
    using handler_cpu [OF reset_hold_ok [OF assms(1)] \<open>c < 2\<close> cpu, of "int n" level] assms
    by (simp add: reset_irq_map)
  moreover have "config env = esp32s3_config" using intmatrix_okE [OF assms(1,3)] assms(2) by auto
  moreover have "is_extint j \<longleftrightarrow> j \<in> extint esp32s3_config ` set [0..<nextint esp32s3_config] \<and> j < 32"
    using is_extint_list [of j] by (auto simp: is_extint_def simp del: set_upt)
  ultimately show ?thesis using cpu lower_all_bits [of env "[0..<nextint esp32s3_config]" j] by auto
qed

theorem intmatrix_reset_disconnects_witness:
  "\<exists>s env env'. int_cpu s 0 = Some env \<and> bit (sregs env INTSET) 3 \<and>
    int_cpu (esp32s3_intmatrix_reset_hold s) 0 = Some env' \<and> \<not> bit (sregs env' INTSET) 3"
proof -
  let ?m = "esp32s3_intmatrix_realize new_intmatrix"
  obtain env where env: "int_cpu ?m 0 = Some env" "config env = esp32s3_config"
    using intmatrix_okE [OF new_intmatrix_ok, of 0] by auto
  let ?e = "xtensa_set_irq env 3 True"
  let ?s = "?m\<lparr>int_cpu := (int_cpu ?m)(0 := Some ?e)\<rparr>"
  have ok: "intmatrix_ok ?s"
    using new_intmatrix_ok env by (simp add: intmatrix_ok_def upt_0_2 frame_simps)
  have bit3: "bit (sregs ?e INTSET) 3" using set_irq_bits [of env 3 True 3] env by (simp add: config_simps)
  have ext3: "is_extint 3" "interrupt_inttype esp32s3_config 3 = INTTYPE_LEVEL"
    by (simp_all add: is_extint_list config_simps esp32s3_interrupt_inttype_def table_def)
  have cpu: "int_cpu ?s 0 = Some ?e" by simp
  from intmatrix_reset_disconnects [OF ok cpu, of 0 True 3] ext3
  obtain env' where "int_cpu (esp32s3_intmatrix_reset_hold ?s) 0 = Some env'" "\<not> bit (sregs env' INTSET) 3"
    by auto
  with cpu bit3 show ?thesis by blast
qed

section \<open>Shared lines\<close>

text \<open>
  The matrix keeps no level for its sources. When two sources are routed to one level-triggered
  interrupt, lowering one of them lowers the interrupt although the other is still high.
\<close>

lemma shared_line_lost:
  assumes "intmatrix_ok s" "c < 2" "int_cpu s c = Some env"
    "irq_map s (int c) n = of_nat k" "irq_map s (int c) m = of_nat k" "is_extint k"
    "interrupt_inttype esp32s3_config k = INTTYPE_LEVEL"
  shows "\<exists>env'. int_cpu (esp32s3_intmatrix_irq_handler (esp32s3_intmatrix_irq_handler
      (esp32s3_intmatrix_irq_handler s m True) n True) n False) c = Some env' \<and> \<not> bit (sregs env' INTSET) k"
proof -
  have k: "k < 32" "unat (of_nat k :: u8) = k"
    using assms(6) by (auto simp: is_extint_list)
  have cfg: "config env = esp32s3_config" using intmatrix_okE [OF assms(1,2)] assms(3) by auto
  note step = handler_ok
  let ?s1 = "esp32s3_intmatrix_irq_handler s m True"
  let ?s2 = "esp32s3_intmatrix_irq_handler ?s1 n True"
  have 1: "int_cpu ?s1 c = Some (xtensa_set_irq env k True)"
    using handler_cpu [OF assms(1-3)] assms k by simp
  have 2: "int_cpu ?s2 c = Some (xtensa_set_irq (xtensa_set_irq env k True) k True)"
    using handler_cpu [OF step [OF assms(1)] assms(2) 1] assms k by (simp add: frame_simps)
  show ?thesis
    using handler_cpu [OF step [OF step [OF assms(1)]] assms(2) 2] assms k cfg
      set_irq_bits [of "xtensa_set_irq (xtensa_set_irq env k True) k True" k False k]
    by (simp add: frame_simps config_simps)
qed

end
