(* ===== verification/Esp32s3_Clk.thy ===== *)
theory Esp32s3_Clk
  imports Esp32s3_Intc
begin

text \<open>
  The system and clock registers of the ESP32-S3, \<^verbatim>\<open>hw/xtensa/esp32s3_clk.c\<close>, and
  their wiring in \<^verbatim>\<open>hw/xtensa/esp32s3.c\<close>: four registers raise the cross-core
  interrupts, whose lines are inputs of the interrupt matrix. An operation returns the new
  registers and the levels it drives on the four lines, in order.
\<close>

section \<open>State\<close>

record ESP32S3ClockState =
  cpuperconf :: u32
  sysclk :: u32
  levels :: u32
  app_cpu_addr :: u32
  sys_ext_dev_enc_dec_ctrl :: u32

abbreviation (input) "A_SYSTEM_CORE_1_CONTROL_1_REG \<equiv> 0x004 :: u64"
abbreviation (input) "A_SYSTEM_CPU_PER_CONF \<equiv> 0x010 :: u64"
abbreviation (input) "A_SYSTEM_CPU_INTR_FROM_CPU_0 \<equiv> 0x030 :: u64"
abbreviation (input) "A_SYSTEM_CPU_INTR_FROM_CPU_1 \<equiv> 0x034 :: u64"
abbreviation (input) "A_SYSTEM_CPU_INTR_FROM_CPU_2 \<equiv> 0x038 :: u64"
abbreviation (input) "A_SYSTEM_CPU_INTR_FROM_CPU_3 \<equiv> 0x03c :: u64"
abbreviation (input) "A_SYSTEM_EXTERNAL_DEVICE_ENCRYPT_DECRYPT_CONTROL \<equiv> 0x04c :: u64"
abbreviation (input) "A_SYSTEM_SYSCLK_CONF \<equiv> 0x060 :: u64"
abbreviation (input) "ESP32S3_SYSTEM_CPU_INTR_COUNT \<equiv> 4 :: nat"
abbreviation (input) "ESP32S3_CLK_SEL_PLL \<equiv> 1 :: u32"
abbreviation (input) "ESP32S3_PERIOD_SEL_80 \<equiv> 0 :: u32"
abbreviation (input) "ESP32S3_FREQ_SEL_PLL_480 \<equiv> 0 :: u32"

type_synonym irq_events = "(nat \<times> bool) list"

section \<open>Operations\<close>

definition esp32s3_read_cpu_intr :: "ESP32S3ClockState \<Rightarrow> u32 \<Rightarrow> u32" where
  "esp32s3_read_cpu_intr s index = drop_bit (unat index) (levels s) AND 1"

definition esp32s3_write_cpu_intr ::
    "ESP32S3ClockState \<Rightarrow> u32 \<Rightarrow> u32 \<Rightarrow> ESP32S3ClockState \<times> irq_events" where
  "esp32s3_write_cpu_intr s index v =
     (let field = extract32 v 0 1 in
      if field \<noteq> 0
      then (s\<lparr>levels := levels s OR push_bit (unat index) 1\<rparr>, [(unat index, True)])
      else (s\<lparr>levels := levels s AND NOT (push_bit (unat index) 1)\<rparr>, [(unat index, False)]))"

definition esp32s3_clock_get_ext_dev_enc_dec_ctrl :: "ESP32S3ClockState \<Rightarrow> u32" where
  "esp32s3_clock_get_ext_dev_enc_dec_ctrl s = sys_ext_dev_enc_dec_ctrl s"

definition is_cpu_intr :: "u64 \<Rightarrow> bool" where
  "is_cpu_intr addr \<longleftrightarrow>
     addr = A_SYSTEM_CPU_INTR_FROM_CPU_0 \<or> addr = A_SYSTEM_CPU_INTR_FROM_CPU_1 \<or>
     addr = A_SYSTEM_CPU_INTR_FROM_CPU_2 \<or> addr = A_SYSTEM_CPU_INTR_FROM_CPU_3"

definition esp32s3_clock_read :: "ESP32S3ClockState \<Rightarrow> u64 \<Rightarrow> u64" where
  "esp32s3_clock_read s addr =
     (if addr = A_SYSTEM_CORE_1_CONTROL_1_REG then ucast (app_cpu_addr s)
      else if addr = A_SYSTEM_CPU_PER_CONF then ucast (cpuperconf s)
      else if addr = A_SYSTEM_SYSCLK_CONF then ucast (sysclk s)
      else if is_cpu_intr addr
      then ucast (esp32s3_read_cpu_intr s (ucast ((addr - A_SYSTEM_CPU_INTR_FROM_CPU_0) div 4)))
      else if addr = A_SYSTEM_EXTERNAL_DEVICE_ENCRYPT_DECRYPT_CONTROL then ucast (sys_ext_dev_enc_dec_ctrl s)
      else 0)"

definition esp32s3_clock_write ::
    "ESP32S3ClockState \<Rightarrow> u64 \<Rightarrow> u64 \<Rightarrow> ESP32S3ClockState \<times> irq_events" where
  "esp32s3_clock_write s addr v =
     (if addr = A_SYSTEM_CORE_1_CONTROL_1_REG then (s\<lparr>app_cpu_addr := ucast v\<rparr>, [])
      else if is_cpu_intr addr
      then esp32s3_write_cpu_intr s (ucast ((addr - A_SYSTEM_CPU_INTR_FROM_CPU_0) div 4)) (ucast v)
      else if addr = A_SYSTEM_EXTERNAL_DEVICE_ENCRYPT_DECRYPT_CONTROL
      then (s\<lparr>sys_ext_dev_enc_dec_ctrl := ucast v\<rparr>, [])
      else (s, []))"

definition esp32s3_clock_reset_hold :: "ESP32S3ClockState \<Rightarrow> ESP32S3ClockState \<times> irq_events" where
  "esp32s3_clock_reset_hold s =
     (s\<lparr>sysclk := push_bit 0 1 OR push_bit 10 ESP32S3_CLK_SEL_PLL OR push_bit 12 40 OR push_bit 19 1,
        cpuperconf := push_bit 0 ESP32S3_PERIOD_SEL_80 OR push_bit 2 ESP32S3_FREQ_SEL_PLL_480,
        levels := 0\<rparr>,
      map (\<lambda>i. (i, False)) [0..<ESP32S3_SYSTEM_CPU_INTR_COUNT])"

section \<open>The wiring of the machine\<close>

abbreviation (input) "ETS_FROM_CPU_INTR0_SOURCE \<equiv> 79 :: nat"

record Esp32s3SocState =
  soc_clock :: ESP32S3ClockState
  soc_intmatrix :: Esp32s3IntMatrixState

definition deliver :: "irq_events \<Rightarrow> Esp32s3IntMatrixState \<Rightarrow> Esp32s3IntMatrixState" where
  "deliver events m =
     fold (\<lambda>(i, level) m. esp32s3_intmatrix_irq_handler m (int (ETS_FROM_CPU_INTR0_SOURCE + i)) level) events m"

definition soc_clock_write :: "Esp32s3SocState \<Rightarrow> u64 \<Rightarrow> u64 \<Rightarrow> Esp32s3SocState" where
  "soc_clock_write soc addr v =
     (case esp32s3_clock_write (soc_clock soc) addr v of
        (s, events) \<Rightarrow> soc\<lparr>soc_clock := s, soc_intmatrix := deliver events (soc_intmatrix soc)\<rparr>)"

section \<open>Cross-core interrupts\<close>

definition intr_addr :: "nat \<Rightarrow> u64" where
  "intr_addr i = 0x30 + 4 * of_nat i"

lemma intr_addr_cases:
  assumes "i < 4"
  shows "is_cpu_intr (intr_addr i)" "unat (ucast ((intr_addr i - 0x30) div 4) :: u32) = i"
    "intr_addr i \<notin> {0x4, 0x10, 0x60, 0x4c}"
proof -
  have "i \<in> {0, 1, 2, 3}" using assms by auto
  then show "is_cpu_intr (intr_addr i)" "unat (ucast ((intr_addr i - 0x30) div 4) :: u32) = i"
    "intr_addr i \<notin> {0x4, 0x10, 0x60, 0x4c}"
    by (auto simp: is_cpu_intr_def intr_addr_def)
qed

lemma extract_low_bit: "extract32 v 0 1 = of_bool (bit v 0)"
  by (rule bit_word_eqI) (auto simp: bit_extract32 bit_simps simp del: bit_0)

lemma clock_write_intr:
  assumes "i < 4"
  shows "esp32s3_clock_write s (intr_addr i) v =
    (s\<lparr>levels := (if bit v 0 then levels s OR push_bit i 1 else levels s AND NOT (push_bit i 1))\<rparr>, [(i, bit v 0)])"
proof -
  have "bit (ucast v :: u32) 0 = bit v 0" by (simp add: bit_simps)
  then show ?thesis
    using intr_addr_cases [OF assms]
    by (auto simp: esp32s3_clock_write_def esp32s3_write_cpu_intr_def Let_def extract_low_bit simp del: bit_0 One_nat_def)
qed

lemma clock_read_intr:
  assumes "i < 4"
  shows "esp32s3_clock_read s (intr_addr i) = of_bool (bit (levels s) i)"
  using intr_addr_cases [OF assms]
  by (auto simp: esp32s3_clock_read_def esp32s3_read_cpu_intr_def bit_iff_odd_drop_bit and_one_eq odd_iff_mod_2_eq_one
      mod2_eq_if)

text \<open>The level tables of the core, as they are used here.\<close>

lemma esp32s3_levels:
  assumes "k < 32"
  shows "bit (level_mask esp32s3_config (interrupt_level esp32s3_config k)) k"
    "interrupt_level esp32s3_config k \<le> nlevel esp32s3_config"
proof -
  have "list_all (\<lambda>k. bit (level_mask esp32s3_config (interrupt_level esp32s3_config k)) k \<and>
      interrupt_level esp32s3_config k \<le> 7) [0..<32]"
    by (simp add: config_simps esp32s3_tables upt_0_32)
  then show "bit (level_mask esp32s3_config (interrupt_level esp32s3_config k)) k"
    "interrupt_level esp32s3_config k \<le> nlevel esp32s3_config"
    using assms by (auto simp: list_all_iff config_simps)
qed

lemma set_irq_pending:
  assumes "config env = esp32s3_config" "k < 32" "bit (sregs env INTENABLE) k"
    "irq_minlevel env < int (interrupt_level esp32s3_config k)"
  shows "interrupt_level esp32s3_config k \<le> pending_irq_level (xtensa_set_irq env k True) \<and>
    hd (calls (xtensa_set_irq env k True)) = Cpu_interrupt CPU_INTERRUPT_HARD"
proof -
  let ?e = "set_sreg INTSET (sregs env INTSET OR push_bit k 1) env"
  have "xtensa_set_irq env k True = check_interrupts ?e"
    using assms by (simp add: xtensa_set_irq_def Let_def config_simps)
  moreover have "bit (int_set_enabled ?e) k"
    using assms by (simp add: int_set_enabled_def set_sreg_def bit_simps)
  moreover have "irq_minlevel ?e = irq_minlevel env" by (rule irq_minlevel_cong) (simp_all add: set_sreg_def)
  ultimately show ?thesis
    using check_interrupts_pending [of ?e k "interrupt_level esp32s3_config k"] assms esp32s3_levels
    by (simp add: set_sreg_def)
qed

text \<open>
  C8. Cross-core interrupts reach the CPUs. Writing a value to one of the four cross-core
  registers stores its low bit, which a read of the register returns, and changes none of the other three. On each CPU whose
  interrupt matrix routes the register's source to a level-triggered interrupt, that bit becomes the bit
  of this interrupt in INTSET, and no other bit of INTSET changes; if the interrupt is raised while it is
  enabled and above the level the CPU runs at, then an interrupt of at least its level is pending
  and the CPU's execution loop is asked to take it.
\<close>

theorem crosscore_interrupt:
  assumes "intmatrix_ok (soc_intmatrix soc)" "int_cpu (soc_intmatrix soc) c = Some env" "c < 2" "i < 4" "i' < 4"
    "k = unat (irq_map (soc_intmatrix soc) (int c) (79 + int i))" "is_extint k"
    "interrupt_inttype esp32s3_config k = INTTYPE_LEVEL"
  shows "\<exists>env'. let soc' = soc_clock_write soc (intr_addr i) v in
    esp32s3_clock_read (soc_clock soc') (intr_addr i') =
      (if i' = i then of_bool (bit v 0) else esp32s3_clock_read (soc_clock soc) (intr_addr i')) \<and>
    int_cpu (soc_intmatrix soc') c = Some env' \<and>
    bit (sregs env' INTSET) j = (if j = k then bit v 0 else bit (sregs env INTSET) j) \<and>
    (if bit v 0 \<and> bit (sregs env INTENABLE) k \<and> irq_minlevel env < int (interrupt_level esp32s3_config k)
     then interrupt_level esp32s3_config k \<le> pending_irq_level env' \<and>
       hd (calls env') = Cpu_interrupt CPU_INTERRUPT_HARD
     else True)"
proof -
  let ?env' = "xtensa_set_irq env k (bit v 0)"
  have cfg: "config env = esp32s3_config" using intmatrix_okE [OF assms(1,3)] assms(2) by auto
  have k: "k < 32" using assms(7) by (auto simp: is_extint_list)
  have "soc_intmatrix (soc_clock_write soc (intr_addr i) v) =
      esp32s3_intmatrix_irq_handler (soc_intmatrix soc) (79 + int i) (bit v 0)"
    using clock_write_intr [OF assms(4)] by (simp add: soc_clock_write_def deliver_def)
  then have cpu: "int_cpu (soc_intmatrix (soc_clock_write soc (intr_addr i) v)) c = Some ?env'"
    using handler_cpu [OF assms(1,3,2)] assms(6,7) by simp
  have rd: "esp32s3_clock_read (soc_clock (soc_clock_write soc (intr_addr i) v)) (intr_addr i') =
      (if i' = i then of_bool (bit v 0) else esp32s3_clock_read (soc_clock soc) (intr_addr i'))"
    using clock_write_intr [OF assms(4)] clock_read_intr [OF assms(5)] assms(4,5)
    by (auto simp: soc_clock_write_def bit_simps simp del: bit_0)
  have bits: "bit (sregs ?env' INTSET) j = (if j = k then bit v 0 else bit (sregs env INTSET) j)"
    using set_irq_bits [of env k "bit v 0" j] cfg k assms(8) by (auto simp: config_simps)
  show ?thesis
    unfolding Let_def
    by (rule exI [of _ ?env'], intro conjI cpu rd bits) (use set_irq_pending [OF cfg k] in auto)
qed

text \<open>The machine after both devices are realized, with source 79 of CPU 1 routed to interrupt 19.\<close>

theorem crosscore_interrupt_witness:
  "\<exists>soc env'. intmatrix_ok (soc_intmatrix soc) \<and>
    int_cpu (soc_intmatrix (soc_clock_write soc (intr_addr 0) 1)) 1 = Some env' \<and> bit (sregs env' INTSET) 19 \<and>
    esp32s3_clock_read (soc_clock (soc_clock_write soc (intr_addr 0) 1)) (intr_addr 0) = 1"
proof -
  let ?m = "esp32s3_intmatrix_write (esp32s3_intmatrix_realize new_intmatrix) (map_addr 1 79) 19"
  let ?c = "fst (esp32s3_clock_reset_hold
    \<lparr>cpuperconf = 0, sysclk = 0, levels = 0, app_cpu_addr = 0, sys_ext_dev_enc_dec_ctrl = 0\<rparr>)"
  let ?soc = "\<lparr>soc_clock = ?c, soc_intmatrix = ?m\<rparr>"
  have ok: "intmatrix_ok (soc_intmatrix ?soc)" by (simp add: frame_simps new_intmatrix_ok)
  obtain env where env: "int_cpu (soc_intmatrix ?soc) 1 = Some env" using intmatrix_okE [OF ok, of 1] by auto
  have k: "19 = unat (irq_map (soc_intmatrix ?soc) (int 1) (79 + int 0))"
    using write_irq_map [of 1 79] by simp
  have ext: "is_extint 19" "interrupt_inttype esp32s3_config 19 = INTTYPE_LEVEL"
    by (simp_all add: is_extint_list config_simps esp32s3_interrupt_inttype_def table_def)
  from crosscore_interrupt [OF ok env _ _ _ k ext, of 0 1 19]
  obtain env' where "int_cpu (soc_intmatrix (soc_clock_write ?soc (intr_addr 0) 1)) 1 = Some env'"
    "bit (sregs env' INTSET) 19"
    "esp32s3_clock_read (soc_clock (soc_clock_write ?soc (intr_addr 0) 1)) (intr_addr 0) = 1"
    by (auto simp: Let_def)
  with ok show ?thesis by blast
qed

end
