(* ===== verification/Cpu_Exclusive.thy ===== *)
theory Cpu_Exclusive
  imports Prelude
begin

text \<open>
  Exclusive sections, \<^verbatim>\<open>start_exclusive\<close>, \<^verbatim>\<open>end_exclusive\<close>,
  \<^verbatim>\<open>cpu_exec_start\<close> and \<^verbatim>\<open>cpu_exec_end\<close> of
  \<^verbatim>\<open>cpu-common.c\<close>. Every CPU of the list has a thread, and a thread inside one of
  the four functions is at a point of its body. A step performs one access to
  \<^verbatim>\<open>running\<close>, to \<^verbatim>\<open>pending_cpus\<close>, to the lock or to a condition
  variable; \<^verbatim>\<open>has_waiter\<close> is read and written under the lock only and
  \<^verbatim>\<open>exclusive_context_count\<close> only by its own thread, so they go with the next access. The barriers between
  the write of one of the two shared variables and the read of the other make the steps
  sequentially consistent.
\<close>

section \<open>State\<close>

datatype exec_start_pc = ES_check | ES_lock | ES_locked | ES_idle | ES_sleep | ES_woken | ES_run | ES_unlock

datatype exec_end_pc = EE_check | EE_lock | EE_locked | EE_unlock

datatype start_exclusive_pc =
  SX_lock | SX_idle | SX_sleep | SX_woken | SX_claim | SX_scan "nat list" int
| SX_test | SX_wait | SX_signalled | SX_unlock | SX_done

datatype end_exclusive_pc = XE_lock | XE_reset | XE_broadcast | XE_unlock

datatype thread_pc =
  Outside | In_exec_start exec_start_pc | Executing | In_exec_end exec_end_pc
| In_start_exclusive start_exclusive_pc | Exclusive | In_end_exclusive end_exclusive_pc

record cpus_state =
  qemu_cpu_list_lock :: "nat option"
  pending_cpus :: int
  running :: "nat \<Rightarrow> bool"
  has_waiter :: "nat \<Rightarrow> bool"
  exclusive_context_count :: "nat \<Rightarrow> nat"
  thread :: "nat \<Rightarrow> thread_pc"

definition init_cpus :: cpus_state where
  "init_cpus =
     \<lparr>qemu_cpu_list_lock = None, pending_cpus = 0, running = (\<lambda>_. False), has_waiter = (\<lambda>_. False),
      exclusive_context_count = (\<lambda>_. 0), thread = (\<lambda>_. Outside)\<rparr>"

section \<open>Mutex and condition variables\<close>

definition goto :: "nat \<Rightarrow> thread_pc \<Rightarrow> cpus_state \<Rightarrow> cpus_state" where
  "goto t pc s = s\<lparr>thread := (thread s)(t := pc)\<rparr>"

definition acquire :: "nat \<Rightarrow> thread_pc \<Rightarrow> cpus_state \<Rightarrow> cpus_state option" where
  "acquire t pc s =
     (if qemu_cpu_list_lock s = None then Some (goto t pc (s\<lparr>qemu_cpu_list_lock := Some t\<rparr>)) else None)"

definition release :: "nat \<Rightarrow> thread_pc \<Rightarrow> cpus_state \<Rightarrow> cpus_state" where
  "release t pc s = goto t pc (s\<lparr>qemu_cpu_list_lock := None\<rparr>)"

text \<open>
  A thread that waits on a condition variable sleeps without the lock, and takes the lock again
  once it is woken. At most one thread sleeps on \<^verbatim>\<open>exclusive_cond\<close>.
\<close>

fun woken_by_resume :: "thread_pc \<Rightarrow> thread_pc" where
  "woken_by_resume (In_exec_start ES_sleep) = In_exec_start ES_woken"
| "woken_by_resume (In_start_exclusive SX_sleep) = In_start_exclusive SX_woken"
| "woken_by_resume pc = pc"

fun woken_by_cond :: "thread_pc \<Rightarrow> thread_pc" where
  "woken_by_cond (In_start_exclusive SX_wait) = In_start_exclusive SX_signalled"
| "woken_by_cond pc = pc"

definition broadcast_exclusive_resume :: "cpus_state \<Rightarrow> cpus_state" where
  "broadcast_exclusive_resume s = s\<lparr>thread := (\<lambda>t. woken_by_resume (thread s t))\<rparr>"

definition signal_exclusive_cond :: "cpus_state \<Rightarrow> cpus_state" where
  "signal_exclusive_cond s = s\<lparr>thread := (\<lambda>t. woken_by_cond (thread s t))\<rparr>"

section \<open>The four functions\<close>

text \<open>Each function is the effect of its call, up to its first access, and the steps of its body.\<close>

definition cpu_exec_start :: "nat \<Rightarrow> cpus_state \<Rightarrow> cpus_state" where
  "cpu_exec_start t s = goto t (In_exec_start ES_check) (s\<lparr>running := (running s)(t := True)\<rparr>)"

fun cpu_exec_start_step :: "nat \<Rightarrow> exec_start_pc \<Rightarrow> cpus_state \<Rightarrow> cpus_state option" where
  "cpu_exec_start_step t ES_check s =
     Some (goto t (if pending_cpus s \<noteq> 0 then In_exec_start ES_lock else Executing) s)"
| "cpu_exec_start_step t ES_lock s = acquire t (In_exec_start ES_locked) s"
| "cpu_exec_start_step t ES_locked s =
     Some (if \<not> has_waiter s t then goto t (In_exec_start ES_idle) (s\<lparr>running := (running s)(t := False)\<rparr>)
           else release t Executing s)"
| "cpu_exec_start_step t ES_idle s =
     Some (if pending_cpus s \<noteq> 0 then release t (In_exec_start ES_sleep) s else goto t (In_exec_start ES_run) s)"
| "cpu_exec_start_step t ES_sleep s = None"
| "cpu_exec_start_step t ES_woken s = acquire t (In_exec_start ES_idle) s"
| "cpu_exec_start_step t ES_run s = Some (goto t (In_exec_start ES_unlock) (s\<lparr>running := (running s)(t := True)\<rparr>))"
| "cpu_exec_start_step t ES_unlock s = Some (release t Executing s)"

definition cpu_exec_end :: "nat \<Rightarrow> cpus_state \<Rightarrow> cpus_state" where
  "cpu_exec_end t s = goto t (In_exec_end EE_check) (s\<lparr>running := (running s)(t := False)\<rparr>)"

fun cpu_exec_end_step :: "nat \<Rightarrow> exec_end_pc \<Rightarrow> cpus_state \<Rightarrow> cpus_state option" where
  "cpu_exec_end_step t EE_check s =
     Some (goto t (if pending_cpus s \<noteq> 0 then In_exec_end EE_lock else Outside) s)"
| "cpu_exec_end_step t EE_lock s = acquire t (In_exec_end EE_locked) s"
| "cpu_exec_end_step t EE_locked s =
     Some (if has_waiter s t then
             let s = s\<lparr>has_waiter := (has_waiter s)(t := False), pending_cpus := pending_cpus s - 1\<rparr>;
                 s = (if pending_cpus s = 1 then signal_exclusive_cond s else s)
             in goto t (In_exec_end EE_unlock) s
           else goto t (In_exec_end EE_unlock) s)"
| "cpu_exec_end_step t EE_unlock s = Some (release t Outside s)"

text \<open>The result \<^const>\<open>None\<close> is a failed assertion.\<close>

definition start_exclusive :: "nat \<Rightarrow> cpus_state \<Rightarrow> cpus_state option" where
  "start_exclusive t s =
     (if running s t then None
      else if exclusive_context_count s t \<noteq> 0
      then Some (s\<lparr>exclusive_context_count :=
             (exclusive_context_count s)(t := exclusive_context_count s t + 1)\<rparr>)
      else Some (goto t (In_start_exclusive SX_lock) s))"

fun start_exclusive_step :: "nat list \<Rightarrow> nat \<Rightarrow> start_exclusive_pc \<Rightarrow> cpus_state \<Rightarrow> cpus_state option" where
  "start_exclusive_step cpus t SX_lock s = acquire t (In_start_exclusive SX_idle) s"
| "start_exclusive_step cpus t SX_idle s =
     Some (if pending_cpus s \<noteq> 0 then release t (In_start_exclusive SX_sleep) s
           else goto t (In_start_exclusive SX_claim) s)"
| "start_exclusive_step cpus t SX_sleep s = None"
| "start_exclusive_step cpus t SX_woken s = acquire t (In_start_exclusive SX_idle) s"
| "start_exclusive_step cpus t SX_claim s =
     Some (goto t (In_start_exclusive (SX_scan cpus 0)) (s\<lparr>pending_cpus := 1\<rparr>))"
| "start_exclusive_step cpus t (SX_scan (other_cpu # rest) running_cpus) s =
     Some (if running s other_cpu
           then goto t (In_start_exclusive (SX_scan rest (running_cpus + 1)))
                  (s\<lparr>has_waiter := (has_waiter s)(other_cpu := True)\<rparr>)
           else goto t (In_start_exclusive (SX_scan rest running_cpus)) s)"
| "start_exclusive_step cpus t (SX_scan [] running_cpus) s =
     Some (goto t (In_start_exclusive SX_test) (s\<lparr>pending_cpus := running_cpus + 1\<rparr>))"
| "start_exclusive_step cpus t SX_test s =
     Some (if pending_cpus s > 1 then release t (In_start_exclusive SX_wait) s
           else goto t (In_start_exclusive SX_unlock) s)"
| "start_exclusive_step cpus t SX_wait s = None"
| "start_exclusive_step cpus t SX_signalled s = acquire t (In_start_exclusive SX_test) s"
| "start_exclusive_step cpus t SX_unlock s = Some (release t (In_start_exclusive SX_done) s)"
| "start_exclusive_step cpus t SX_done s =
     Some (goto t Exclusive (s\<lparr>exclusive_context_count := (exclusive_context_count s)(t := 1)\<rparr>))"

definition end_exclusive :: "nat \<Rightarrow> cpus_state \<Rightarrow> cpus_state" where
  "end_exclusive t s =
     (let s = s\<lparr>exclusive_context_count :=
            (exclusive_context_count s)(t := exclusive_context_count s t - 1)\<rparr>
      in if exclusive_context_count s t \<noteq> 0 then s else goto t (In_end_exclusive XE_lock) s)"

fun end_exclusive_step :: "nat \<Rightarrow> end_exclusive_pc \<Rightarrow> cpus_state \<Rightarrow> cpus_state option" where
  "end_exclusive_step t XE_lock s = acquire t (In_end_exclusive XE_reset) s"
| "end_exclusive_step t XE_reset s = Some (goto t (In_end_exclusive XE_broadcast) (s\<lparr>pending_cpus := 0\<rparr>))"
| "end_exclusive_step t XE_broadcast s = Some (goto t (In_end_exclusive XE_unlock) (broadcast_exclusive_resume s))"
| "end_exclusive_step t XE_unlock s = Some (release t Outside s)"

text \<open>
  The next step of a thread inside one of the functions; \<^const>\<open>None\<close> when it is blocked, or
  outside of them.
\<close>

definition run_thread :: "nat list \<Rightarrow> nat \<Rightarrow> cpus_state \<Rightarrow> cpus_state option" where
  "run_thread cpus t s =
     (case thread s t of
        In_exec_start pc \<Rightarrow> cpu_exec_start_step t pc s
      | In_exec_end pc \<Rightarrow> cpu_exec_end_step t pc s
      | In_start_exclusive pc \<Rightarrow> start_exclusive_step cpus t pc s
      | In_end_exclusive pc \<Rightarrow> end_exclusive_step t pc s
      | _ \<Rightarrow> None)"

text \<open>
  Runs of the threads of a list of CPUs. A thread calls \<^verbatim>\<open>cpu_exec_start\<close> outside, and
  \<^verbatim>\<open>cpu_exec_end\<close> when it is done executing guest code; exclusive sections are entered
  outside of guest execution and nest. Condition variables may wake their threads spuriously.
\<close>

inductive cpus_run :: "nat list \<Rightarrow> cpus_state \<Rightarrow> bool" for cpus where
  boot: "cpus_run cpus init_cpus"
| run: "cpus_run cpus s \<Longrightarrow> t \<in> set cpus \<Longrightarrow> run_thread cpus t s = Some s' \<Longrightarrow> cpus_run cpus s'"
| exec_start: "cpus_run cpus s \<Longrightarrow> t \<in> set cpus \<Longrightarrow> thread s t = Outside \<Longrightarrow> cpus_run cpus (cpu_exec_start t s)"
| exec_end: "cpus_run cpus s \<Longrightarrow> t \<in> set cpus \<Longrightarrow> thread s t = Executing \<Longrightarrow> cpus_run cpus (cpu_exec_end t s)"
| excl_start: "cpus_run cpus s \<Longrightarrow> t \<in> set cpus \<Longrightarrow> thread s t = Outside \<or> thread s t = Exclusive \<Longrightarrow>
    start_exclusive t s = Some s' \<Longrightarrow> cpus_run cpus s'"
| excl_end: "cpus_run cpus s \<Longrightarrow> t \<in> set cpus \<Longrightarrow> thread s t = Exclusive \<Longrightarrow> cpus_run cpus (end_exclusive t s)"
| spurious_resume: "cpus_run cpus s \<Longrightarrow> t \<in> set cpus \<Longrightarrow> cpus_run cpus (goto t (woken_by_resume (thread s t)) s)"
| spurious_cond: "cpus_run cpus s \<Longrightarrow> t \<in> set cpus \<Longrightarrow> cpus_run cpus (goto t (woken_by_cond (thread s t)) s)"

section \<open>The invariant\<close>

text \<open>Points at which a thread holds the lock, and at which its CPU is marked as running.\<close>

fun locked :: "thread_pc \<Rightarrow> bool" where
  "locked (In_exec_start pc) \<longleftrightarrow> pc = ES_locked \<or> pc = ES_idle \<or> pc = ES_run \<or> pc = ES_unlock"
| "locked (In_exec_end pc) \<longleftrightarrow> pc = EE_locked \<or> pc = EE_unlock"
| "locked (In_start_exclusive pc) \<longleftrightarrow>
     (case pc of SX_idle \<Rightarrow> True | SX_claim \<Rightarrow> True | SX_scan _ _ \<Rightarrow> True | SX_test \<Rightarrow> True | SX_unlock \<Rightarrow> True | _ \<Rightarrow> False)"
| "locked (In_end_exclusive pc) \<longleftrightarrow> pc \<noteq> XE_lock"
| "locked _ \<longleftrightarrow> False"

fun marked_running :: "thread_pc \<Rightarrow> bool" where
  "marked_running (In_exec_start pc) \<longleftrightarrow> pc = ES_check \<or> pc = ES_lock \<or> pc = ES_locked \<or> pc = ES_unlock"
| "marked_running pc \<longleftrightarrow> pc = Executing"

text \<open>Points between the write of 1 and the write of 0 to \<^verbatim>\<open>pending_cpus\<close>.\<close>

fun claiming :: "thread_pc \<Rightarrow> bool" where
  "claiming (In_start_exclusive pc) \<longleftrightarrow>
     (case pc of SX_lock \<Rightarrow> False | SX_idle \<Rightarrow> False | SX_sleep \<Rightarrow> False | SX_woken \<Rightarrow> False | SX_claim \<Rightarrow> False | _ \<Rightarrow> True)"
| "claiming (In_end_exclusive pc) \<longleftrightarrow> pc = XE_lock \<or> pc = XE_reset"
| "claiming pc \<longleftrightarrow> pc = Exclusive"

text \<open>Points of a claiming thread after the last CPU has left guest execution.\<close>

fun alone :: "thread_pc \<Rightarrow> bool" where
  "alone (In_start_exclusive pc) \<longleftrightarrow> pc = SX_unlock \<or> pc = SX_done"
| "alone (In_end_exclusive pc) \<longleftrightarrow> pc = XE_lock \<or> pc = XE_reset"
| "alone pc \<longleftrightarrow> pc = Exclusive"

text \<open>Points of a CPU that has been counted by \<^verbatim>\<open>start_exclusive\<close> and will decrement the count.\<close>

fun counted :: "thread_pc \<Rightarrow> bool" where
  "counted (In_exec_start pc) \<longleftrightarrow> pc = ES_check \<or> pc = ES_lock \<or> pc = ES_locked \<or> pc = ES_unlock"
| "counted (In_exec_end pc) \<longleftrightarrow> pc \<noteq> EE_unlock"
| "counted pc \<longleftrightarrow> pc = Executing"

fun asleep :: "thread_pc \<Rightarrow> bool" where
  "asleep (In_exec_start pc) \<longleftrightarrow> pc = ES_sleep"
| "asleep (In_start_exclusive pc) \<longleftrightarrow> pc = SX_sleep"
| "asleep _ \<longleftrightarrow> False"

definition waiters :: "nat list \<Rightarrow> cpus_state \<Rightarrow> nat set" where
  "waiters cpus s = {c \<in> set cpus. has_waiter s c}"

text \<open>What a claiming thread knows: while it scans, of the CPUs it has passed; then, of all of them.\<close>

fun passed :: "thread_pc \<Rightarrow> bool" where
  "passed (In_exec_start pc) \<longleftrightarrow> pc = ES_run \<or> pc = ES_unlock"
| "passed pc \<longleftrightarrow> pc = Executing"

definition stopped :: "cpus_state \<Rightarrow> nat list \<Rightarrow> bool" where
  "stopped s cs \<longleftrightarrow> (\<forall>c \<in> set cs. has_waiter s c \<or> \<not> passed (thread s c))"

definition settled :: "nat list \<Rightarrow> cpus_state \<Rightarrow> thread_pc \<Rightarrow> bool" where
  "settled cpus s pc \<longleftrightarrow>
     pending_cpus s = 1 + int (card (waiters cpus s)) \<and> stopped s cpus \<and>
     (if alone pc then pending_cpus s = 1 else True) \<and>
     (if pc = In_start_exclusive SX_wait then pending_cpus s > 1 else True)"

fun claim_ok :: "nat list \<Rightarrow> cpus_state \<Rightarrow> thread_pc \<Rightarrow> bool" where
  "claim_ok cpus s (In_start_exclusive (SX_scan rest n)) \<longleftrightarrow>
     pending_cpus s = 1 \<and> n = int (card (waiters cpus s)) \<and>
     (\<exists>done. cpus = done @ rest \<and> waiters cpus s \<subseteq> set done \<and> stopped s done)"
| "claim_ok cpus s pc \<longleftrightarrow> settled cpus s pc"

definition threads_ok :: "nat list \<Rightarrow> cpus_state \<Rightarrow> bool" where
  "threads_ok cpus s \<longleftrightarrow>
     (\<forall>t \<in> set cpus.
        (qemu_cpu_list_lock s = Some t \<longleftrightarrow> locked (thread s t)) \<and>
        (running s t \<longleftrightarrow> marked_running (thread s t)) \<and>
        (exclusive_context_count s t \<noteq> 0 \<longleftrightarrow> thread s t = Exclusive) \<and>
        (has_waiter s t \<longrightarrow> counted (thread s t)))"

definition claims_ok :: "nat list \<Rightarrow> cpus_state \<Rightarrow> bool" where
  "claims_ok cpus s \<longleftrightarrow>
     (\<forall>t \<in> set cpus. \<forall>u \<in> set cpus. claiming (thread s t) \<longrightarrow> claiming (thread s u) \<longrightarrow> t = u) \<and>
     (pending_cpus s = 0 \<longleftrightarrow> (\<forall>t \<in> set cpus. \<not> claiming (thread s t))) \<and>
     (pending_cpus s = 0 \<longrightarrow> waiters cpus s = {}) \<and>
     (\<forall>t \<in> set cpus. thread s t = In_start_exclusive SX_claim \<longrightarrow> pending_cpus s = 0) \<and>
     (\<forall>t \<in> set cpus. claiming (thread s t) \<longrightarrow> claim_ok cpus s (thread s t))"

definition sleep_ok :: "nat list \<Rightarrow> cpus_state \<Rightarrow> bool" where
  "sleep_ok cpus s \<longleftrightarrow>
     (\<forall>t \<in> set cpus. asleep (thread s t) \<longrightarrow>
        pending_cpus s \<noteq> 0 \<or> (\<exists>u \<in> set cpus. thread s u = In_end_exclusive XE_broadcast))"

definition cpus_inv :: "nat list \<Rightarrow> cpus_state \<Rightarrow> bool" where
  "cpus_inv cpus s \<longleftrightarrow>
     threads_ok cpus s \<and> claims_ok cpus s \<and> sleep_ok cpus s \<and>
     (\<forall>l. qemu_cpu_list_lock s = Some l \<longrightarrow> l \<in> set cpus)"

lemma claims_okI:
  assumes "\<And>t u. t \<in> set cpus \<Longrightarrow> u \<in> set cpus \<Longrightarrow> claiming (thread s t) \<Longrightarrow> claiming (thread s u) \<Longrightarrow> t = u"
    "pending_cpus s = 0 \<longleftrightarrow> (\<forall>t \<in> set cpus. \<not> claiming (thread s t))"
    "pending_cpus s = 0 \<Longrightarrow> waiters cpus s = {}"
    "\<And>t. t \<in> set cpus \<Longrightarrow> thread s t = In_start_exclusive SX_claim \<Longrightarrow> pending_cpus s = 0"
    "\<And>t. t \<in> set cpus \<Longrightarrow> claiming (thread s t) \<Longrightarrow> claim_ok cpus s (thread s t)"
  shows "claims_ok cpus s"
  using assms unfolding claims_ok_def by blast

section \<open>Steps that keep the claim\<close>

lemma claim_ok_settled:
  assumes "\<nexists>rest n. pc = In_start_exclusive (SX_scan rest n)"
  shows "claim_ok cpus s pc \<longleftrightarrow> settled cpus s pc"
  using assms by (cases "(cpus, s, pc)" rule: claim_ok.cases) auto

lemma claim_ok_mono:
  assumes "claim_ok cpus s pc" "pending_cpus s' = pending_cpus s" "has_waiter s' = has_waiter s"
    and pass: "\<And>c. c \<in> set cpus \<Longrightarrow> passed (thread s' c) \<Longrightarrow> passed (thread s c) \<or> has_waiter s c"
  shows "claim_ok cpus s' pc"
proof -
  have w: "waiters cpus s' = waiters cpus s" using assms(3) by (simp add: waiters_def)
  have st: "stopped s' cs" if "stopped s cs" "set cs \<subseteq> set cpus" for cs
    using that assms(3) pass by (fastforce simp: stopped_def)
  show ?thesis
  proof (cases "\<exists>rest n. pc = In_start_exclusive (SX_scan rest n)")
    case True
    then obtain rest n where pc: "pc = In_start_exclusive (SX_scan rest n)" by blast
    with assms(1) obtain "done" where "cpus = done @ rest" "waiters cpus s \<subseteq> set done" "stopped s done" by auto
    with st [of "done"] assms(1,2) w pc show ?thesis by auto
  next
    case False
    with assms(1,2) w st [of cpus] show ?thesis
      by (auto simp: claim_ok_settled settled_def split: if_splits)
  qed
qed

lemma lock_unique:
  assumes "threads_ok cpus s" "t \<in> set cpus" "u \<in> set cpus" "locked (thread s t)" "locked (thread s u)"
  shows "t = u"
  using assms by (metis option.inject threads_ok_def)

text \<open>
  A step of thread \<open>t\<close> to \<open>pc\<close> that touches only the lock, its own mark and its own count, and neither
  begins nor ends a claim.
\<close>

lemma local_step:
  assumes inv: "cpus_inv cpus s" and t: "t \<in> set cpus"
    and lk: "if locked pc then l = Some t \<and> (qemu_cpu_list_lock s = None \<or> qemu_cpu_list_lock s = Some t)
       else if locked (thread s t) then l = None else l = qemu_cpu_list_lock s"
    and claim: "claiming pc \<longleftrightarrow> claiming (thread s t)" "claiming pc \<Longrightarrow> claim_ok cpus s pc"
    and pass: "passed pc \<Longrightarrow> passed (thread s t) \<or> has_waiter s t \<or> pending_cpus s = 0"
    and cnt: "has_waiter s t \<Longrightarrow> counted pc"
    and k: "k \<noteq> 0 \<longleftrightarrow> pc = Exclusive"
    and sleep: "asleep pc \<Longrightarrow> pending_cpus s \<noteq> 0" "thread s t = In_end_exclusive XE_broadcast \<Longrightarrow> (\<forall>u. \<not> asleep (thread s u))"
    and free: "pc = In_start_exclusive SX_claim \<Longrightarrow> pending_cpus s = 0"
  shows "cpus_inv cpus (s\<lparr>qemu_cpu_list_lock := l, running := (running s)(t := marked_running pc),
    exclusive_context_count := (exclusive_context_count s)(t := k), thread := (thread s)(t := pc)\<rparr>)"
    (is "cpus_inv cpus ?s'")
proof -
  have th: "threads_ok cpus s" "claims_ok cpus s" "sleep_ok cpus s"
    and mem: "\<And>l. qemu_cpu_list_lock s = Some l \<Longrightarrow> l \<in> set cpus"
    using inv by (simp_all add: cpus_inv_def)
  have uniq: "u = t" if "u \<in> set cpus" "locked (thread s u)" "locked (thread s t)" for u
    using lock_unique [OF th(1) that(1) t that(2,3)] .
  have "threads_ok cpus ?s'"
    unfolding threads_ok_def
  proof (intro ballI)
    fix u assume u: "u \<in> set cpus"
    have ou: "(qemu_cpu_list_lock s = Some u \<longleftrightarrow> locked (thread s u)) \<and>
        (running s u \<longleftrightarrow> marked_running (thread s u)) \<and>
        (exclusive_context_count s u \<noteq> 0 \<longleftrightarrow> thread s u = Exclusive) \<and> (has_waiter s u \<longrightarrow> counted (thread s u))"
      using th(1) u by (simp add: threads_ok_def)
    have ot: "qemu_cpu_list_lock s = Some t \<longleftrightarrow> locked (thread s t)" using th(1) t by (simp add: threads_ok_def)
    show "(qemu_cpu_list_lock ?s' = Some u \<longleftrightarrow> locked (thread ?s' u)) \<and>
        (running ?s' u \<longleftrightarrow> marked_running (thread ?s' u)) \<and>
        (exclusive_context_count ?s' u \<noteq> 0 \<longleftrightarrow> thread ?s' u = Exclusive) \<and>
        (has_waiter ?s' u \<longrightarrow> counted (thread ?s' u))"
    proof (cases "u = t")
      case True
      with lk ot cnt k show ?thesis by (auto split: if_splits)
    next
      case False
      with lk ot ou uniq [OF u] show ?thesis by (auto split: if_splits)
    qed
  qed
  moreover have "claims_ok cpus ?s'"
  proof -
    have w: "waiters cpus ?s' = waiters cpus s" by (simp add: waiters_def)
    have cl: "claiming (thread ?s' u) = claiming (thread s u)" for u using claim(1) by simp
    have pend: "pending_cpus s = 0 \<longleftrightarrow> (\<forall>t \<in> set cpus. \<not> claiming (thread s t))"
      using th(2) by (simp add: claims_ok_def)
    have "claim_ok cpus ?s' (thread ?s' u)" if u: "u \<in> set cpus" "claiming (thread ?s' u)" for u
    proof (rule claim_ok_mono [of _ s])
      have nz: "pending_cpus s \<noteq> 0" using pend u cl by blast
      show "passed (thread s c) \<or> has_waiter s c" if "passed (thread ?s' c)" for c
        using that pass nz by (cases "c = t") auto
      show "claim_ok cpus s (thread ?s' u)"
        using th(2) u cl claim(2) by (cases "u = t") (auto simp: claims_ok_def)
    qed simp_all
    moreover have "pending_cpus s = 0" if "u \<in> set cpus" "thread ?s' u = In_start_exclusive SX_claim" for u
      using that th(2) free by (cases "u = t") (auto simp: claims_ok_def)
    moreover have old: "a = b" if "a \<in> set cpus" "b \<in> set cpus" "claiming (thread s a)" "claiming (thread s b)" for a b
      using th(2) that unfolding claims_ok_def by blast
    moreover have "waiters cpus s = {}" if "pending_cpus s = 0" using th(2) that unfolding claims_ok_def by blast
    ultimately show ?thesis
      using pend by (intro claims_okI; (unfold cl w)?; simp?)
  qed
  moreover have "sleep_ok cpus ?s'"
    unfolding sleep_ok_def
  proof (intro ballI impI)
    fix u assume u: "u \<in> set cpus" "asleep (thread ?s' u)"
    show "pending_cpus ?s' \<noteq> 0 \<or> (\<exists>u\<in>set cpus. thread ?s' u = In_end_exclusive XE_broadcast)"
    proof (cases "u = t")
      case False
      with u th(3) obtain v where "pending_cpus s \<noteq> 0 \<or> v \<in> set cpus \<and> thread s v = In_end_exclusive XE_broadcast"
        by (auto simp: sleep_ok_def)
      with sleep(2) u False show ?thesis by (cases "v = t") auto
    qed (use u sleep(1) in simp)
  qed
  moreover have "l' \<in> set cpus" if "qemu_cpu_list_lock ?s' = Some l'" for l'
    using that lk mem t by (auto split: if_splits)
  ultimately show ?thesis by (simp add: cpus_inv_def)
qed

text \<open>The same for a step given by its result, and the facts of a thread that the cases use.\<close>

lemma local_result:
  assumes inv: "cpus_inv cpus s" and t: "t \<in> set cpus"
    and s': "qemu_cpu_list_lock s' = l" "pending_cpus s' = pending_cpus s" "has_waiter s' = has_waiter s"
      "running s' = (running s)(t := marked_running pc)" "thread s' = (thread s)(t := pc)"
      "exclusive_context_count s' = (exclusive_context_count s)(t := k)"
    and lk: "if locked pc then l = Some t \<and> (qemu_cpu_list_lock s = None \<or> qemu_cpu_list_lock s = Some t)
       else if locked (thread s t) then l = None else l = qemu_cpu_list_lock s"
    and claim: "claiming pc \<longleftrightarrow> claiming (thread s t)" "claiming pc \<Longrightarrow> claim_ok cpus s pc"
    and pass: "passed pc \<Longrightarrow> passed (thread s t) \<or> has_waiter s t \<or> pending_cpus s = 0"
    and cnt: "has_waiter s t \<Longrightarrow> counted pc"
    and k: "k \<noteq> 0 \<longleftrightarrow> pc = Exclusive"
    and sleep: "asleep pc \<Longrightarrow> pending_cpus s \<noteq> 0" "thread s t = In_end_exclusive XE_broadcast \<Longrightarrow> (\<forall>u. \<not> asleep (thread s u))"
    and free: "pc = In_start_exclusive SX_claim \<Longrightarrow> pending_cpus s = 0"
  shows "cpus_inv cpus s'"
proof -
  have "s' = s\<lparr>qemu_cpu_list_lock := l, running := (running s)(t := marked_running pc),
      exclusive_context_count := (exclusive_context_count s)(t := k), thread := (thread s)(t := pc)\<rparr>"
    using s' by simp
  then show ?thesis
    by (simp only:) (rule local_step [OF inv t lk claim(1)]; (erule claim(2) pass cnt sleep free | rule k))
qed

lemma eq_fun_upd [simp]: "f = f(x := y) \<longleftrightarrow> f x = y"
  by (metis fun_upd_idem_iff)

lemma thread_facts:
  assumes "cpus_inv cpus s" "t \<in> set cpus"
  shows "qemu_cpu_list_lock s = Some t \<longleftrightarrow> locked (thread s t)"
    "running s t \<longleftrightarrow> marked_running (thread s t)"
    "0 < exclusive_context_count s t \<longleftrightarrow> thread s t = Exclusive"
    "has_waiter s t \<Longrightarrow> counted (thread s t)"
    "claiming (thread s t) \<Longrightarrow> claim_ok cpus s (thread s t)"
    "claiming (thread s t) \<Longrightarrow> pending_cpus s \<noteq> 0"
    "thread s t = In_start_exclusive SX_claim \<Longrightarrow> pending_cpus s = 0"
    "has_waiter s t \<Longrightarrow> pending_cpus s \<noteq> 0"
proof -
  have th: "threads_ok cpus s" and cl: "claims_ok cpus s" using assms(1) by (simp_all add: cpus_inv_def)
  from th assms(2) show "qemu_cpu_list_lock s = Some t \<longleftrightarrow> locked (thread s t)"
    "running s t \<longleftrightarrow> marked_running (thread s t)"
    "0 < exclusive_context_count s t \<longleftrightarrow> thread s t = Exclusive"
    "has_waiter s t \<Longrightarrow> counted (thread s t)"
    by (simp_all add: threads_ok_def)
  from cl assms(2) show "claiming (thread s t) \<Longrightarrow> claim_ok cpus s (thread s t)"
    "claiming (thread s t) \<Longrightarrow> pending_cpus s \<noteq> 0"
    "thread s t = In_start_exclusive SX_claim \<Longrightarrow> pending_cpus s = 0"
    unfolding claims_ok_def by blast+
  from cl assms(2) show "has_waiter s t \<Longrightarrow> pending_cpus s \<noteq> 0"
    unfolding claims_ok_def waiters_def by blast
qed

lemmas step_defs = goto_def release_def acquire_def

lemma exec_start_step_inv:
  assumes inv: "cpus_inv cpus s" and t: "t \<in> set cpus" and pc: "thread s t = In_exec_start pc"
    and step: "cpu_exec_start_step t pc s = Some s'"
  shows "cpus_inv cpus s'"
  using step thread_facts [OF inv t]
  by (cases pc)
    (rule local_result [where l = "qemu_cpu_list_lock s'" and pc = "thread s' t" and k = "exclusive_context_count s t", OF inv t];
     auto simp: pc step_defs split: if_splits)+

lemma exec_start_inv:
  assumes inv: "cpus_inv cpus s" and t: "t \<in> set cpus" and pc: "thread s t = Outside"
  shows "cpus_inv cpus (cpu_exec_start t s)"
  using thread_facts [OF inv t]
  by (intro local_result [where l = "qemu_cpu_list_lock s" and pc = "In_exec_start ES_check" and k = 0, OF inv t])
    (auto simp: pc step_defs cpu_exec_start_def)

lemma exec_end_inv:
  assumes inv: "cpus_inv cpus s" and t: "t \<in> set cpus" and pc: "thread s t = Executing"
  shows "cpus_inv cpus (cpu_exec_end t s)"
  using thread_facts [OF inv t]
  by (intro local_result [where l = "qemu_cpu_list_lock s" and pc = "In_exec_end EE_check" and k = 0, OF inv t])
    (auto simp: pc step_defs cpu_exec_end_def)

lemma end_exclusive_inv:
  assumes inv: "cpus_inv cpus s" and t: "t \<in> set cpus" and pc: "thread s t = Exclusive"
  shows "cpus_inv cpus (end_exclusive t s)"
proof (cases "exclusive_context_count s t = 1")
  case True
  with thread_facts [OF inv t] show ?thesis
    by (intro local_result [where l = "qemu_cpu_list_lock s" and pc = "In_end_exclusive XE_lock" and k = 0, OF inv t])
      (auto simp: pc step_defs end_exclusive_def settled_def)
next
  case False
  with thread_facts [OF inv t] show ?thesis
    by (intro local_result [where l = "qemu_cpu_list_lock s" and pc = Exclusive and k = "exclusive_context_count s t - 1", OF inv t])
      (auto simp: pc step_defs end_exclusive_def)
qed

lemma start_exclusive_inv:
  assumes inv: "cpus_inv cpus s" and t: "t \<in> set cpus" and pc: "thread s t = Outside \<or> thread s t = Exclusive"
    and step: "start_exclusive t s = Some s'"
  shows "cpus_inv cpus s'"
proof (cases "exclusive_context_count s t = 0")
  case True
  with thread_facts [OF inv t] pc step show ?thesis
    by (intro local_result [where l = "qemu_cpu_list_lock s" and pc = "In_start_exclusive SX_lock" and k = 0, OF inv t])
      (auto simp: step_defs start_exclusive_def split: if_splits)
next
  case False
  with thread_facts [OF inv t] pc step show ?thesis
    by (intro local_result [where l = "qemu_cpu_list_lock s" and pc = Exclusive and k = "exclusive_context_count s t + 1", OF inv t])
      (auto simp: step_defs start_exclusive_def split: if_splits)
qed

section \<open>Steps that change the claim\<close>

text \<open>
  A thread that holds the lock moves to another point at which it holds the lock, and changes
  the count of pending CPUs or their marks. The threads keep their part of the invariant.
\<close>

lemma threads_ok_locked:
  assumes "threads_ok cpus s" "t \<in> set cpus" "locked (thread s t)" "locked pc"
    "marked_running pc = marked_running (thread s t)" "pc \<noteq> Exclusive" "thread s t \<noteq> Exclusive"
    "qemu_cpu_list_lock s' = qemu_cpu_list_lock s" "running s' = running s"
    "exclusive_context_count s' = exclusive_context_count s" "thread s' = (thread s)(t := pc)"
    "\<And>u. u \<in> set cpus \<Longrightarrow> has_waiter s' u \<Longrightarrow> counted (thread s' u)"
  shows "threads_ok cpus s'"
  using assms by (auto simp: threads_ok_def)

lemma locked_elsewhere:
  assumes "cpus_inv cpus s" "t \<in> set cpus" "locked (thread s t)" "u \<in> set cpus" "u \<noteq> t"
  shows "\<not> locked (thread s u)"
  using assms lock_unique [of cpus s t u] by (auto simp: cpus_inv_def)

lemma claimer_unique:
  assumes "cpus_inv cpus s" "t \<in> set cpus" "claiming (thread s t)" "u \<in> set cpus" "u \<noteq> t"
  shows "\<not> claiming (thread s u)"
  using assms unfolding cpus_inv_def claims_ok_def by blast

lemma sleep_ok_pending: "pending_cpus s \<noteq> 0 \<Longrightarrow> sleep_ok cpus s"
  by (simp add: sleep_ok_def)

text \<open>The thread \<open>t\<close> is the only claiming thread after the step.\<close>

lemma claim_step:
  assumes inv: "cpus_inv cpus s" and t: "t \<in> set cpus" "locked (thread s t)" "locked pc"
    and pc: "claiming pc" "thread s t \<noteq> Exclusive" "pc \<noteq> Exclusive" "\<not> marked_running (thread s t)"
    and others: "\<And>u. u \<in> set cpus \<Longrightarrow> u \<noteq> t \<Longrightarrow> \<not> claiming (thread s u)"
    and s': "qemu_cpu_list_lock s' = qemu_cpu_list_lock s" "running s' = running s"
      "exclusive_context_count s' = exclusive_context_count s" "thread s' = (thread s)(t := pc)"
    and wait: "\<And>u. u \<in> set cpus \<Longrightarrow> has_waiter s' u \<Longrightarrow> counted (thread s' u)"
    and ok: "claim_ok cpus s' pc" "pending_cpus s' \<noteq> 0"
  shows "cpus_inv cpus s'"
proof -
  have mr: "\<not> marked_running pc" using pc(1) by (cases pc) auto
  have th: "threads_ok cpus s" using inv by (simp add: cpus_inv_def)
  have "threads_ok cpus s'"
    by (rule threads_ok_locked [OF th t _ pc(3) pc(2) s' wait]) (use mr pc(4) in auto)
  moreover have "claims_ok cpus s'"
  proof -
    have "\<not> claiming (thread s' u)" if "u \<in> set cpus" "u \<noteq> t" for u using others that s'(4) by simp
    moreover have "thread s' u \<noteq> In_start_exclusive SX_claim" if "u \<in> set cpus" for u
      using locked_elsewhere [OF inv t(1,2) that] pc(1) s'(4) by (cases "u = t") auto
    moreover have "thread s' t = pc" using s'(4) by simp
    ultimately show ?thesis using ok pc(1) t(1) by (intro claims_okI) metis+
  qed
  moreover have "sleep_ok cpus s'" using ok(2) by (rule sleep_ok_pending)
  moreover have "\<forall>l. qemu_cpu_list_lock s' = Some l \<longrightarrow> l \<in> set cpus"
    using inv s'(1) by (simp add: cpus_inv_def)
  ultimately show ?thesis by (simp add: cpus_inv_def)
qed

lemma no_claim:
  assumes "cpus_inv cpus s" "pending_cpus s = 0" "u \<in> set cpus"
  shows "\<not> claiming (thread s u)" "\<not> has_waiter s u"
  using thread_facts [OF assms(1,3)] assms(2) by auto

lemma claim_inv:
  assumes inv: "cpus_inv cpus s" and t: "t \<in> set cpus" and pc: "thread s t = In_start_exclusive SX_claim"
  shows "cpus_inv cpus (goto t (In_start_exclusive (SX_scan cpus 0)) (s\<lparr>pending_cpus := 1\<rparr>))" (is "cpus_inv cpus ?s'")
proof -
  have p0: "pending_cpus s = 0" using thread_facts [OF inv t] pc by simp
  have none: "\<not> claiming (thread s u)" "\<not> has_waiter s u" if "u \<in> set cpus" for u
    using no_claim [OF inv p0 that] .
  have w: "waiters cpus ?s' = {}" using none by (auto simp: waiters_def goto_def)
  show ?thesis
  proof (rule claim_step [OF inv t])
    show "claim_ok cpus ?s' (In_start_exclusive (SX_scan cpus 0))"
      using w by (simp add: goto_def) (simp add: stopped_def)
  qed (use pc none in \<open>auto simp: goto_def\<close>)
qed

lemma scan_inv:
  assumes inv: "cpus_inv cpus s" and t: "t \<in> set cpus" and pc: "thread s t = In_start_exclusive (SX_scan (c # rest) n)"
    and dist: "distinct cpus"
    and step: "start_exclusive_step cpus t (SX_scan (c # rest) n) s = Some s'"
  shows "cpus_inv cpus s'"
proof -
  have ok: "claim_ok cpus s (In_start_exclusive (SX_scan (c # rest) n))" using thread_facts [OF inv t] pc by simp
  then obtain "done" where d: "cpus = done @ c # rest" "waiters cpus s \<subseteq> set done" "stopped s done"
    and p1: "pending_cpus s = 1" and n: "n = int (card (waiters cpus s))" by auto
  have c: "c \<in> set cpus" "c \<notin> set done" using d(1) dist by auto
  have tl: "locked (thread s t)" using pc by simp
  have others: "\<not> claiming (thread s u)" if "u \<in> set cpus" "u \<noteq> t" for u
    using claimer_unique [OF inv t _ that] pc by simp
  have d': "cpus = (done @ [c]) @ rest" using d(1) by simp
  show ?thesis
  proof (cases "running s c")
    case True
    let ?pc = "In_start_exclusive (SX_scan rest (n + 1))"
    have s': "s' = goto t ?pc (s\<lparr>has_waiter := (has_waiter s)(c := True)\<rparr>)" using step True by simp
    have ct: "c \<noteq> t" using True thread_facts [OF inv t] pc by auto
    have cc: "counted (thread s c)" using True thread_facts [OF inv c(1)] by (cases "thread s c") auto
    have w: "waiters cpus s' = insert c (waiters cpus s)" using c(1) by (auto simp: s' goto_def waiters_def)
    have "c \<notin> waiters cpus s" using d(2) c(2) by blast
    then have card: "card (waiters cpus s') = Suc (card (waiters cpus s))"
      using w by (simp add: waiters_def)
    have st: "stopped s' (done @ [c])" using d(3) pc by (auto simp: stopped_def s' goto_def)
    show ?thesis
    proof (rule claim_step [OF inv t tl, of ?pc])
      show "claim_ok cpus s' ?pc"
        using card n p1 d' w d(2) st by (auto simp: s' goto_def intro!: exI [of _ "done @ [c]"])
      show "counted (thread s' u)" if "u \<in> set cpus" "has_waiter s' u" for u
        using that thread_facts(4) [OF inv that(1)] cc ct pc by (auto simp: s' goto_def split: if_splits)
    qed (use pc others p1 in \<open>auto simp: s' goto_def\<close>)
  next
    case False
    let ?pc = "In_start_exclusive (SX_scan rest n)"
    have s': "s' = goto t ?pc s" using step False by simp
    have w: "waiters cpus s' = waiters cpus s" by (auto simp: s' goto_def waiters_def)
    have "\<not> passed (thread s' c)"
      using False thread_facts(2) [OF inv c(1)] locked_elsewhere [OF inv t tl c(1)]
      by (cases "c = t"; cases "thread s c") (auto simp: s' goto_def)
    then have st: "stopped s' (done @ [c])" using d(3) pc by (auto simp: stopped_def s' goto_def)
    show ?thesis
    proof (rule claim_step [OF inv t tl, of ?pc])
      show "claim_ok cpus s' ?pc"
        using n p1 d' w d(2) st by (auto simp: s' goto_def intro!: exI [of _ "done @ [c]"])
      show "counted (thread s' u)" if "u \<in> set cpus" "has_waiter s' u" for u
        using that thread_facts(4) [OF inv that(1)] pc by (auto simp: s' goto_def split: if_splits)
    qed (use pc others p1 in \<open>auto simp: s' goto_def\<close>)
  qed
qed

lemma scan_end_inv:
  assumes inv: "cpus_inv cpus s" and t: "t \<in> set cpus" and pc: "thread s t = In_start_exclusive (SX_scan [] n)"
  shows "cpus_inv cpus (goto t (In_start_exclusive SX_test) (s\<lparr>pending_cpus := n + 1\<rparr>))" (is "cpus_inv cpus ?s'")
proof -
  have ok: "claim_ok cpus s (In_start_exclusive (SX_scan [] n))" using thread_facts [OF inv t] pc by simp
  then have n: "n = int (card (waiters cpus s))" and st: "stopped s cpus" by auto
  have w: "waiters cpus ?s' = waiters cpus s" by (simp add: waiters_def goto_def)
  have st': "stopped ?s' cpus" using st by (auto simp: stopped_def goto_def)
  show ?thesis
  proof (rule claim_step [OF inv t, of "In_start_exclusive SX_test"])
    show "claim_ok cpus ?s' (In_start_exclusive SX_test)"
      using n w st' by (simp add: settled_def) (simp add: goto_def)
    show "counted (thread ?s' u)" if "u \<in> set cpus" "has_waiter ?s' u" for u
      using that thread_facts(4) [OF inv that(1)] pc by (auto simp: goto_def)
  qed (use pc claimer_unique [OF inv t] n in \<open>auto simp: goto_def\<close>)
qed

lemma start_exclusive_step_inv:
  assumes inv: "cpus_inv cpus s" and t: "t \<in> set cpus" and pc: "thread s t = In_start_exclusive pc"
    and dist: "distinct cpus" and step: "start_exclusive_step cpus t pc s = Some s'"
  shows "cpus_inv cpus s'"
proof -
  have local: "cpus_inv cpus s'" if "pc \<in> {SX_lock, SX_idle, SX_sleep, SX_woken, SX_test, SX_wait, SX_signalled, SX_unlock}"
    using that step thread_facts [OF inv t]
    by (intro local_result [where l = "qemu_cpu_list_lock s'" and pc = "thread s' t" and
          k = "exclusive_context_count s t", OF inv t])
      (auto simp: pc step_defs settled_def split: if_splits)
  show ?thesis
  proof (cases pc)
    case SX_claim
    with claim_inv [OF inv t] pc step show ?thesis by simp
  next
    case (SX_scan cs n)
    with scan_inv [OF inv t _ dist] scan_end_inv [OF inv t] pc step show ?thesis by (cases cs) auto
  next
    case SX_done
    with step thread_facts [OF inv t] show ?thesis
      by (intro local_result [where l = "qemu_cpu_list_lock s'" and pc = Exclusive and k = 1, OF inv t])
        (auto simp: pc step_defs settled_def split: if_splits)
  qed (rule local, simp)+
qed

text \<open>
  A counted CPU leaves guest execution, and wakes the thread that waits for it when it is the
  last one. Waking moves a thread between points of the same kind.
\<close>

lemma woken_by_cond_same [simp]:
  "locked (woken_by_cond p) = locked p" "marked_running (woken_by_cond p) = marked_running p"
  "claiming (woken_by_cond p) = claiming p" "counted (woken_by_cond p) = counted p"
  "passed (woken_by_cond p) = passed p" "alone (woken_by_cond p) = alone p"
  "(woken_by_cond p = Exclusive) = (p = Exclusive)"
  "(woken_by_cond p = In_start_exclusive SX_claim) = (p = In_start_exclusive SX_claim)"
  "woken_by_cond p \<noteq> In_start_exclusive SX_wait"
  "(woken_by_cond p = In_start_exclusive (SX_scan rest n)) = (p = In_start_exclusive (SX_scan rest n))"
  by (cases p rule: woken_by_cond.cases; simp)+

lemma leave_fields:
  assumes "has_waiter s t" "cpu_exec_end_step t EE_locked s = Some s'"
  shows "qemu_cpu_list_lock s' = qemu_cpu_list_lock s" "running s' = running s"
    "exclusive_context_count s' = exclusive_context_count s" "has_waiter s' = (has_waiter s)(t := False)"
    "pending_cpus s' = pending_cpus s - 1"
    "thread s' v = (if v = t then In_exec_end EE_unlock
       else if pending_cpus s' = 1 then woken_by_cond (thread s v) else thread s v)"
  using assms by (auto simp: goto_def signal_exclusive_cond_def Let_def split: if_splits)

lemma leave_settled:
  assumes t: "t \<in> set cpus" "has_waiter s t" "\<not> passed (thread s t)"
    and step: "cpu_exec_end_step t EE_locked s = Some s'"
    and u: "u \<noteq> t" "settled cpus s (thread s u)"
  shows "settled cpus s' (thread s' u) \<and> pending_cpus s' > 0"
proof -
  note f = leave_fields [OF t(2) step]
  have pend: "pending_cpus s = 1 + int (card (waiters cpus s))" using u(2) by (simp add: settled_def)
  have fin: "finite (waiters cpus s)" and tw: "t \<in> waiters cpus s" using t by (simp_all add: waiters_def)
  then have pos: "card (waiters cpus s) > 0" by (auto simp: card_gt_0_iff)
  have w: "waiters cpus s' = waiters cpus s - {t}" by (auto simp: waiters_def f(4))
  have card: "int (card (waiters cpus s')) = int (card (waiters cpus s)) - 1"
    using w tw fin pos by (simp add: card_Diff_singleton)
  have "has_waiter s' c \<or> \<not> passed (thread s' c)" if "c \<in> set cpus" for c
    using u(2) that t(3) f(6) [of c] by (auto simp: settled_def stopped_def f(4))
  then have "stopped s' cpus" by (simp add: stopped_def)
  moreover have "\<not> alone (thread s' u)" using u pend pos f(6) [of u] by (auto simp: settled_def)
  moreover have "thread s' u \<noteq> In_start_exclusive SX_wait \<or> pending_cpus s' > 1"
    using f(5) f(6) [of u] u(1) pend pos by auto
  ultimately show ?thesis using card pend f(5) pos by (simp add: settled_def)
qed

lemma leave_inv:
  assumes inv: "cpus_inv cpus s" and t: "t \<in> set cpus" and pc: "thread s t = In_exec_end EE_locked"
    and hw: "has_waiter s t" and step: "cpu_exec_end_step t EE_locked s = Some s'"
  shows "cpus_inv cpus s'"
proof -
  note f = leave_fields [OF hw step]
  have nz: "pending_cpus s \<noteq> 0" using thread_facts [OF inv t] hw by simp
  then obtain u where u: "u \<in> set cpus" "claiming (thread s u)"
    using inv unfolding cpus_inv_def claims_ok_def by blast
  have ut: "u \<noteq> t" using u(2) pc by auto
  have "\<not> locked (thread s u)" using locked_elsewhere [OF inv t _ u(1) ut] pc by simp
  then have ns: "\<nexists>rest n. thread s u = In_start_exclusive (SX_scan rest n)" by auto
  then have ns': "\<nexists>rest n. thread s' u = In_start_exclusive (SX_scan rest n)" using f(6) [of u] ut by simp
  have se: "settled cpus s' (thread s' u)" and p: "pending_cpus s' \<noteq> 0"
    using leave_settled [OF t hw _ step ut] thread_facts(5) [OF inv u] claim_ok_settled [OF ns] pc by auto
  have other: "locked (thread s' v) = locked (thread s v)" "marked_running (thread s' v) = marked_running (thread s v)"
    "claiming (thread s' v) = claiming (thread s v)" "(thread s' v = Exclusive) = (thread s v = Exclusive)"
    "(thread s' v = In_start_exclusive SX_claim) = (thread s v = In_start_exclusive SX_claim)" for v
    using pc f(6) [of v] by (cases "v = t"; simp)+
  have "counted (thread s' v)" if "v \<in> set cpus" "has_waiter s' v" for v
    using that thread_facts(4) [OF inv that(1)] f(4) f(6) [of v] by (cases "v = t") auto
  then have "threads_ok cpus s'"
    using inv unfolding cpus_inv_def threads_ok_def other f(1-3) by simp
  moreover have "claims_ok cpus s'"
  proof (rule claims_okI)
    show "a = b" if "a \<in> set cpus" "b \<in> set cpus" "claiming (thread s' a)" "claiming (thread s' b)" for a b
      using that claimer_unique [OF inv] unfolding other by blast
    show "pending_cpus s' = 0 \<longleftrightarrow> (\<forall>v \<in> set cpus. \<not> claiming (thread s' v))" using p u unfolding other by blast
    show "pending_cpus s' = 0" if "v \<in> set cpus" "thread s' v = In_start_exclusive SX_claim" for v
      using that thread_facts(7) [OF inv that(1)] nz unfolding other by simp
    show "claim_ok cpus s' (thread s' v)" if v: "v \<in> set cpus" "claiming (thread s' v)" for v
      using v claimer_unique [OF inv u v(1)] se claim_ok_settled [OF ns'] unfolding other by blast
  qed (use p in simp)
  ultimately show ?thesis using inv sleep_ok_pending [OF p] f(1) by (simp add: cpus_inv_def)
qed

lemma exec_end_step_inv:
  assumes inv: "cpus_inv cpus s" and t: "t \<in> set cpus" and pc: "thread s t = In_exec_end pc"
    and step: "cpu_exec_end_step t pc s = Some s'"
  shows "cpus_inv cpus s'"
proof (cases "pc = EE_locked \<and> has_waiter s t")
  case True
  with leave_inv [OF inv t] pc step show ?thesis by simp
next
  case False
  with step thread_facts [OF inv t] show ?thesis
    by (cases pc)
      (rule local_result [where l = "qemu_cpu_list_lock s'" and pc = "thread s' t" and
          k = "exclusive_context_count s t", OF inv t];
       auto simp: pc step_defs split: if_splits)+
qed

text \<open>The end of an exclusive section.\<close>

lemma reset_inv:
  assumes inv: "cpus_inv cpus s" and t: "t \<in> set cpus" and pc: "thread s t = In_end_exclusive XE_reset"
  shows "cpus_inv cpus (goto t (In_end_exclusive XE_broadcast) (s\<lparr>pending_cpus := 0\<rparr>))" (is "cpus_inv cpus ?s'")
proof -
  have tl: "locked (thread s t)" "claiming (thread s t)" using pc by simp_all
  have "claim_ok cpus s (In_end_exclusive XE_reset)" using thread_facts [OF inv t] pc by simp
  then have "card (waiters cpus s) = 0" by (simp add: settled_def)
  then have w: "waiters cpus s = {}" by (simp add: waiters_def)
  have nw: "\<not> has_waiter s u" if "u \<in> set cpus" for u using w that by (auto simp: waiters_def)
  have "threads_ok cpus ?s'"
    by (rule threads_ok_locked [where s = s and t = t]) (use inv t pc nw in \<open>auto simp: cpus_inv_def goto_def\<close>)
  moreover have "claims_ok cpus ?s'"
  proof (rule claims_okI)
    have none: "\<not> claiming (thread ?s' u)" if "u \<in> set cpus" for u
      using claimer_unique [OF inv t tl(2) that] by (cases "u = t") (auto simp: goto_def)
    then show "pending_cpus ?s' = 0 \<longleftrightarrow> (\<forall>u \<in> set cpus. \<not> claiming (thread ?s' u))" by (simp add: goto_def)
    show "waiters cpus ?s' = {}" using nw by (auto simp: waiters_def goto_def)
    show "a = b" if "a \<in> set cpus" "claiming (thread ?s' a)" for a b using none that by blast
    show "claim_ok cpus ?s' (thread ?s' a)" if "a \<in> set cpus" "claiming (thread ?s' a)" for a using none that by blast
  qed (simp add: goto_def)
  moreover have "sleep_ok cpus ?s'" using t by (auto simp: sleep_ok_def goto_def)
  ultimately show ?thesis using inv by (simp add: cpus_inv_def goto_def)
qed

lemma woken_by_resume_same [simp]:
  "locked (woken_by_resume p) = locked p" "marked_running (woken_by_resume p) = marked_running p"
  "claiming (woken_by_resume p) = claiming p" "counted (woken_by_resume p) = counted p"
  "passed (woken_by_resume p) = passed p" "\<not> asleep (woken_by_resume p)"
  "(woken_by_resume p = Exclusive) = (p = Exclusive)"
  "(woken_by_resume p = In_start_exclusive SX_claim) = (p = In_start_exclusive SX_claim)"
  "claim_ok cpus s (woken_by_resume p) = claim_ok cpus s p"
  by (cases p rule: woken_by_resume.cases; simp add: settled_def)+

lemma broadcast_inv:
  assumes inv: "cpus_inv cpus s"
  shows "cpus_inv cpus (broadcast_exclusive_resume s)" (is "cpus_inv cpus ?s'")
proof -
  have thr: "thread ?s' u = woken_by_resume (thread s u)" for u by (simp add: broadcast_exclusive_resume_def)
  have f: "qemu_cpu_list_lock ?s' = qemu_cpu_list_lock s" "running ?s' = running s" "has_waiter ?s' = has_waiter s"
    "pending_cpus ?s' = pending_cpus s" "exclusive_context_count ?s' = exclusive_context_count s"
    by (simp_all add: broadcast_exclusive_resume_def)
  have w: "waiters cpus ?s' = waiters cpus s" by (simp add: waiters_def f)
  have "claim_ok cpus ?s' p" if "claim_ok cpus s p" for p
    by (rule claim_ok_mono [OF that]) (simp_all add: f thr)
  then have "claims_ok cpus ?s'"
    using inv unfolding cpus_inv_def claims_ok_def thr woken_by_resume_same f w by blast
  moreover have "threads_ok cpus ?s'"
    using inv unfolding cpus_inv_def threads_ok_def thr woken_by_resume_same f by blast
  ultimately show ?thesis using inv by (simp add: cpus_inv_def sleep_ok_def f thr)
qed

lemma end_exclusive_step_inv:
  assumes inv: "cpus_inv cpus s" and t: "t \<in> set cpus" and pc: "thread s t = In_end_exclusive pc"
    and step: "end_exclusive_step t pc s = Some s'"
  shows "cpus_inv cpus s'"
proof (cases pc)
  case XE_reset
  with reset_inv [OF inv t] pc step show ?thesis by simp
next
  case XE_broadcast
  let ?b = "broadcast_exclusive_resume s"
  have inv': "cpus_inv cpus ?b" by (rule broadcast_inv [OF inv])
  have b: "thread ?b u = woken_by_resume (thread s u)" for u by (simp add: broadcast_exclusive_resume_def)
  from XE_broadcast step pc b [of t] thread_facts [OF inv' t] show ?thesis
    by (intro local_result [where l = "qemu_cpu_list_lock ?b" and pc = "In_end_exclusive XE_unlock" and
          k = "exclusive_context_count ?b t", OF inv' t])
      (auto simp: goto_def b)
next
  case XE_lock
  with step thread_facts [OF inv t] show ?thesis
    by (intro local_result [where l = "Some t" and pc = "In_end_exclusive XE_reset" and k = 0, OF inv t])
      (auto simp: pc step_defs settled_def split: if_splits)
next
  case XE_unlock
  with step thread_facts [OF inv t] show ?thesis
    by (intro local_result [where l = None and pc = Outside and k = 0, OF inv t]) (auto simp: pc step_defs)
qed

text \<open>Spurious wake-ups.\<close>

lemma wake_inv:
  assumes inv: "cpus_inv cpus s" and t: "t \<in> set cpus"
    and pc: "pc = woken_by_resume (thread s t) \<or> pc = woken_by_cond (thread s t)"
  shows "cpus_inv cpus (goto t pc s)"
proof (cases "pc = thread s t")
  case True
  then have "goto t pc s = s" by (simp add: goto_def)
  with inv show ?thesis by simp
next
  case False
  with pc consider "thread s t = In_exec_start ES_sleep" "pc = In_exec_start ES_woken"
    | "thread s t = In_start_exclusive SX_sleep" "pc = In_start_exclusive SX_woken"
    | "thread s t = In_start_exclusive SX_wait" "pc = In_start_exclusive SX_signalled"
    by (cases "thread s t" rule: woken_by_resume.cases; cases "thread s t" rule: woken_by_cond.cases) auto
  then have kind: "\<not> locked pc" "\<not> locked (thread s t)" "\<not> marked_running pc" "\<not> marked_running (thread s t)"
    "\<not> passed pc" "\<not> counted (thread s t)" "\<not> asleep pc" "pc \<noteq> Exclusive" "thread s t \<noteq> Exclusive"
    "thread s t \<noteq> In_end_exclusive XE_broadcast" "pc \<noteq> In_start_exclusive SX_claim"
    "claiming pc = claiming (thread s t)" "claim_ok cpus s (thread s t) \<Longrightarrow> claim_ok cpus s pc"
    by (cases; simp add: settled_def)+
  with thread_facts [OF inv t] show ?thesis
    by (intro local_result [where l = "qemu_cpu_list_lock s" and pc = pc and k = 0, OF inv t]) (auto simp: goto_def)
qed

lemma cpus_run_inv:
  assumes "cpus_run cpus s" "distinct cpus"
  shows "cpus_inv cpus s"
  using assms(1)
proof (induction rule: cpus_run.induct)
  case boot
  then show ?case
    by (auto simp: cpus_inv_def threads_ok_def claims_ok_def sleep_ok_def init_cpus_def waiters_def)
next
  case (run s t s')
  then show ?case
    by (auto simp: run_thread_def split: thread_pc.splits
        intro: exec_start_step_inv exec_end_step_inv start_exclusive_step_inv [OF _ _ _ assms(2)] end_exclusive_step_inv)
qed (auto intro: exec_start_inv exec_end_inv start_exclusive_inv end_exclusive_inv wake_inv)

section \<open>Progress\<close>

text \<open>The points at which a thread cannot move by itself although the lock is free.\<close>

fun blocked :: "thread_pc \<Rightarrow> bool" where
  "blocked (In_exec_start pc) \<longleftrightarrow> pc = ES_sleep"
| "blocked (In_start_exclusive pc) \<longleftrightarrow> pc = SX_sleep \<or> pc = SX_wait"
| "blocked (In_exec_end pc) \<longleftrightarrow> False"
| "blocked (In_end_exclusive pc) \<longleftrightarrow> False"
| "blocked _ \<longleftrightarrow> True"

lemma unblocked_runs:
  assumes "qemu_cpu_list_lock s = None \<and> \<not> blocked (thread s t) \<or> locked (thread s t)"
  shows "run_thread cpus t s \<noteq> None"
proof (cases "thread s t")
  case (In_exec_start pc)
  with assms show ?thesis by (cases pc) (auto simp: run_thread_def acquire_def)
next
  case (In_exec_end pc)
  with assms show ?thesis by (cases pc) (auto simp: run_thread_def acquire_def)
next
  case (In_end_exclusive pc)
  with assms show ?thesis by (cases pc) (auto simp: run_thread_def acquire_def)
next
  case (In_start_exclusive pc)
  with assms show ?thesis
  proof (cases pc)
    case (SX_scan cs n)
    with In_start_exclusive show ?thesis by (cases cs) (auto simp: run_thread_def)
  qed (auto simp: run_thread_def acquire_def)
qed (use assms in auto)

lemma waiting_is_counted:
  assumes inv: "cpus_inv cpus s" and t: "t \<in> set cpus" "thread s t = In_start_exclusive SX_wait"
  shows "\<exists>c \<in> set cpus. counted (thread s c)"
proof -
  have "settled cpus s (In_start_exclusive SX_wait)" using thread_facts(5) [OF inv t(1)] t(2) by simp
  then have "card (waiters cpus s) \<noteq> 0" by (auto simp: settled_def)
  then have "waiters cpus s \<noteq> {}" by auto
  then show ?thesis using thread_facts(4) [OF inv] by (auto simp: waiters_def)
qed

lemma some_thread_runs:
  assumes inv: "cpus_inv cpus s" and t: "t \<in> set cpus" "thread s t \<noteq> Outside"
    and idle: "\<forall>u \<in> set cpus. thread s u \<noteq> Executing \<and> thread s u \<noteq> Exclusive"
  shows "\<exists>u \<in> set cpus. run_thread cpus u s \<noteq> None"
proof (rule ccontr)
  assume stuck: "\<not> ?thesis"
  have nl: "\<not> locked (thread s u)" if "u \<in> set cpus" for u
    using stuck that unblocked_runs [of s u cpus] by auto
  have "qemu_cpu_list_lock s = None"
    using inv nl thread_facts(1) [OF inv] by (cases "qemu_cpu_list_lock s") (auto simp: cpus_inv_def)
  then have bl: "blocked (thread s u)" if "u \<in> set cpus" for u
    using stuck that unblocked_runs [of s u cpus] by auto
  have nc: "\<not> counted (thread s u)" if "u \<in> set cpus" for u
    using bl [OF that] idle that by (cases "thread s u") auto
  have nw: "thread s u \<noteq> In_start_exclusive SX_wait" if "u \<in> set cpus" for u
    using waiting_is_counted [OF inv that] nc by blast
  have "\<not> claiming (thread s u)" if "u \<in> set cpus" for u
    using bl [OF that] nw [OF that] idle that by (cases "thread s u") auto
  then have p0: "pending_cpus s = 0" using inv unfolding cpus_inv_def claims_ok_def by blast
  have "asleep (thread s t)" using bl [OF t(1)] nw [OF t(1)] t idle by (cases "thread s t") auto
  then have "\<exists>u \<in> set cpus. thread s u = In_end_exclusive XE_broadcast"
    using inv t(1) p0 by (auto simp: cpus_inv_def sleep_ok_def)
  with nl show False by fastforce
qed

section \<open>Properties\<close>

text \<open>
  C3. Exclusive sections exclude. In every interleaving of the CPU threads, with spurious
  wake-ups: while a CPU is in an exclusive section, no CPU executes guest code and no other CPU is in an
  exclusive section, and all CPUs are marked as not running except those that are about to be
  held back by \<^verbatim>\<open>cpu_exec_start\<close>.
\<close>

theorem exclusive_excludes:
  assumes "cpus_run cpus s" "distinct cpus" "t \<in> set cpus" "u \<in> set cpus" "thread s t = Exclusive"
  shows "thread s u \<noteq> Executing \<and> (thread s u = Exclusive \<longleftrightarrow> u = t) \<and>
    (running s u \<longleftrightarrow> thread s u \<in> {In_exec_start ES_check, In_exec_start ES_lock, In_exec_start ES_locked}) \<and>
    pending_cpus s = 1"
proof -
  have inv: "cpus_inv cpus s" using cpus_run_inv assms by blast
  have ok: "settled cpus s Exclusive" using thread_facts(5) [OF inv assms(3)] assms(5) by simp
  then have p: "pending_cpus s = 1" and "card (waiters cpus s) = 0" and st: "stopped s cpus" by (simp_all add: settled_def)
  then have "waiters cpus s = {}" by (simp add: waiters_def)
  then have nw: "\<not> has_waiter s u" using assms(4) by (auto simp: waiters_def)
  with st have np: "\<not> passed (thread s u)" using assms(4) by (auto simp: stopped_def)
  have "thread s u = Exclusive \<longleftrightarrow> u = t" using claimer_unique [OF inv assms(3) _ assms(4)] assms(5) by (cases "u = t") auto
  moreover have "running s u \<longleftrightarrow> thread s u \<in> {In_exec_start ES_check, In_exec_start ES_lock, In_exec_start ES_locked}"
    using thread_facts(2) [OF inv assms(4)] np by (cases "thread s u") auto
  ultimately show ?thesis using np p by auto
qed

text \<open>
  C4. The protocol does not deadlock and its assertion holds. In every reachable state,
  \<^verbatim>\<open>start_exclusive\<close> can be called where it may be; and if some thread is inside one
  of the functions while no CPU executes guest code or is in an exclusive section, then some thread can take a step,
  without the help of a spurious wake-up.
\<close>

theorem exclusive_no_deadlock:
  assumes "cpus_run cpus s" "distinct cpus" "t \<in> set cpus"
  shows "(if thread s t = Outside \<or> thread s t = Exclusive then start_exclusive t s \<noteq> None
     else if list_all (\<lambda>u. thread s u \<noteq> Executing \<and> thread s u \<noteq> Exclusive) cpus
       then \<exists>u \<in> set cpus. run_thread cpus u s \<noteq> None else True)"
proof -
  have inv: "cpus_inv cpus s" using cpus_run_inv assms by blast
  show ?thesis
    using thread_facts(2,3) [OF inv assms(3)] some_thread_runs [OF inv assms(3)]
    by (auto simp: start_exclusive_def list_all_iff)
qed

text \<open>
  Two CPUs, 0 and 1: CPU 0 executes guest code, CPU 1 enters an exclusive section and CPU 0 has left it
  by then. The schedule is the list of the threads that take a step.
\<close>

fun run_schedule :: "nat list \<Rightarrow> nat list \<Rightarrow> cpus_state \<Rightarrow> cpus_state option" where
  "run_schedule cpus [] s = Some s"
| "run_schedule cpus (t # ts) s =
     (case run_thread cpus t s of Some s' \<Rightarrow> run_schedule cpus ts s' | None \<Rightarrow> None)"

lemma run_schedule_run:
  "cpus_run cpus s \<Longrightarrow> set ts \<subseteq> set cpus \<Longrightarrow> run_schedule cpus ts s = Some s' \<Longrightarrow> cpus_run cpus s'"
  by (induction ts arbitrary: s) (auto split: option.splits intro: cpus_run.run)

definition example_waiting :: cpus_state where
  "example_waiting =
     the (run_schedule [0, 1] [1, 1, 1, 1, 1, 1, 1]
       (the (start_exclusive 1 (the (run_schedule [0, 1] [0] (cpu_exec_start 0 init_cpus))))))"

definition example_exclusive :: cpus_state where
  "example_exclusive = the (run_schedule [0, 1] [0, 0, 0, 0, 1, 1, 1, 1] (cpu_exec_end 0 example_waiting))"

lemmas example_defs = run_thread_def acquire_def release_def goto_def cpu_exec_start_def cpu_exec_end_def
  start_exclusive_def init_cpus_def signal_exclusive_cond_def Let_def

lemma example_waiting_run:
  "cpus_run [0, 1] example_waiting" "thread example_waiting 0 = Executing"
  "thread example_waiting 1 = In_start_exclusive SX_wait"
proof -
  let ?s0 = "cpu_exec_start 0 init_cpus"
  have r0: "cpus_run [0, 1] ?s0" by (rule cpus_run.exec_start [OF cpus_run.boot]) (simp_all add: init_cpus_def)
  obtain s1 where s1: "run_schedule [0, 1] [0] ?s0 = Some s1" "thread s1 1 = Outside" "start_exclusive 1 s1 \<noteq> None"
    by (simp add: example_defs)
  have r1: "cpus_run [0, 1] s1" using run_schedule_run [OF r0 _ s1(1)] by simp
  obtain s2 where s2: "start_exclusive 1 s1 = Some s2" using s1(3) by auto
  have r2: "cpus_run [0, 1] s2" by (rule cpus_run.excl_start [OF r1 _ _ s2]) (use s1 in auto)
  obtain s3 where s3: "run_schedule [0, 1] [1, 1, 1, 1, 1, 1, 1] s2 = Some s3" "thread s3 0 = Executing"
      "thread s3 1 = In_start_exclusive SX_wait"
    using s1(1) s2 by (auto simp: example_defs)
  have "example_waiting = s3" using s1(1) s2 s3(1) by (simp add: example_waiting_def)
  with s3 run_schedule_run [OF r2 _ s3(1)] show "cpus_run [0, 1] example_waiting"
    "thread example_waiting 0 = Executing" "thread example_waiting 1 = In_start_exclusive SX_wait" by simp_all
qed

lemma example_leaving_run:
  "cpus_run [0, 1] (cpu_exec_end 0 example_waiting)"
  "thread (cpu_exec_end 0 example_waiting) 0 = In_exec_end EE_check"
  "thread (cpu_exec_end 0 example_waiting) 1 = In_start_exclusive SX_wait"
  using cpus_run.exec_end [OF example_waiting_run(1), of 0] example_waiting_run
  by (simp_all add: cpu_exec_end_def goto_def)

lemma example_exclusive_run:
  "cpus_run [0, 1] example_exclusive" "thread example_exclusive 1 = Exclusive"
proof -
  obtain s where s: "run_schedule [0, 1] [0, 0, 0, 0, 1, 1, 1, 1] (cpu_exec_end 0 example_waiting) = Some s"
      "thread s 1 = Exclusive"
    by (simp add: example_defs example_waiting_def)
  then have "example_exclusive = s" by (simp add: example_exclusive_def)
  with s run_schedule_run [OF example_leaving_run(1) _ s(1)]
  show "cpus_run [0, 1] example_exclusive" "thread example_exclusive 1 = Exclusive" by simp_all
qed

theorem exclusive_excludes_witness:
  "cpus_run [0, 1] example_exclusive \<and> thread example_exclusive 1 = Exclusive \<and>
   thread example_exclusive 0 \<noteq> Executing \<and> pending_cpus example_exclusive = 1"
  using exclusive_excludes [OF example_exclusive_run(1), of 1 0] example_exclusive_run by simp

theorem exclusive_no_deadlock_witness:
  "thread (cpu_exec_end 0 example_waiting) 1 = In_start_exclusive SX_wait \<and>
   (\<exists>u \<in> {0, 1}. run_thread [0, 1] u (cpu_exec_end 0 example_waiting) \<noteq> None)"
  using exclusive_no_deadlock [OF example_leaving_run(1), of 1] example_leaving_run by simp

end
