(* ===== verification/Cpu_Work.thy ===== *)
theory Cpu_Work
  imports Prelude "HOL-Library.Multiset"
begin

text \<open>
  The list of CPUs and the work queued on a CPU, of \<^verbatim>\<open>cpu-common.c\<close>. CPUs and work
  items are named by numbers that stand for their addresses. The mutexes are not part of the
  state: an operation is what happens between their lock and unlock. A failed assertion, and
  the access to a work item that is not allocated, is \<^const>\<open>AssertFail\<close>.
\<close>

section \<open>The list of CPUs\<close>

record cpu_list =
  cpus_queue :: "nat list"
  cpu_index :: "nat \<Rightarrow> int"
  cpu_index_auto_assigned :: bool
  cpu_list_generation_id :: u32

abbreviation (input) "UNASSIGNED_CPU_INDEX \<equiv> -1 :: int"

text \<open>
  An index is a C \<^verbatim>\<open>int\<close>, here the integer it stands for; the repository is built with
  \<^verbatim>\<open>-fwrapv\<close>, so that its increment wraps around.
\<close>

definition int_inc :: "int \<Rightarrow> int" where
  "int_inc x = sint (word_of_int (x + 1) :: 32 word)"

text \<open>The loop of \<^verbatim>\<open>cpu_get_free_index\<close> over the CPUs that remain.\<close>

fun free_index_loop :: "(nat \<Rightarrow> int) \<Rightarrow> nat list \<Rightarrow> int \<Rightarrow> int" where
  "free_index_loop idx [] max_cpu_index = max_cpu_index"
| "free_index_loop idx (some_cpu # rest) max_cpu_index =
     free_index_loop idx rest (if idx some_cpu \<ge> max_cpu_index then int_inc (idx some_cpu) else max_cpu_index)"

definition cpu_get_free_index :: "cpu_list \<Rightarrow> int" where
  "cpu_get_free_index s = free_index_loop (cpu_index s) (cpus_queue s) 0"

definition cpu_list_generation_id_get :: "cpu_list \<Rightarrow> u32" where
  "cpu_list_generation_id_get s = cpu_list_generation_id s"

definition cpu_list_add :: "cpu_list \<Rightarrow> nat \<Rightarrow> (cpu_list, unit) outcome" where
  "cpu_list_add s cpu =
     obind
       (if cpu_index s cpu = UNASSIGNED_CPU_INDEX then
          let s = s\<lparr>cpu_index_auto_assigned := True\<rparr>;
              s = s\<lparr>cpu_index := (cpu_index s)(cpu := cpu_get_free_index s)\<rparr>
          in if cpu_index s cpu \<noteq> UNASSIGNED_CPU_INDEX then Ret () s else AssertFail
        else if \<not> cpu_index_auto_assigned s then Ret () s else AssertFail)
       (\<lambda>_ s. Ret () (s\<lparr>cpus_queue := cpus_queue s @ [cpu],
          cpu_list_generation_id := cpu_list_generation_id s + 1\<rparr>))"

definition cpu_list_remove :: "cpu_list \<Rightarrow> nat \<Rightarrow> cpu_list" where
  "cpu_list_remove s cpu =
     (if cpu \<notin> set (cpus_queue s) then s
      else s\<lparr>cpus_queue := remove1 cpu (cpus_queue s),
             cpu_index := (cpu_index s)(cpu := UNASSIGNED_CPU_INDEX),
             cpu_list_generation_id := cpu_list_generation_id s + 1\<rparr>)"

fun find_cpu :: "(nat \<Rightarrow> int) \<Rightarrow> int \<Rightarrow> nat list \<Rightarrow> nat option" where
  "find_cpu idx index [] = None"
| "find_cpu idx index (cpu # rest) = (if idx cpu = index then Some cpu else find_cpu idx index rest)"

definition qemu_get_cpu :: "cpu_list \<Rightarrow> int \<Rightarrow> nat option" where
  "qemu_get_cpu s index = find_cpu (cpu_index s) index (cpus_queue s)"

definition init_cpu_list :: cpu_list where
  "init_cpu_list =
     \<lparr>cpus_queue = [], cpu_index = (\<lambda>_. UNASSIGNED_CPU_INDEX), cpu_index_auto_assigned = False,
      cpu_list_generation_id = 0\<rparr>"

subsection \<open>Indices\<close>

lemma int_inc_small: "- (2 ^ 31) \<le> x \<Longrightarrow> x < 2 ^ 31 - 1 \<Longrightarrow> int_inc x = x + 1"
  unfolding int_inc_def by (intro sint32_of_int) simp_all

text \<open>While the indices are below a bound that fits the type, the free index is above all of them.\<close>

lemma free_index_bound:
  assumes "\<forall>c\<in>set cs. 0 \<le> idx c \<and> idx c < n" "n < 2 ^ 31" "0 \<le> m" "m \<le> n"
  shows "m \<le> free_index_loop idx cs m \<and> free_index_loop idx cs m \<le> n \<and>
    (\<forall>c\<in>set cs. idx c < free_index_loop idx cs m)"
  using assms(1,3,4)
proof (induction cs arbitrary: m)
  case (Cons a cs)
  define m' where "m' = (if idx a \<ge> m then int_inc (idx a) else m)"
  have "int_inc (idx a) = idx a + 1"
    using Cons.prems assms(2) by (intro int_inc_small) auto
  then have m': "m \<le> m'" "idx a < m'" "m' \<le> n"
    using Cons.prems by (auto simp: m'_def)
  then show ?case
    using Cons.IH [of m'] Cons.prems by (auto simp flip: m'_def)
qed simp

text \<open>
  Beyond the bound the index wraps around: after a CPU with the largest index the next one gets the
  smallest.
\<close>

lemma free_index_wraps:
  assumes "cpus_queue s = [c]" "cpu_index s c = 2 ^ 31 - 1"
  shows "cpu_get_free_index s = - (2 ^ 31)"
  using assms by (simp add: cpu_get_free_index_def int_inc_def)

lemma find_cpu_Some:
  assumes "inj_on idx (set cs)"
  shows "find_cpu idx i cs = Some c \<longleftrightarrow> c \<in> set cs \<and> idx c = i"
  using assms by (induction cs) (auto simp: inj_on_def)

lemma option_Some_eqI: "(\<And>d. x = Some d \<longleftrightarrow> y = Some d) \<Longrightarrow> x = y"
  by (metis not_None_eq)

text \<open>
  CPUs that get their index from the list, in any order of adding and removing; a run counts its
  additions.
\<close>

inductive list_run :: "nat \<Rightarrow> cpu_list \<Rightarrow> bool" where
  boot: "list_run 0 init_cpu_list"
| add: "list_run n s \<Longrightarrow> cpu \<notin> set (cpus_queue s) \<Longrightarrow> cpu_list_add s cpu = Ret () s' \<Longrightarrow> list_run (Suc n) s'"
| remove: "list_run n s \<Longrightarrow> list_run n (cpu_list_remove s cpu)"

definition list_ok :: "nat \<Rightarrow> cpu_list \<Rightarrow> bool" where
  "list_ok n s \<longleftrightarrow> distinct (cpus_queue s) \<and> inj_on (cpu_index s) (set (cpus_queue s)) \<and>
     (\<forall>c. if c \<in> set (cpus_queue s) then 0 \<le> cpu_index s c \<and> cpu_index s c < int n
          else cpu_index s c = UNASSIGNED_CPU_INDEX)"

lemma free_index_ok:
  assumes "list_ok n s" "n < 2 ^ 31"
  shows "0 \<le> cpu_get_free_index s" "cpu_get_free_index s \<le> int n"
    "c \<in> set (cpus_queue s) \<Longrightarrow> cpu_index s c < cpu_get_free_index s"
proof -
  have "\<forall>c\<in>set (cpus_queue s). 0 \<le> cpu_index s c \<and> cpu_index s c < int n"
    using assms(1) by (auto simp: list_ok_def split: if_splits)
  from free_index_bound [OF this, of 0] assms(2)
  show "0 \<le> cpu_get_free_index s" "cpu_get_free_index s \<le> int n"
    "c \<in> set (cpus_queue s) \<Longrightarrow> cpu_index s c < cpu_get_free_index s"
    by (auto simp: cpu_get_free_index_def)
qed

lemma cpu_list_add_auto:
  assumes "list_ok n s" "n < 2 ^ 31" "cpu \<notin> set (cpus_queue s)"
  shows "cpu_list_add s cpu = Ret ()
    (s\<lparr>cpu_index_auto_assigned := True, cpu_index := (cpu_index s)(cpu := cpu_get_free_index s),
       cpus_queue := cpus_queue s @ [cpu], cpu_list_generation_id := cpu_list_generation_id s + 1\<rparr>)"
proof -
  have "cpu_index s cpu = -1" using assms by (auto simp: list_ok_def split: if_splits)
  moreover have "0 \<le> cpu_get_free_index s" by (rule free_index_ok [OF assms(1,2)])
  ultimately show ?thesis by (simp add: cpu_list_add_def Let_def cpu_get_free_index_def)
qed

lemma list_run_ok: "list_run n s \<Longrightarrow> n \<le> 2 ^ 31 \<Longrightarrow> list_ok n s"
proof (induction rule: list_run.induct)
  case boot
  show ?case by (simp add: list_ok_def init_cpu_list_def)
next
  case (add n s cpu s')
  then have ok: "list_ok n s" "n < 2 ^ 31" by simp_all
  note free_index_ok [OF ok]
  moreover have "s' = s\<lparr>cpu_index_auto_assigned := True, cpu_index := (cpu_index s)(cpu := cpu_get_free_index s),
       cpus_queue := cpus_queue s @ [cpu], cpu_list_generation_id := cpu_list_generation_id s + 1\<rparr>"
    using cpu_list_add_auto [OF ok add.hyps(2)] add.hyps(3) by simp
  ultimately show ?case using ok(1) add.hyps(2) by (fastforce simp: list_ok_def inj_on_def split: if_splits)
next
  case (remove n s cpu)
  then show ?case by (auto simp: list_ok_def cpu_list_remove_def inj_on_def split: if_splits)
qed

text \<open>
  CPUs that leave their index to the list are found by it: in every run of fewer than
  \<open>2 ^ 31\<close> additions and any number of removals an addition never fails its assertions, the new CPU gets an index above those of all
  others, and \<^verbatim>\<open>qemu_get_cpu\<close> of an index is the one CPU of the list with that
  index; the new CPU is found under its index, no other lookup changes, and a removed CPU is no longer found.
\<close>

theorem cpu_index_lookup:
  assumes "list_run n s" "n < 2 ^ 31" "cpu \<notin> set (cpus_queue s)"
  shows "\<exists>s'. cpu_list_add s cpu = Ret () s' \<and> cpus_queue s' = cpus_queue s @ [cpu] \<and>
    list_all (\<lambda>c. cpu_index s c < cpu_index s' cpu) (cpus_queue s) \<and>
    qemu_get_cpu s' i = (if i = cpu_index s' cpu then Some cpu else qemu_get_cpu s i) \<and>
    qemu_get_cpu (cpu_list_remove s' c) i =
      (if qemu_get_cpu s' i = Some c then None else qemu_get_cpu s' i)"
proof -
  have ok: "list_ok n s" using list_run_ok [OF assms(1)] assms(2) by simp
  obtain s' where s': "cpu_list_add s cpu = Ret () s'"
      "cpus_queue s' = cpus_queue s @ [cpu]" "cpu_index s' = (cpu_index s)(cpu := cpu_get_free_index s)"
    using cpu_list_add_auto [OF ok assms(2,3)] by simp
  have run': "list_run (Suc n) s'" by (rule list_run.add [OF assms(1,3) s'(1)])
  have ok': "list_ok (Suc n) s'" "list_ok (Suc n) (cpu_list_remove s' c)"
    using list_run_ok [OF run'] list_run_ok [OF list_run.remove [OF run']] assms(2) by simp_all
  have lookup: "qemu_get_cpu r i = Some d \<longleftrightarrow> d \<in> set (cpus_queue r) \<and> cpu_index r d = i" if "list_ok k r" for k r i d
    using that find_cpu_Some by (simp add: qemu_get_cpu_def list_ok_def)
  have "list_all (\<lambda>c. cpu_index s c < cpu_index s' cpu) (cpus_queue s)"
    using free_index_ok(3) [OF ok assms(2)] assms(3) s'(3) by (auto simp: list_all_iff)
  moreover have "qemu_get_cpu s' i = (if i = cpu_index s' cpu then Some cpu else qemu_get_cpu s i)"
  proof (rule option_Some_eqI)
    fix d
    have inj: "d = cpu" if "cpu_index s' d = cpu_index s' cpu" "d \<in> set (cpus_queue s')"
    proof (rule inj_onD [OF _ that])
      show "inj_on (cpu_index s') (set (cpus_queue s'))" using ok'(1) by (simp add: list_ok_def)
    qed (simp add: s'(2))
    have mem: "d \<in> set (cpus_queue s') \<longleftrightarrow> d = cpu \<or> d \<in> set (cpus_queue s)" using s'(2) by auto
    have idx: "cpu_index s' d = cpu_index s d" if "d \<noteq> cpu" using s'(3) that by simp
    show "qemu_get_cpu s' i = Some d \<longleftrightarrow>
        (if i = cpu_index s' cpu then Some cpu else qemu_get_cpu s i) = Some d"
      using lookup [OF ok, of i d] lookup [OF ok'(1), of i d] inj mem idx assms(3)
      by (cases "d = cpu"; cases "i = cpu_index s' cpu") auto
  qed
  moreover have "qemu_get_cpu (cpu_list_remove s' c) i = (if qemu_get_cpu s' i = Some c then None else qemu_get_cpu s' i)"
  proof (rule option_Some_eqI)
    fix d
    have "set (cpus_queue (cpu_list_remove s' c)) = set (cpus_queue s') - {c}"
      using ok'(1) by (auto simp: cpu_list_remove_def list_ok_def)
    moreover have "cpu_index (cpu_list_remove s' c) d = cpu_index s' d" if "d \<noteq> c" using that by (simp add: cpu_list_remove_def)
    moreover have "\<not> (qemu_get_cpu s' i = Some c \<and> qemu_get_cpu s' i = Some d)" if "d \<noteq> c" using that by simp
    ultimately show "qemu_get_cpu (cpu_list_remove s' c) i = Some d \<longleftrightarrow>
        (if qemu_get_cpu s' i = Some c then None else qemu_get_cpu s' i) = Some d"
      using lookup [OF ok'(1), of i d] lookup [OF ok'(2), of i d] by (metis DiffE DiffI option.distinct(1) singletonD singletonI)
  qed
  ultimately show ?thesis using s' by blast
qed

theorem cpu_index_lookup_witness:
  "\<exists>s s'. list_run 1 s \<and> cpu_list_add s 7 = Ret () s' \<and> qemu_get_cpu s' (cpu_index s' 7) = Some 7 \<and>
    qemu_get_cpu (cpu_list_remove s' 7) (cpu_index s' 7) = None"
proof -
  obtain s where s: "cpu_list_add init_cpu_list 3 = Ret () s" "cpus_queue s = [3]" "cpu_index s = (\<lambda>_. -1)(3 := 0)"
    by (simp add: cpu_list_add_def cpu_get_free_index_def init_cpu_list_def)
  have run: "list_run 1 s" using list_run.add [OF list_run.boot _ s(1)] by (simp add: init_cpu_list_def)
  have new: "(7 :: nat) \<notin> set (cpus_queue s)" using s(2) by simp
  obtain s' where s': "cpu_list_add s 7 = Ret () s'" "cpu_index s' 7 = 1"
    using s(2,3) by (simp add: cpu_list_add_def cpu_get_free_index_def int_inc_def)
  from cpu_index_lookup [OF run _ new, where c = 7 and i = 1] s'
  have "qemu_get_cpu s' 1 = Some 7" "qemu_get_cpu (cpu_list_remove s' 7) 1 = None" by auto
  with run s' show ?thesis by (intro exI [of _ s] exI [of _ s']) simp
qed

section \<open>Queued work\<close>

text \<open>
  The work list holds the addresses of work items; \<^verbatim>\<open>work_heap\<close> says which items are
  allocated. The log has what \<^verbatim>\<open>process_queued_cpu_work\<close> does, most recent first.
\<close>

record qemu_work_item =
  wi_func :: nat
  wi_data :: nat
  wi_free :: bool
  wi_exclusive :: bool
  wi_done :: bool

datatype work_event =
  Work_queued nat | Cpu_kicked | Bql_unlock | Start_exclusive | Work_run nat | End_exclusive | Bql_lock | Work_freed nat | Work_cond_broadcast

record 'g cpu_work =
  work_list :: "nat list"
  work_heap :: "nat \<Rightarrow> qemu_work_item option"
  work_log :: "work_event list"
  world :: 'g

definition log_event :: "work_event \<Rightarrow> 'g cpu_work \<Rightarrow> 'g cpu_work" where
  "log_event e s = s\<lparr>work_log := e # work_log s\<rparr>"

definition queue_work_on_cpu :: "nat \<Rightarrow> 'g cpu_work \<Rightarrow> 'g cpu_work" where
  "queue_work_on_cpu wi s =
     log_event Cpu_kicked (log_event (Work_queued wi)
       (s\<lparr>work_list := work_list s @ [wi],
          work_heap := (work_heap s)(wi := map_option (\<lambda>w. w\<lparr>wi_done := False\<rparr>) (work_heap s wi))\<rparr>))"

text \<open>The address \<open>wi\<close> is the result of the allocation.\<close>

definition async_run_on_cpu :: "nat \<Rightarrow> nat \<Rightarrow> nat \<Rightarrow> 'g cpu_work \<Rightarrow> 'g cpu_work" where
  "async_run_on_cpu wi func data s =
     queue_work_on_cpu wi
       (s\<lparr>work_heap := (work_heap s)(wi \<mapsto>
          \<lparr>wi_func = func, wi_data = data, wi_free = True, wi_exclusive = False, wi_done = False\<rparr>)\<rparr>)"

definition async_safe_run_on_cpu :: "nat \<Rightarrow> nat \<Rightarrow> nat \<Rightarrow> 'g cpu_work \<Rightarrow> 'g cpu_work" where
  "async_safe_run_on_cpu wi func data s =
     queue_work_on_cpu wi
       (s\<lparr>work_heap := (work_heap s)(wi \<mapsto>
          \<lparr>wi_func = func, wi_data = data, wi_free = True, wi_exclusive = True, wi_done = False\<rparr>)\<rparr>)"

text \<open>
  What \<^verbatim>\<open>do_run_on_cpu\<close> does before it waits: on the CPU itself the function runs at
  once, otherwise an item on the stack of the caller, at \<open>wi\<close>, is queued. The functions that
  work items call are code outside of this component, the parameter \<open>call\<close>.
\<close>

definition do_run_on_cpu ::
    "(nat \<Rightarrow> nat \<Rightarrow> 'g cpu_work \<Rightarrow> 'g cpu_work) \<Rightarrow> bool \<Rightarrow> nat \<Rightarrow> nat \<Rightarrow> nat \<Rightarrow> 'g cpu_work \<Rightarrow> 'g cpu_work" where
  "do_run_on_cpu call is_self wi func data s =
     (if is_self then call func data s
      else queue_work_on_cpu wi
        (s\<lparr>work_heap := (work_heap s)(wi \<mapsto>
           \<lparr>wi_func = func, wi_data = data, wi_free = False, wi_exclusive = False, wi_done = False\<rparr>)\<rparr>))"

definition g_free :: "nat \<Rightarrow> 'g cpu_work \<Rightarrow> 'g cpu_work" where
  "g_free wi s = log_event (Work_freed wi) (s\<lparr>work_heap := (work_heap s)(wi := None)\<rparr>)"

fun free_queued_loop :: "nat list \<Rightarrow> 'g cpu_work \<Rightarrow> ('g cpu_work, unit) outcome" where
  "free_queued_loop [] s = Ret () (s\<lparr>work_list := []\<rparr>)"
| "free_queued_loop (wi # rest) s =
     (case work_heap s wi of
        None \<Rightarrow> AssertFail
      | Some w \<Rightarrow> free_queued_loop rest (if wi_free w then g_free wi s else s))"

definition free_queued_cpu_work :: "'g cpu_work \<Rightarrow> ('g cpu_work, unit) outcome" where
  "free_queued_cpu_work s = free_queued_loop (work_list s) s"

text \<open>One round of the loop of \<^verbatim>\<open>process_queued_cpu_work\<close>, on the first item.\<close>

definition process_item ::
    "(nat \<Rightarrow> nat \<Rightarrow> 'g cpu_work \<Rightarrow> 'g cpu_work) \<Rightarrow> nat \<Rightarrow> 'g cpu_work \<Rightarrow> 'g cpu_work option" where
  "process_item call wi s =
     (case work_heap s wi of
        None \<Rightarrow> None
      | Some w \<Rightarrow>
          let s = (if wi_exclusive w then
                     let s = log_event Start_exclusive (log_event Bql_unlock s);
                         s = call (wi_func w) (wi_data w) (log_event (Work_run wi) s)
                     in log_event Bql_lock (log_event End_exclusive s)
                   else call (wi_func w) (wi_data w) (log_event (Work_run wi) s))
          in case work_heap s wi of
               None \<Rightarrow> None
             | Some w \<Rightarrow> Some (if wi_free w then g_free wi s
                 else s\<lparr>work_heap := (work_heap s)(wi \<mapsto> w\<lparr>wi_done := True\<rparr>)\<rparr>))"

partial_function (option) process_work_loop ::
    "(nat \<Rightarrow> nat \<Rightarrow> 'g cpu_work \<Rightarrow> 'g cpu_work) \<Rightarrow> 'g cpu_work \<Rightarrow> ('g cpu_work, unit) outcome option" where
  "process_work_loop call s =
     (case work_list s of
        [] \<Rightarrow> Some (Ret () s)
      | wi # rest \<Rightarrow>
          (case process_item call wi (s\<lparr>work_list := rest\<rparr>) of
             None \<Rightarrow> Some AssertFail
           | Some s \<Rightarrow> process_work_loop call s))"

definition process_queued_cpu_work ::
    "(nat \<Rightarrow> nat \<Rightarrow> 'g cpu_work \<Rightarrow> 'g cpu_work) \<Rightarrow> 'g cpu_work \<Rightarrow> ('g cpu_work, unit) outcome option" where
  "process_queued_cpu_work call s =
     (if work_list s = [] then Some (Ret () s)
      else map_option (\<lambda>r. obind r (\<lambda>_ s. Ret () (log_event Work_cond_broadcast s))) (process_work_loop call s))"

subsection \<open>Order and termination\<close>

fun ran_of :: "work_event list \<Rightarrow> nat list" where
  "ran_of [] = []"
| "ran_of (e # es) = ran_of es @ (case e of Work_run wi \<Rightarrow> [wi] | _ \<Rightarrow> [])"

fun queued_of :: "work_event list \<Rightarrow> nat list" where
  "queued_of [] = []"
| "queued_of (e # es) = queued_of es @ (case e of Work_queued wi \<Rightarrow> [wi] | _ \<Rightarrow> [])"

text \<open>
  A work function that changes the world and queues further asynchronous work: the address,
  the function and the argument of each item it queues. The allocator returns addresses that are not
  in use, and the functions have ranks that sink from an item to those it queues.
\<close>

definition work_call ::
    "(nat \<Rightarrow> nat \<Rightarrow> 'g cpu_work \<Rightarrow> (nat \<times> nat \<times> nat) list) \<Rightarrow> (nat \<Rightarrow> nat \<Rightarrow> 'g \<Rightarrow> 'g) \<Rightarrow>
     nat \<Rightarrow> nat \<Rightarrow> 'g cpu_work \<Rightarrow> 'g cpu_work" where
  "work_call queues effect func data s =
     fold (\<lambda>(wi, f, d). async_run_on_cpu wi f d) (queues func data s)
       (s\<lparr>world := effect func data (world s)\<rparr>)"

definition alloc_fresh :: "(nat \<Rightarrow> nat \<Rightarrow> 'g cpu_work \<Rightarrow> (nat \<times> nat \<times> nat) list) \<Rightarrow> bool" where
  "alloc_fresh queues \<longleftrightarrow>
     (\<forall>func data s. distinct (map fst (queues func data s)) \<and>
        (\<forall>wi \<in> set (map fst (queues func data s)). work_heap s wi = None))"

definition rank_sinks :: "(nat \<Rightarrow> nat \<Rightarrow> 'g cpu_work \<Rightarrow> (nat \<times> nat \<times> nat) list) \<Rightarrow> (nat \<Rightarrow> nat) \<Rightarrow> bool" where
  "rank_sinks queues rank \<longleftrightarrow>
     (\<forall>func data s. \<forall>(wi, f, d) \<in> set (queues func data s). rank f < rank func)"

definition work_ok :: "'g cpu_work \<Rightarrow> bool" where
  "work_ok s \<longleftrightarrow> distinct (work_list s) \<and> (\<forall>wi \<in> set (work_list s). work_heap s wi \<noteq> None)"

text \<open>The effect of queueing a list of items.\<close>

lemma queue_all:
  fixes s :: "'g cpu_work" and qs
  defines "s' \<equiv> fold (\<lambda>(wi, f, d). async_run_on_cpu wi f d) qs s"
  assumes "distinct (map fst qs)"
  shows "work_list s' = work_list s @ map fst qs"
    "ran_of (work_log s') = ran_of (work_log s)"
    "queued_of (work_log s') = queued_of (work_log s) @ map fst qs"
    "wi \<notin> set (map fst qs) \<Longrightarrow> work_heap s' wi = work_heap s wi"
    "(wi, f, d) \<in> set qs \<Longrightarrow> work_heap s' wi =
       Some \<lparr>wi_func = f, wi_data = d, wi_free = True, wi_exclusive = False, wi_done = False\<rparr>"
  using assms(2) unfolding s'_def
proof (induction qs arbitrary: s)
  case (Cons q qs)
  obtain wi' f' d' where q: "q = (wi', f', d')" by (cases q)
  {
    case 1 with Cons show ?case by (simp add: q async_run_on_cpu_def queue_work_on_cpu_def log_event_def)
  next
    case 2 with Cons show ?case by (simp add: q async_run_on_cpu_def queue_work_on_cpu_def log_event_def)
  next
    case 3 with Cons show ?case by (simp add: q async_run_on_cpu_def queue_work_on_cpu_def log_event_def)
  next
    case 4 with Cons show ?case by (simp add: q async_run_on_cpu_def queue_work_on_cpu_def log_event_def)
  next
    case 5
    show ?case
    proof (cases "(wi, f, d) \<in> set qs")
      case True
      with Cons.IH(5) 5 show ?thesis by (simp add: q)
    next
      case False
      with 5 have "q = (wi, f, d)" "wi \<notin> set (map fst qs)" by (auto simp: q)
      with Cons.IH(4) 5 show ?thesis by (simp add: async_run_on_cpu_def queue_work_on_cpu_def log_event_def)
    qed
  }
qed auto

text \<open>One round: the item is run and released, and what it queues goes to the end of the list.\<close>

definition finished :: "qemu_work_item option \<Rightarrow> qemu_work_item option" where
  "finished wi = Option.bind wi (\<lambda>w. if wi_free w then None else Some (w\<lparr>wi_done := True\<rparr>))"

definition round_ok ::
    "(nat \<Rightarrow> nat) \<Rightarrow> nat \<Rightarrow> qemu_work_item \<Rightarrow> (nat \<times> nat \<times> nat) list \<Rightarrow> 'g cpu_work \<Rightarrow> 'g cpu_work \<Rightarrow> bool" where
  "round_ok rank wi w qs s s' \<longleftrightarrow>
     work_list s' = work_list s @ map fst qs \<and> distinct (map fst qs) \<and>
     (\<forall>x \<in> fst ` set qs. work_heap s x = None) \<and>
     (\<forall>(x, f, d) \<in> set qs. rank f < rank (wi_func w)) \<and>
     (\<forall>(x, f, d) \<in> set qs. work_heap s' x =
        Some \<lparr>wi_func = f, wi_data = d, wi_free = True, wi_exclusive = False, wi_done = False\<rparr>) \<and>
     (\<forall>x. x \<notin> fst ` set qs \<longrightarrow> work_heap s' x = (if x = wi then finished (Some w) else work_heap s x)) \<and>
     ran_of (work_log s') = ran_of (work_log s) @ [wi] \<and>
     queued_of (work_log s') = queued_of (work_log s) @ map fst qs"

lemma process_item_effect:
  assumes fresh: "alloc_fresh queues" and sinks: "rank_sinks queues rank" and w: "work_heap s wi = Some w"
  shows "\<exists>s' qs. process_item (work_call queues effect) wi s = Some s' \<and> round_ok rank wi w qs s s'"
proof -
  let ?s1 = "log_event (Work_run wi) (if wi_exclusive w then log_event Start_exclusive (log_event Bql_unlock s) else s)"
  define qs where "qs = queues (wi_func w) (wi_data w) ?s1"
  define s2 where "s2 = fold (\<lambda>(wi, f, d). async_run_on_cpu wi f d) qs
    (?s1\<lparr>world := effect (wi_func w) (wi_data w) (world ?s1)\<rparr>)"
  have h1: "work_heap ?s1 = work_heap s" by (simp add: log_event_def)
  have d: "distinct (map fst qs)" and n: "\<forall>x \<in> fst ` set qs. work_heap s x = None"
    using fresh h1 unfolding alloc_fresh_def qs_def set_map by metis+
  have r: "\<forall>(x, f, d) \<in> set qs. rank f < rank (wi_func w)" using sinks unfolding rank_sinks_def qs_def by blast
  note q = queue_all [OF d, where s = "?s1\<lparr>world := effect (wi_func w) (wi_data w) (world ?s1)\<rparr>", folded s2_def]
  have wi: "wi \<notin> fst ` set qs" using n w by auto
  have hw: "work_heap s2 wi = Some w" using q(4) [of wi] wi h1 w by simp
  let ?s3 = "if wi_exclusive w then log_event Bql_lock (log_event End_exclusive s2) else s2"
  let ?s4 = "if wi_free w then g_free wi ?s3 else ?s3\<lparr>work_heap := (work_heap ?s3)(wi \<mapsto> w\<lparr>wi_done := True\<rparr>)\<rparr>"
  have s3: "work_list ?s3 = work_list s @ map fst qs" "work_heap ?s3 = work_heap s2"
    "ran_of (work_log ?s3) = ran_of (work_log s) @ [wi]" "queued_of (work_log ?s3) = queued_of (work_log s) @ map fst qs"
    using q(1-3) by (auto simp: log_event_def)
  have "process_item (work_call queues effect) wi s = Some ?s4"
    using w hw s3(2) by (auto simp: process_item_def Let_def work_call_def qs_def s2_def)
  moreover have "work_list ?s4 = work_list s @ map fst qs" "ran_of (work_log ?s4) = ran_of (work_log s) @ [wi]"
    "queued_of (work_log ?s4) = queued_of (work_log s) @ map fst qs"
    using s3 by (simp_all add: g_free_def log_event_def)
  moreover have h4: "work_heap ?s4 x = (if x = wi then finished (Some w) else work_heap s2 x)" for x
    using s3(2) by (simp add: g_free_def log_event_def finished_def)
  moreover have "work_heap ?s4 x = (if x = wi then finished (Some w) else work_heap s x)" if "x \<notin> fst ` set qs" for x
    using h4 [of x] q(4) [of x] that h1 by simp
  moreover have "work_heap ?s4 x = Some \<lparr>wi_func = f, wi_data = d, wi_free = True, wi_exclusive = False, wi_done = False\<rparr>"
    if "(x, f, d) \<in> set qs" for x f d
    using h4 [of x] q(5) [OF that] wi that by force
  ultimately have "round_ok rank wi w qs s ?s4" using d n r by (auto simp: round_ok_def)
  with \<open>process_item (work_call queues effect) wi s = Some ?s4\<close> show ?thesis by blast
qed

text \<open>The ranks of the queued items sink in the multiset order.\<close>

definition ranks :: "(nat \<Rightarrow> nat) \<Rightarrow> 'g cpu_work \<Rightarrow> nat multiset" where
  "ranks rank s = {#rank (wi_func (the (work_heap s wi))). wi \<in># mset (work_list s)#}"

definition drained :: "'g cpu_work \<Rightarrow> 'g cpu_work \<Rightarrow> bool" where
  "drained s s' \<longleftrightarrow> work_list s' = [] \<and>
     (\<exists>new. queued_of (work_log s') = queued_of (work_log s) @ new \<and>
        ran_of (work_log s') = ran_of (work_log s) @ work_list s @ new) \<and>
     work_heap s' = (\<lambda>x. if x \<in> set (work_list s) then finished (work_heap s x) else work_heap s x)"

lemma round_rest:
  assumes "round_ok rank wi w qs (s\<lparr>work_list := rest\<rparr>) s1" "work_list s = wi # rest" "work_ok s" "x \<in> set rest"
  shows "x \<notin> fst ` set qs" "x \<noteq> wi" "work_heap s1 x = work_heap s x"
proof -
  have "work_heap s x \<noteq> None" "\<forall>y \<in> fst ` set qs. work_heap s y = None"
    using assms by (simp_all add: round_ok_def work_ok_def)
  then show qs: "x \<notin> fst ` set qs" by metis
  show wi: "x \<noteq> wi" using assms by (auto simp: work_ok_def)
  show "work_heap s1 x = work_heap s x" using assms(1) qs wi unfolding round_ok_def by simp
qed

lemma round_work_ok:
  assumes "round_ok rank wi w qs (s\<lparr>work_list := rest\<rparr>) s1" "work_list s = wi # rest" "work_ok s"
  shows "work_ok s1"
proof -
  have "work_heap s1 x \<noteq> None" if "x \<in> fst ` set qs" for x
    using that assms(1) unfolding round_ok_def by fastforce
  moreover have "work_heap s1 x \<noteq> None" if "x \<in> set rest" for x
    using round_rest(3) [OF assms that] assms(2,3) that by (simp add: work_ok_def)
  ultimately show ?thesis
    using assms round_rest(1) [OF assms] by (auto simp: work_ok_def round_ok_def)
qed

lemma round_sinks:
  assumes r: "round_ok rank wi w qs (s\<lparr>work_list := rest\<rparr>) s1" "work_list s = wi # rest" "work_ok s"
    and w: "work_heap s wi = Some w"
  shows "(ranks rank s1, ranks rank s) \<in> mult {(x, y). x < y}"
proof -
  let ?R = "{#rank (wi_func (the (work_heap s x))). x \<in># mset rest#}"
  let ?Q = "{#rank (wi_func (the (work_heap s1 x))). x \<in># mset (map fst qs)#}"
  have "ranks rank s = ?R + {#rank (wi_func w)#}" using r(2) w by (simp add: ranks_def)
  moreover have "ranks rank s1 = ?R + ?Q"
  proof -
    have "{#rank (wi_func (the (work_heap s1 x))). x \<in># mset rest#} = ?R"
      by (rule image_mset_cong) (use round_rest(3) [OF r] in simp)
    then show ?thesis using r(1) by (simp add: ranks_def round_ok_def)
  qed
  moreover have "k < rank (wi_func w)" if k: "k \<in># ?Q" for k
  proof -
    from k obtain x f d where "(x, f, d) \<in> set qs" "k = rank (wi_func (the (work_heap s1 x)))" by auto
    with r(1) show ?thesis unfolding round_ok_def by fastforce
  qed
  ultimately show ?thesis using one_step_implies_mult [of "{#rank (wi_func w)#}" ?Q "{(x, y). x < y}" ?R] by simp
qed

lemma round_drained:
  assumes r: "round_ok rank wi w qs (s\<lparr>work_list := rest\<rparr>) s1" "work_list s = wi # rest" "work_ok s"
    and w: "work_heap s wi = Some w" and dr: "drained s1 s'"
  shows "drained s s'"
proof -
  have wl: "set (work_list s1) = set rest \<union> fst ` set qs" using r(1) by (auto simp: round_ok_def)
  have h': "work_heap s' x = (if x \<in> set (work_list s1) then finished (work_heap s1 x) else work_heap s1 x)" for x
    using dr by (simp add: drained_def)
  have wi: "wi \<notin> fst ` set qs" "wi \<notin> set rest" using r w by (auto simp: round_ok_def work_ok_def)
  have "work_heap s' x = (if x \<in> set (work_list s) then finished (work_heap s x) else work_heap s x)" for x
  proof -
    consider "x = wi" | "x \<in> set rest" | "x \<in> fst ` set qs" | "x \<notin> insert wi (set rest \<union> fst ` set qs)" by blast
    then show ?thesis
    proof cases
      case 1
      with wi r w h' [of x] wl show ?thesis unfolding round_ok_def by simp
    next
      case 2
      with h' [of x] wl r(2) round_rest [OF r] show ?thesis by simp
    next
      case 3
      then obtain f d where q: "(x, f, d) \<in> set qs" by auto
      have none: "work_heap s x = None" using 3 r(1) by (auto simp: round_ok_def)
      have "x \<notin> set (work_list s)" using none r(3) by (auto simp: work_ok_def)
      moreover have "finished (work_heap s1 x) = None"
        using r(1) q unfolding round_ok_def by (fastforce simp: finished_def)
      ultimately show ?thesis using none h' [of x] wl 3 by simp
    next
      case 4
      with h' [of x] wl r(1,2) show ?thesis unfolding round_ok_def by simp
    qed
  qed
  then have "work_heap s' = (\<lambda>x. if x \<in> set (work_list s) then finished (work_heap s x) else work_heap s x)" by blast
  then show ?thesis using dr r(1,2) by (auto simp: drained_def round_ok_def)
qed

lemma process_loop_terminates:
  assumes fresh: "alloc_fresh queues" and sinks: "rank_sinks queues rank" and "work_ok s"
  shows "\<exists>s'. process_work_loop (work_call queues effect) s = Some (Ret () s') \<and> drained s s'"
  using wf_mult [OF wf_less] \<open>work_ok s\<close>
proof (induction "ranks rank s" arbitrary: s rule: wf_induct_rule)
  case (less s)
  show ?case
  proof (cases "work_list s")
    case Nil
    then show ?thesis by (subst process_work_loop.simps) (simp add: drained_def)
  next
    case (Cons wi rest)
    obtain w where w: "work_heap s wi = Some w" using less.prems Cons by (auto simp: work_ok_def)
    then have "work_heap (s\<lparr>work_list := rest\<rparr>) wi = Some w" by simp
    from process_item_effect [OF fresh sinks this, where effect = effect] obtain s1 qs where
      s1: "process_item (work_call queues effect) wi (s\<lparr>work_list := rest\<rparr>) = Some s1"
      and r: "round_ok rank wi w qs (s\<lparr>work_list := rest\<rparr>) s1" by blast
    from less.hyps [OF round_sinks [OF r Cons less.prems w] round_work_ok [OF r Cons less.prems]] obtain s' where
      s': "process_work_loop (work_call queues effect) s1 = Some (Ret () s')" "drained s1 s'" by blast
    have "process_work_loop (work_call queues effect) s = Some (Ret () s')"
      using s'(1) s1 Cons by (subst process_work_loop.simps) simp
    with round_drained [OF r Cons less.prems w s'(2)] show ?thesis by blast
  qed
qed

text \<open>
  C11. Processing the work of a CPU ends and is fair. If the work functions queue only work of
  functions of a smaller rank, then \<^verbatim>\<open>process_queued_cpu_work\<close> returns with an empty
  list, whatever mix of synchronous, asynchronous and exclusive items there is. It runs every item
  once, in the order in which the items were queued, those queued meanwhile by work functions
  included; it never touches an item that has been freed, frees each asynchronous item, and marks
  each synchronous one as done. If there was any work, its last step wakes the threads that wait
  for their items. Items that other threads queue meanwhile are not part of the statement.
\<close>

theorem process_work_terminates:
  assumes "alloc_fresh queues" "rank_sinks queues rank" "work_ok s" "work_log s = []"
  shows "\<exists>s'. process_queued_cpu_work (work_call queues effect) s = Some (Ret () s') \<and>
    work_list s' = [] \<and> ran_of (work_log s') = work_list s @ queued_of (work_log s') \<and>
    (\<forall>x. work_heap s' x =
       (if x \<notin> set (work_list s) then work_heap s x
        else case work_heap s x of
          None \<Rightarrow> None
        | Some w \<Rightarrow> if wi_free w then None else Some (w\<lparr>wi_done := True\<rparr>))) \<and>
    (if work_list s = [] then work_log s' = [] else hd (work_log s') = Work_cond_broadcast)"
  using process_loop_terminates [OF assms(1-3), of effect] assms(4)
  by (cases "work_list s = []")
    (auto simp: process_queued_cpu_work_def log_event_def drained_def finished_def split: option.splits)

text \<open>
  A list with a synchronous item and an exclusive one that queues another item, at the first
  address that is not in use.
\<close>

definition example_alloc :: "nat cpu_work \<Rightarrow> nat option" where
  "example_alloc s = find (\<lambda>a. work_heap s a = None) [0..<10]"

definition example_queues :: "nat \<Rightarrow> nat \<Rightarrow> nat cpu_work \<Rightarrow> (nat \<times> nat \<times> nat) list" where
  "example_queues func data s =
     (if func = 1 then case example_alloc s of Some a \<Rightarrow> [(a, 0, data)] | None \<Rightarrow> [] else [])"

definition example_work :: "nat cpu_work" where
  "example_work =
     async_safe_run_on_cpu 1 1 5 (do_run_on_cpu (\<lambda>_ _. id) False 0 0 3
       \<lparr>work_list = [], work_heap = Map.empty, work_log = [], world = 0\<rparr>)\<lparr>work_log := []\<rparr>"

theorem process_work_terminates_witness:
  "\<exists>s'. process_queued_cpu_work (work_call example_queues (\<lambda>_ d w. w + d)) example_work = Some (Ret () s') \<and>
    work_list s' = [] \<and> work_list example_work = [0, 1]"
proof -
  have "work_heap s a = None" if "find (\<lambda>a. work_heap s a = None) xs = Some a" for s :: "nat cpu_work" and a xs
    using that by (induction xs) (auto split: if_splits)
  then have free: "work_heap s a = None" if "example_alloc s = Some a" for s a
    using that unfolding example_alloc_def by blast
  have eq: "\<exists>a. example_queues func data s = [] \<or> func = 1 \<and> work_heap s a = None \<and> example_queues func data s = [(a, 0, data)]"
    for func data s
    using free [of s] unfolding example_queues_def by (cases "example_alloc s"; cases "func = 1"; simp)
  have "alloc_fresh example_queues"
    unfolding alloc_fresh_def
  proof (intro allI)
    fix func data s
    show "distinct (map fst (example_queues func data s)) \<and>
        (\<forall>wi \<in> set (map fst (example_queues func data s)). work_heap s wi = None)"
      using eq [of func data s] by auto
  qed
  moreover have "rank_sinks example_queues (\<lambda>f. f)"
    unfolding rank_sinks_def
  proof (intro allI)
    fix func data s
    show "\<forall>(wi, f, d) \<in> set (example_queues func data s). f < func" using eq [of func data s] by auto
  qed
  moreover have "work_ok example_work" "work_log example_work = []" "work_list example_work = [0, 1]"
    by (simp_all add: work_ok_def example_work_def async_safe_run_on_cpu_def do_run_on_cpu_def
        queue_work_on_cpu_def log_event_def)
  ultimately show ?thesis
    using process_work_terminates [of example_queues "\<lambda>f. f" example_work "\<lambda>_ d w. w + d"] by blast
qed

end
