(* ===== verification/Xtensa_Isa.thy ===== *)
theory Xtensa_Isa
  imports Prelude
begin

text \<open>
  The instruction-set library, \<^verbatim>\<open>target/xtensa/xtensa-isa.c\<close>: queries over the
  tables that describe the instructions of a core, the conversion of instructions from and to
  bytes, and the encoding of operands. The tables are generated code, so the description of a
  core is a value of the record of \<^verbatim>\<open>xtensa-isa-internal.h\<close>, with its function
  pointers as functions (a pointer that may be null as an option).

  A query returns \<^const>\<open>Inl\<close> of the status that it stores in
  \<^verbatim>\<open>xtisa_errno\<close> where it returns its error value, and \<^const>\<open>Inr\<close> of its result
  otherwise; where it returns the error value and stores no status, the status is
  \<open>xtensa_isa_ok\<close>. The texts of error messages are not modelled, and allocation succeeds.
  The sizes of the tables are natural numbers, and an array behind a null pointer is an empty list.
\<close>

section \<open>Tables\<close>

datatype xtensa_isa_status =
  xtensa_isa_ok | xtensa_isa_bad_format | xtensa_isa_bad_slot | xtensa_isa_bad_opcode | xtensa_isa_bad_operand
| xtensa_isa_bad_field | xtensa_isa_bad_iclass | xtensa_isa_bad_regfile | xtensa_isa_bad_sysreg
| xtensa_isa_bad_state | xtensa_isa_bad_interface | xtensa_isa_bad_funcUnit | xtensa_isa_wrong_slot
| xtensa_isa_no_field | xtensa_isa_out_of_memory | xtensa_isa_buffer_overflow | xtensa_isa_internal_error
| xtensa_isa_bad_value

type_synonym 'a isa_result = "xtensa_isa_status + 'a"
type_synonym insnbuf = "nat \<Rightarrow> u32"

abbreviation (input) "XTENSA_UNDEFINED \<equiv> -1 :: int"

record xtensa_format_internal =
  fmt_name :: string
  fmt_length :: int
  fmt_encode_fn :: "insnbuf \<Rightarrow> insnbuf"
  num_slots :: int
  slot_id :: "nat \<Rightarrow> nat"

text \<open>
  Both functions of a slot take the buffer of the instruction and the buffer of the slot;
  \<^verbatim>\<open>get_fn\<close> returns the second as it leaves it, and \<^verbatim>\<open>set_fn\<close> the first.
\<close>

record xtensa_slot_internal =
  slot_name :: string
  slot_format :: string
  slot_position :: int
  get_fn :: "insnbuf \<Rightarrow> insnbuf \<Rightarrow> insnbuf"
  set_fn :: "insnbuf \<Rightarrow> insnbuf \<Rightarrow> insnbuf"
  get_field_fns :: "nat \<Rightarrow> (insnbuf \<Rightarrow> u32) option"
  set_field_fns :: "nat \<Rightarrow> (insnbuf \<Rightarrow> u32 \<Rightarrow> insnbuf) option"
  opcode_decode_fn :: "insnbuf \<Rightarrow> int"
  nop_name :: "string option"

text \<open>The functions of an operand return whether they fail, and the value they leave behind the pointer.\<close>

record xtensa_operand_internal =
  opnd_name :: string
  field_id :: int
  opnd_regfile :: int
  num_regs :: int
  opnd_flags :: u32
  opnd_encode :: "(u32 \<Rightarrow> bool \<times> u32) option"
  opnd_decode :: "(u32 \<Rightarrow> bool \<times> u32) option"
  do_reloc :: "(u32 \<Rightarrow> u32 \<Rightarrow> bool \<times> u32) option"
  undo_reloc :: "(u32 \<Rightarrow> u32 \<Rightarrow> bool \<times> u32) option"

text \<open>The union of an operand and a state number is one field.\<close>

record xtensa_arg_internal =
  arg_id :: int
  inout :: char

record xtensa_iclass_internal =
  num_operands :: int
  ic_operands :: "nat \<Rightarrow> xtensa_arg_internal"
  num_stateOperands :: int
  stateOperands :: "nat \<Rightarrow> xtensa_arg_internal"
  num_interfaceOperands :: int
  interfaceOperands :: "nat \<Rightarrow> int"

record xtensa_funcUnit_use =
  use_unit :: int
  use_stage :: int

record xtensa_opcode_internal =
  opc_name :: string
  iclass_id :: nat
  opc_flags :: u32
  encode_fns :: "nat \<Rightarrow> (insnbuf \<Rightarrow> insnbuf) option"
  num_funcUnit_uses :: int
  funcUnit_uses :: "nat \<Rightarrow> xtensa_funcUnit_use"

record xtensa_regfile_internal =
  rf_name :: string
  rf_shortname :: string
  rf_parent :: int
  rf_num_bits :: int
  rf_num_entries :: int

record xtensa_interface_internal =
  intf_name :: string
  intf_num_bits :: int
  intf_flags :: u32
  intf_class_id :: int
  intf_inout :: char

record xtensa_funcUnit_internal =
  fu_name :: string
  fu_num_copies :: int

record xtensa_state_internal =
  st_name :: string
  st_num_bits :: int
  st_flags :: u32

record xtensa_sysreg_internal =
  sr_name :: string
  sr_number :: int
  sr_is_user :: nat

text \<open>The union of the index types is one field.\<close>

record xtensa_lookup_entry =
  key :: string
  entry_id :: nat

record xtensa_isa_internal =
  is_big_endian :: bool
  insn_size :: nat
  insnbuf_size :: nat
  num_formats :: int
  formats :: "nat \<Rightarrow> xtensa_format_internal"
  format_decode_fn :: "insnbuf \<Rightarrow> int"
  length_decode_fn :: "u8 list \<Rightarrow> int"
  isa_num_slots :: nat
  slots :: "nat \<Rightarrow> xtensa_slot_internal"
  num_fields :: nat
  isa_num_operands :: nat
  operands :: "nat \<Rightarrow> xtensa_operand_internal"
  num_iclasses :: nat
  iclasses :: "nat \<Rightarrow> xtensa_iclass_internal"
  num_opcodes :: nat
  opcodes :: "nat \<Rightarrow> xtensa_opcode_internal"
  opname_lookup_table :: "xtensa_lookup_entry list"
  num_regfiles :: nat
  regfiles :: "nat \<Rightarrow> xtensa_regfile_internal"
  num_states :: nat
  states :: "nat \<Rightarrow> xtensa_state_internal"
  state_lookup_table :: "xtensa_lookup_entry list"
  num_sysregs :: nat
  sysregs :: "nat \<Rightarrow> xtensa_sysreg_internal"
  sysreg_lookup_table :: "xtensa_lookup_entry list"
  max_sysreg_num :: "nat \<Rightarrow> int"
  sysreg_table :: "nat \<Rightarrow> int list"
  num_interfaces :: nat
  interfaces :: "nat \<Rightarrow> xtensa_interface_internal"
  interface_lookup_table :: "xtensa_lookup_entry list"
  num_funcUnits :: nat
  funcUnits :: "nat \<Rightarrow> xtensa_funcUnit_internal"
  funcUnit_lookup_table :: "xtensa_lookup_entry list"
  num_stages :: int

section \<open>Strings and the C library\<close>

definition tolower :: "char \<Rightarrow> nat" where
  "tolower c = (let n = of_char c in if 65 \<le> n \<and> n \<le> 90 then n + 32 else n)"

text \<open>\<^verbatim>\<open>strcasecmp\<close>: the difference of the first characters that differ in more than case.\<close>

fun strcasecmp :: "string \<Rightarrow> string \<Rightarrow> int" where
  "strcasecmp [] [] = 0"
| "strcasecmp [] (d # ds) = - int (tolower d)"
| "strcasecmp (c # cs) [] = int (tolower c)"
| "strcasecmp (c # cs) (d # ds) =
     (if tolower c = tolower d then strcasecmp cs ds else int (tolower c) - int (tolower d))"

definition xtensa_isa_name_compare :: "xtensa_lookup_entry \<Rightarrow> xtensa_lookup_entry \<Rightarrow> int" where
  "xtensa_isa_name_compare e1 e2 = strcasecmp (key e1) (key e2)"

text \<open>\<^verbatim>\<open>bsearch\<close> of the C library, between the indices \<open>l\<close> and \<open>u\<close>.\<close>

function bsearch_loop :: "('a \<Rightarrow> int) \<Rightarrow> 'a list \<Rightarrow> nat \<Rightarrow> nat \<Rightarrow> 'a option" where
  "bsearch_loop compar base l u =
     (if l < u then
        let idx = (l + u) div 2; comparison = compar (base ! idx)
        in if comparison < 0 then bsearch_loop compar base l idx
           else if comparison > 0 then bsearch_loop compar base (idx + 1) u
           else Some (base ! idx)
      else None)"
  by pat_completeness auto
termination
  by (relation "measure (\<lambda>(_, _, l, u). u - l)") auto

declare bsearch_loop.simps [simp del]

definition bsearch :: "'a \<Rightarrow> 'a list \<Rightarrow> nat \<Rightarrow> ('a \<Rightarrow> 'a \<Rightarrow> int) \<Rightarrow> 'a option" where
  "bsearch k base nmemb compar = bsearch_loop (compar k) base 0 nmemb"

section \<open>Instruction buffers\<close>

definition xtensa_insnbuf_size :: "xtensa_isa_internal \<Rightarrow> nat" where
  "xtensa_insnbuf_size isa = insnbuf_size isa"

definition xtensa_isa_maxlength :: "xtensa_isa_internal \<Rightarrow> nat" where
  "xtensa_isa_maxlength isa = insn_size isa"

definition byte_to_word_index :: "nat \<Rightarrow> nat" where
  "byte_to_word_index byte_index = byte_index div 4"

definition byte_to_bit_index :: "nat \<Rightarrow> nat" where
  "byte_to_bit_index byte_index = (byte_index AND 3) * 8"

section \<open>Formats\<close>

definition CHECK_FORMAT :: "xtensa_isa_internal \<Rightarrow> int \<Rightarrow> 'a isa_result \<Rightarrow> 'a isa_result" where
  "CHECK_FORMAT isa fmt k = (if fmt < 0 \<or> fmt \<ge> num_formats isa then Inl xtensa_isa_bad_format else k)"

definition CHECK_SLOT :: "xtensa_isa_internal \<Rightarrow> int \<Rightarrow> int \<Rightarrow> 'a isa_result \<Rightarrow> 'a isa_result" where
  "CHECK_SLOT isa fmt slot k =
     (if slot < 0 \<or> slot \<ge> num_slots (formats isa (nat fmt)) then Inl xtensa_isa_bad_slot else k)"

definition xtensa_format_name :: "xtensa_isa_internal \<Rightarrow> int \<Rightarrow> string isa_result" where
  "xtensa_format_name isa fmt = CHECK_FORMAT isa fmt (Inr (fmt_name (formats isa (nat fmt))))"

fun format_lookup_loop :: "xtensa_isa_internal \<Rightarrow> string \<Rightarrow> nat list \<Rightarrow> int isa_result" where
  "format_lookup_loop isa fmtname [] = Inl xtensa_isa_bad_format"
| "format_lookup_loop isa fmtname (fmt # rest) =
     (if strcasecmp fmtname (fmt_name (formats isa fmt)) = 0 then Inr (int fmt)
      else format_lookup_loop isa fmtname rest)"

text \<open>A name is an option because the pointer may be null.\<close>

definition xtensa_format_lookup :: "xtensa_isa_internal \<Rightarrow> string option \<Rightarrow> int isa_result" where
  "xtensa_format_lookup isa fmtname =
     (case fmtname of
        None \<Rightarrow> Inl xtensa_isa_bad_format
      | Some name \<Rightarrow> if name = [] then Inl xtensa_isa_bad_format
          else format_lookup_loop isa name [0..<nat (num_formats isa)])"

definition xtensa_format_decode :: "xtensa_isa_internal \<Rightarrow> insnbuf \<Rightarrow> int isa_result" where
  "xtensa_format_decode isa insn =
     (let fmt = format_decode_fn isa insn in
      if fmt \<noteq> XTENSA_UNDEFINED then Inr fmt else Inl xtensa_isa_bad_format)"

definition xtensa_format_encode :: "xtensa_isa_internal \<Rightarrow> int \<Rightarrow> insnbuf \<Rightarrow> insnbuf isa_result" where
  "xtensa_format_encode isa fmt insn = CHECK_FORMAT isa fmt (Inr (fmt_encode_fn (formats isa (nat fmt)) insn))"

definition xtensa_format_length :: "xtensa_isa_internal \<Rightarrow> int \<Rightarrow> int isa_result" where
  "xtensa_format_length isa fmt = CHECK_FORMAT isa fmt (Inr (fmt_length (formats isa (nat fmt))))"

definition xtensa_format_num_slots :: "xtensa_isa_internal \<Rightarrow> int \<Rightarrow> int isa_result" where
  "xtensa_format_num_slots isa fmt = CHECK_FORMAT isa fmt (Inr (num_slots (formats isa (nat fmt))))"

definition fmt_slot :: "xtensa_isa_internal \<Rightarrow> int \<Rightarrow> int \<Rightarrow> nat" where
  "fmt_slot isa fmt slot = slot_id (formats isa (nat fmt)) (nat slot)"

definition xtensa_format_get_slot ::
    "xtensa_isa_internal \<Rightarrow> int \<Rightarrow> int \<Rightarrow> insnbuf \<Rightarrow> insnbuf \<Rightarrow> insnbuf isa_result" where
  "xtensa_format_get_slot isa fmt slot insn slotbuf =
     CHECK_FORMAT isa fmt (CHECK_SLOT isa fmt slot (Inr (get_fn (slots isa (fmt_slot isa fmt slot)) insn slotbuf)))"

definition xtensa_format_set_slot ::
    "xtensa_isa_internal \<Rightarrow> int \<Rightarrow> int \<Rightarrow> insnbuf \<Rightarrow> insnbuf \<Rightarrow> insnbuf isa_result" where
  "xtensa_format_set_slot isa fmt slot insn slotbuf =
     CHECK_FORMAT isa fmt (CHECK_SLOT isa fmt slot (Inr (set_fn (slots isa (fmt_slot isa fmt slot)) insn slotbuf)))"

text \<open>
  The loops over the bytes of an instruction, from byte \<open>i\<close> in the direction of the
  increment, for the number of rounds that leads to the fence post.
\<close>

fun to_chars_loop :: "insnbuf \<Rightarrow> int \<Rightarrow> int \<Rightarrow> nat \<Rightarrow> u8 list" where
  "to_chars_loop insn i increment 0 = []"
| "to_chars_loop insn i increment (Suc n) =
     ucast (drop_bit (byte_to_bit_index (nat i)) (insn (byte_to_word_index (nat i))) AND 0xff) #
     to_chars_loop insn (i + increment) increment n"

fun from_chars_loop :: "insnbuf \<Rightarrow> u8 list \<Rightarrow> int \<Rightarrow> int \<Rightarrow> nat \<Rightarrow> insnbuf" where
  "from_chars_loop insn cp i increment 0 = insn"
| "from_chars_loop insn cp i increment (Suc n) =
     from_chars_loop
       (insn(byte_to_word_index (nat i) := insn (byte_to_word_index (nat i)) OR
          push_bit (byte_to_bit_index (nat i)) (ucast (hd cp) AND 0xff)))
       (tl cp) (i + increment) increment n"

definition start_and_increment :: "xtensa_isa_internal \<Rightarrow> int \<times> int" where
  "start_and_increment isa =
     (if is_big_endian isa then (int (xtensa_isa_maxlength isa) - 1, -1) else (0, 1))"

definition xtensa_insnbuf_to_chars :: "xtensa_isa_internal \<Rightarrow> insnbuf \<Rightarrow> int \<Rightarrow> u8 list isa_result" where
  "xtensa_insnbuf_to_chars isa insn num_chars =
     (let num_chars = (if num_chars = 0 then int (xtensa_isa_maxlength isa) else num_chars);
          (start, increment) = start_and_increment isa
      in case xtensa_format_decode isa insn of
           Inl e \<Rightarrow> Inl e
         | Inr fmt \<Rightarrow>
             (case xtensa_format_length isa fmt of
                Inl e \<Rightarrow> Inl e
              | Inr byte_count \<Rightarrow>
                  if byte_count = XTENSA_UNDEFINED then Inl xtensa_isa_ok
                  else if byte_count > num_chars then Inl xtensa_isa_buffer_overflow
                  else Inr (to_chars_loop insn start increment (nat byte_count))))"

definition xtensa_insnbuf_from_chars :: "xtensa_isa_internal \<Rightarrow> insnbuf \<Rightarrow> u8 list \<Rightarrow> int \<Rightarrow> insnbuf" where
  "xtensa_insnbuf_from_chars isa insn cp num_chars =
     (let max_size = int (xtensa_isa_maxlength isa);
          insn_size = length_decode_fn isa cp;
          insn_size = (if insn_size = XTENSA_UNDEFINED then max_size else insn_size);
          num_chars = (if num_chars = 0 \<or> num_chars > insn_size then insn_size else num_chars);
          (start, increment) = start_and_increment isa;
          insn = (\<lambda>w. if w < xtensa_insnbuf_size isa then 0 else insn w)
      in from_chars_loop insn cp start increment (nat num_chars))"

definition xtensa_isa_length_from_chars :: "xtensa_isa_internal \<Rightarrow> u8 list \<Rightarrow> int" where
  "xtensa_isa_length_from_chars isa cp = length_decode_fn isa cp"

section \<open>Initialisation\<close>

definition name_table :: "(nat \<Rightarrow> string) \<Rightarrow> nat \<Rightarrow> xtensa_lookup_entry list" where
  "name_table name n = map (\<lambda>k. \<lparr>key = name k, entry_id = k\<rparr>) [0..<n]"

text \<open>The tables of the special and of the user registers by number, and the loop that fills them.\<close>

definition sysreg_table_init :: "xtensa_isa_internal \<Rightarrow> nat \<Rightarrow> int list" where
  "sysreg_table_init isa is_user =
     (if is_user < 2 then replicate (nat (max_sysreg_num isa is_user + 1)) XTENSA_UNDEFINED
      else sysreg_table isa is_user)"

fun sysreg_number_loop ::
    "(nat \<Rightarrow> xtensa_sysreg_internal) \<Rightarrow> nat list \<Rightarrow> (nat \<Rightarrow> int list) \<Rightarrow> nat \<Rightarrow> int list" where
  "sysreg_number_loop sregs [] tab = tab"
| "sysreg_number_loop sregs (n # ns) tab =
     (let sreg = sregs n; is_user = sr_is_user sreg in
      sysreg_number_loop sregs ns
        (if sr_number sreg \<ge> 0 then tab(is_user := (tab is_user)[nat (sr_number sreg) := int n]) else tab))"

text \<open>\<^verbatim>\<open>qsort\<close> does not say how it orders equal entries, so it is a parameter.\<close>

definition xtensa_isa_init ::
    "(xtensa_lookup_entry list \<Rightarrow> xtensa_lookup_entry list) \<Rightarrow> xtensa_isa_internal \<Rightarrow> xtensa_isa_internal" where
  "xtensa_isa_init qsort isa =
     isa\<lparr>opname_lookup_table := qsort (name_table (\<lambda>n. opc_name (opcodes isa n)) (num_opcodes isa)),
         state_lookup_table := qsort (name_table (\<lambda>n. st_name (states isa n)) (num_states isa)),
         sysreg_lookup_table := qsort (name_table (\<lambda>n. sr_name (sysregs isa n)) (num_sysregs isa)),
         sysreg_table := sysreg_number_loop (sysregs isa) [0..<num_sysregs isa] (sysreg_table_init isa),
         interface_lookup_table := qsort (name_table (\<lambda>n. intf_name (interfaces isa n)) (num_interfaces isa)),
         funcUnit_lookup_table := qsort (name_table (\<lambda>n. fu_name (funcUnits isa n)) (num_funcUnits isa)),
         insnbuf_size := (insn_size isa + 4 - 1) div 4,
         num_stages := XTENSA_UNDEFINED\<rparr>"

definition xtensa_isa_free :: "xtensa_isa_internal \<Rightarrow> xtensa_isa_internal" where
  "xtensa_isa_free isa =
     isa\<lparr>opname_lookup_table := [], state_lookup_table := [], sysreg_lookup_table := [],
         sysreg_table := (sysreg_table isa)(0 := [], 1 := []),
         interface_lookup_table := [], funcUnit_lookup_table := []\<rparr>"

definition xtensa_isa_num_formats :: "xtensa_isa_internal \<Rightarrow> int" where
  "xtensa_isa_num_formats isa = num_formats isa"

definition xtensa_isa_num_opcodes :: "xtensa_isa_internal \<Rightarrow> int" where
  "xtensa_isa_num_opcodes isa = int (num_opcodes isa)"

definition xtensa_isa_num_regfiles :: "xtensa_isa_internal \<Rightarrow> int" where
  "xtensa_isa_num_regfiles isa = int (num_regfiles isa)"

definition xtensa_isa_num_states :: "xtensa_isa_internal \<Rightarrow> int" where
  "xtensa_isa_num_states isa = int (num_states isa)"

definition xtensa_isa_num_sysregs :: "xtensa_isa_internal \<Rightarrow> int" where
  "xtensa_isa_num_sysregs isa = int (num_sysregs isa)"

definition xtensa_isa_num_interfaces :: "xtensa_isa_internal \<Rightarrow> int" where
  "xtensa_isa_num_interfaces isa = int (num_interfaces isa)"

definition xtensa_isa_num_funcUnits :: "xtensa_isa_internal \<Rightarrow> int" where
  "xtensa_isa_num_funcUnits isa = int (num_funcUnits isa)"

section \<open>Opcodes\<close>

definition CHECK_OPCODE :: "xtensa_isa_internal \<Rightarrow> int \<Rightarrow> 'a isa_result \<Rightarrow> 'a isa_result" where
  "CHECK_OPCODE isa opc k = (if opc < 0 \<or> opc \<ge> int (num_opcodes isa) then Inl xtensa_isa_bad_opcode else k)"

text \<open>
  The five lookups by name have the same body, over a table, the number of its entries and
  the status for an unknown name.
\<close>

definition lookup_by_name ::
    "xtensa_isa_status \<Rightarrow> xtensa_lookup_entry list \<Rightarrow> nat \<Rightarrow> string option \<Rightarrow> int isa_result" where
  "lookup_by_name bad tab n name =
     (case name of
        None \<Rightarrow> Inl bad
      | Some s \<Rightarrow>
          if s = [] then Inl bad
          else case (if n \<noteq> 0 then bsearch \<lparr>key = s, entry_id = 0\<rparr> tab n xtensa_isa_name_compare else None) of
                 None \<Rightarrow> Inl bad
               | Some result \<Rightarrow> Inr (int (entry_id result)))"

definition xtensa_opcode_lookup :: "xtensa_isa_internal \<Rightarrow> string option \<Rightarrow> int isa_result" where
  "xtensa_opcode_lookup isa opname =
     lookup_by_name xtensa_isa_bad_opcode (opname_lookup_table isa) (num_opcodes isa) opname"

definition xtensa_format_slot_nop_opcode :: "xtensa_isa_internal \<Rightarrow> int \<Rightarrow> int \<Rightarrow> int isa_result" where
  "xtensa_format_slot_nop_opcode isa fmt slot =
     CHECK_FORMAT isa fmt (CHECK_SLOT isa fmt slot
       (xtensa_opcode_lookup isa (nop_name (slots isa (fmt_slot isa fmt slot)))))"

definition xtensa_opcode_decode :: "xtensa_isa_internal \<Rightarrow> int \<Rightarrow> int \<Rightarrow> insnbuf \<Rightarrow> int isa_result" where
  "xtensa_opcode_decode isa fmt slot slotbuf =
     CHECK_FORMAT isa fmt (CHECK_SLOT isa fmt slot
       (let opc = opcode_decode_fn (slots isa (fmt_slot isa fmt slot)) slotbuf in
        if opc \<noteq> XTENSA_UNDEFINED then Inr opc else Inl xtensa_isa_bad_opcode))"

definition xtensa_opcode_encode ::
    "xtensa_isa_internal \<Rightarrow> int \<Rightarrow> int \<Rightarrow> insnbuf \<Rightarrow> int \<Rightarrow> insnbuf isa_result" where
  "xtensa_opcode_encode isa fmt slot slotbuf opc =
     CHECK_FORMAT isa fmt (CHECK_SLOT isa fmt slot (CHECK_OPCODE isa opc
       (case encode_fns (opcodes isa (nat opc)) (fmt_slot isa fmt slot) of
          None \<Rightarrow> Inl xtensa_isa_wrong_slot
        | Some encode_fn \<Rightarrow> Inr (encode_fn slotbuf))))"

definition xtensa_opcode_name :: "xtensa_isa_internal \<Rightarrow> int \<Rightarrow> string isa_result" where
  "xtensa_opcode_name isa opc = CHECK_OPCODE isa opc (Inr (opc_name (opcodes isa (nat opc))))"

abbreviation (input) "XTENSA_OPCODE_IS_BRANCH \<equiv> 1 :: u32"
abbreviation (input) "XTENSA_OPCODE_IS_JUMP \<equiv> 2 :: u32"
abbreviation (input) "XTENSA_OPCODE_IS_LOOP \<equiv> 4 :: u32"
abbreviation (input) "XTENSA_OPCODE_IS_CALL \<equiv> 8 :: u32"

definition opcode_flag :: "u32 \<Rightarrow> xtensa_isa_internal \<Rightarrow> int \<Rightarrow> bool isa_result" where
  "opcode_flag flag isa opc = CHECK_OPCODE isa opc (Inr (opc_flags (opcodes isa (nat opc)) AND flag \<noteq> 0))"

definition xtensa_opcode_is_branch :: "xtensa_isa_internal \<Rightarrow> int \<Rightarrow> bool isa_result" where
  "xtensa_opcode_is_branch = opcode_flag XTENSA_OPCODE_IS_BRANCH"

definition xtensa_opcode_is_jump :: "xtensa_isa_internal \<Rightarrow> int \<Rightarrow> bool isa_result" where
  "xtensa_opcode_is_jump = opcode_flag XTENSA_OPCODE_IS_JUMP"

definition xtensa_opcode_is_loop :: "xtensa_isa_internal \<Rightarrow> int \<Rightarrow> bool isa_result" where
  "xtensa_opcode_is_loop = opcode_flag XTENSA_OPCODE_IS_LOOP"

definition xtensa_opcode_is_call :: "xtensa_isa_internal \<Rightarrow> int \<Rightarrow> bool isa_result" where
  "xtensa_opcode_is_call = opcode_flag XTENSA_OPCODE_IS_CALL"

definition opc_iclass :: "xtensa_isa_internal \<Rightarrow> int \<Rightarrow> xtensa_iclass_internal" where
  "opc_iclass isa opc = iclasses isa (iclass_id (opcodes isa (nat opc)))"

definition xtensa_opcode_num_operands :: "xtensa_isa_internal \<Rightarrow> int \<Rightarrow> int isa_result" where
  "xtensa_opcode_num_operands isa opc = CHECK_OPCODE isa opc (Inr (num_operands (opc_iclass isa opc)))"

definition xtensa_opcode_num_stateOperands :: "xtensa_isa_internal \<Rightarrow> int \<Rightarrow> int isa_result" where
  "xtensa_opcode_num_stateOperands isa opc = CHECK_OPCODE isa opc (Inr (num_stateOperands (opc_iclass isa opc)))"

definition xtensa_opcode_num_interfaceOperands :: "xtensa_isa_internal \<Rightarrow> int \<Rightarrow> int isa_result" where
  "xtensa_opcode_num_interfaceOperands isa opc =
     CHECK_OPCODE isa opc (Inr (num_interfaceOperands (opc_iclass isa opc)))"

definition xtensa_opcode_num_funcUnit_uses :: "xtensa_isa_internal \<Rightarrow> int \<Rightarrow> int isa_result" where
  "xtensa_opcode_num_funcUnit_uses isa opc =
     CHECK_OPCODE isa opc (Inr (num_funcUnit_uses (opcodes isa (nat opc))))"

definition xtensa_opcode_funcUnit_use :: "xtensa_isa_internal \<Rightarrow> int \<Rightarrow> int \<Rightarrow> xtensa_funcUnit_use isa_result" where
  "xtensa_opcode_funcUnit_use isa opc u =
     CHECK_OPCODE isa opc
       (if u < 0 \<or> u \<ge> num_funcUnit_uses (opcodes isa (nat opc)) then Inl xtensa_isa_bad_funcUnit
        else Inr (funcUnit_uses (opcodes isa (nat opc)) (nat u)))"

text \<open>
  The two loops of \<^verbatim>\<open>xtensa_isa_num_pipe_stages\<close>: the largest stage of the uses of
  one opcode, and of all opcodes.
\<close>

fun max_stage_uses :: "xtensa_opcode_internal \<Rightarrow> nat list \<Rightarrow> int \<Rightarrow> int" where
  "max_stage_uses opc [] max_stage = max_stage"
| "max_stage_uses opc (i # is) max_stage =
     max_stage_uses opc is (if use_stage (funcUnit_uses opc i) > max_stage then use_stage (funcUnit_uses opc i) else max_stage)"

fun max_stage_opcodes :: "(nat \<Rightarrow> xtensa_opcode_internal) \<Rightarrow> nat list \<Rightarrow> int \<Rightarrow> int" where
  "max_stage_opcodes opcs [] max_stage = max_stage"
| "max_stage_opcodes opcs (n # ns) max_stage =
     max_stage_opcodes opcs ns (max_stage_uses (opcs n) [0..<nat (num_funcUnit_uses (opcs n))] max_stage)"

text \<open>The result, and the description with the value that is kept for later calls.\<close>

definition xtensa_isa_num_pipe_stages :: "xtensa_isa_internal \<Rightarrow> int \<times> xtensa_isa_internal" where
  "xtensa_isa_num_pipe_stages isa =
     (if num_stages isa \<noteq> XTENSA_UNDEFINED then (num_stages isa, isa)
      else let max_stage = max_stage_opcodes (opcodes isa) [0..<nat (xtensa_isa_num_opcodes isa)] (-1);
               isa = isa\<lparr>num_stages := max_stage + 1\<rparr>
           in (int (num_states isa), isa))"

section \<open>Operands\<close>

definition CHECK_OPERAND ::
    "xtensa_iclass_internal \<Rightarrow> int \<Rightarrow> 'a isa_result \<Rightarrow> 'a isa_result" where
  "CHECK_OPERAND iclass opnd k =
     (if opnd < 0 \<or> opnd \<ge> num_operands iclass then Inl xtensa_isa_bad_operand else k)"

definition get_operand :: "xtensa_isa_internal \<Rightarrow> int \<Rightarrow> int \<Rightarrow> xtensa_operand_internal isa_result" where
  "get_operand isa opc opnd =
     CHECK_OPCODE isa opc (CHECK_OPERAND (opc_iclass isa opc) opnd
       (Inr (operands isa (nat (arg_id (ic_operands (opc_iclass isa opc) (nat opnd)))))))"

text \<open>The early return when \<^verbatim>\<open>get_operand\<close> fails.\<close>

definition with_operand ::
    "xtensa_isa_internal \<Rightarrow> int \<Rightarrow> int \<Rightarrow> (xtensa_operand_internal \<Rightarrow> 'a isa_result) \<Rightarrow> 'a isa_result" where
  "with_operand isa opc opnd k = (case get_operand isa opc opnd of Inl e \<Rightarrow> Inl e | Inr intop \<Rightarrow> k intop)"

abbreviation (input) "XTENSA_OPERAND_IS_REGISTER \<equiv> 1 :: u32"
abbreviation (input) "XTENSA_OPERAND_IS_PCRELATIVE \<equiv> 2 :: u32"
abbreviation (input) "XTENSA_OPERAND_IS_INVISIBLE \<equiv> 4 :: u32"
abbreviation (input) "XTENSA_OPERAND_IS_UNKNOWN \<equiv> 8 :: u32"

definition xtensa_operand_name :: "xtensa_isa_internal \<Rightarrow> int \<Rightarrow> int \<Rightarrow> string isa_result" where
  "xtensa_operand_name isa opc opnd = with_operand isa opc opnd (\<lambda>intop. Inr (opnd_name intop))"

definition xtensa_operand_is_visible :: "xtensa_isa_internal \<Rightarrow> int \<Rightarrow> int \<Rightarrow> bool isa_result" where
  "xtensa_operand_is_visible isa opc opnd =
     CHECK_OPCODE isa opc (CHECK_OPERAND (opc_iclass isa opc) opnd
       (let arg = ic_operands (opc_iclass isa opc) (nat opnd) in
        if inout arg = CHR ''s'' then Inr False
        else Inr (opnd_flags (operands isa (nat (arg_id arg))) AND XTENSA_OPERAND_IS_INVISIBLE = 0)))"

definition xtensa_operand_inout :: "xtensa_isa_internal \<Rightarrow> int \<Rightarrow> int \<Rightarrow> char isa_result" where
  "xtensa_operand_inout isa opc opnd =
     CHECK_OPCODE isa opc (CHECK_OPERAND (opc_iclass isa opc) opnd
       (let c = inout (ic_operands (opc_iclass isa opc) (nat opnd)) in
        if c = CHR ''s'' then Inr (CHR ''o'')
        else if c = CHR ''t'' then Inr (CHR ''i'')
        else Inr c))"

definition xtensa_operand_get_field ::
    "xtensa_isa_internal \<Rightarrow> int \<Rightarrow> int \<Rightarrow> int \<Rightarrow> int \<Rightarrow> insnbuf \<Rightarrow> u32 isa_result" where
  "xtensa_operand_get_field isa opc opnd fmt slot slotbuf =
     with_operand isa opc opnd (\<lambda>intop. CHECK_FORMAT isa fmt (CHECK_SLOT isa fmt slot
       (if field_id intop = XTENSA_UNDEFINED then Inl xtensa_isa_no_field
        else case get_field_fns (slots isa (fmt_slot isa fmt slot)) (nat (field_id intop)) of
               None \<Rightarrow> Inl xtensa_isa_wrong_slot
             | Some getf \<Rightarrow> Inr (getf slotbuf))))"

definition xtensa_operand_set_field ::
    "xtensa_isa_internal \<Rightarrow> int \<Rightarrow> int \<Rightarrow> int \<Rightarrow> int \<Rightarrow> insnbuf \<Rightarrow> u32 \<Rightarrow> insnbuf isa_result" where
  "xtensa_operand_set_field isa opc opnd fmt slot slotbuf val =
     with_operand isa opc opnd (\<lambda>intop. CHECK_FORMAT isa fmt (CHECK_SLOT isa fmt slot
       (if field_id intop = XTENSA_UNDEFINED then Inl xtensa_isa_no_field
        else case set_field_fns (slots isa (fmt_slot isa fmt slot)) (nat (field_id intop)) of
               None \<Rightarrow> Inl xtensa_isa_wrong_slot
             | Some setf \<Rightarrow> Inr (setf slotbuf val))))"

text \<open>
  The loop that finds some slot with the field of a default operand; it returns the result and
  the static buffer in which the value was tried. The value itself stays.
\<close>

fun encode_slot_loop ::
    "xtensa_isa_internal \<Rightarrow> nat \<Rightarrow> u32 \<Rightarrow> insnbuf \<Rightarrow> nat list \<Rightarrow> unit isa_result \<times> insnbuf" where
  "encode_slot_loop isa field val tmpbuf [] = (Inl xtensa_isa_no_field, tmpbuf)"
| "encode_slot_loop isa field val tmpbuf (n # ns) =
     (case (get_field_fns (slots isa n) field, set_field_fns (slots isa n) field) of
        (Some getf, Some setf) \<Rightarrow>
          (let tmpbuf = setf tmpbuf val in
           (if getf tmpbuf \<noteq> val then Inl xtensa_isa_ok else Inr (), tmpbuf))
      | _ \<Rightarrow> encode_slot_loop isa field val tmpbuf ns)"

text \<open>
  \<^verbatim>\<open>xtensa_operand_encode\<close> returns its result, the value behind \<^verbatim>\<open>valp\<close> and the
  static buffer. \<^const>\<open>None\<close> is the call of a null pointer, for an operand that has an
  encoding function and no decoding function.
\<close>

definition xtensa_operand_encode ::
    "xtensa_isa_internal \<Rightarrow> insnbuf \<Rightarrow> int \<Rightarrow> int \<Rightarrow> u32 \<Rightarrow> (unit isa_result \<times> u32 \<times> insnbuf) option" where
  "xtensa_operand_encode isa tmpbuf opc opnd val =
     (case get_operand isa opc opnd of
        Inl e \<Rightarrow> Some (Inl e, val, tmpbuf)
      | Inr intop \<Rightarrow>
          (case opnd_encode intop of
             None \<Rightarrow>
               if field_id intop = XTENSA_UNDEFINED then Some (Inl xtensa_isa_internal_error, val, tmpbuf)
               else let (res, tmpbuf) = encode_slot_loop isa (nat (field_id intop)) val tmpbuf [0..<isa_num_slots isa]
                    in Some (res, val, tmpbuf)
           | Some encode \<Rightarrow>
               let orig_val = val; (failed, val) = encode val in
               if failed then Some (Inl xtensa_isa_bad_value, val, tmpbuf)
               else case opnd_decode intop of
                      None \<Rightarrow> None
                    | Some decode \<Rightarrow>
                        let (failed, test_val) = decode val in
                        if failed \<or> test_val \<noteq> orig_val then Some (Inl xtensa_isa_bad_value, val, tmpbuf)
                        else Some (Inr (), val, tmpbuf)))"

text \<open>The functions below return their result and the value behind \<^verbatim>\<open>valp\<close>.\<close>

definition xtensa_operand_decode :: "xtensa_isa_internal \<Rightarrow> int \<Rightarrow> int \<Rightarrow> u32 \<Rightarrow> unit isa_result \<times> u32" where
  "xtensa_operand_decode isa opc opnd val =
     (case get_operand isa opc opnd of
        Inl e \<Rightarrow> (Inl e, val)
      | Inr intop \<Rightarrow>
          (case opnd_decode intop of
             None \<Rightarrow> (Inr (), val)
           | Some decode \<Rightarrow>
               let (failed, val) = decode val in
               if failed then (Inl xtensa_isa_bad_value, val) else (Inr (), val)))"

definition xtensa_operand_is_register :: "xtensa_isa_internal \<Rightarrow> int \<Rightarrow> int \<Rightarrow> bool isa_result" where
  "xtensa_operand_is_register isa opc opnd =
     with_operand isa opc opnd (\<lambda>intop. Inr (opnd_flags intop AND XTENSA_OPERAND_IS_REGISTER \<noteq> 0))"

definition xtensa_operand_regfile :: "xtensa_isa_internal \<Rightarrow> int \<Rightarrow> int \<Rightarrow> int isa_result" where
  "xtensa_operand_regfile isa opc opnd = with_operand isa opc opnd (\<lambda>intop. Inr (opnd_regfile intop))"

definition xtensa_operand_num_regs :: "xtensa_isa_internal \<Rightarrow> int \<Rightarrow> int \<Rightarrow> int isa_result" where
  "xtensa_operand_num_regs isa opc opnd = with_operand isa opc opnd (\<lambda>intop. Inr (num_regs intop))"

definition xtensa_operand_is_known_reg :: "xtensa_isa_internal \<Rightarrow> int \<Rightarrow> int \<Rightarrow> bool isa_result" where
  "xtensa_operand_is_known_reg isa opc opnd =
     with_operand isa opc opnd (\<lambda>intop. Inr (opnd_flags intop AND XTENSA_OPERAND_IS_UNKNOWN = 0))"

definition xtensa_operand_is_PCrelative :: "xtensa_isa_internal \<Rightarrow> int \<Rightarrow> int \<Rightarrow> bool isa_result" where
  "xtensa_operand_is_PCrelative isa opc opnd =
     with_operand isa opc opnd (\<lambda>intop. Inr (opnd_flags intop AND XTENSA_OPERAND_IS_PCRELATIVE \<noteq> 0))"

definition xtensa_operand_do_reloc ::
    "xtensa_isa_internal \<Rightarrow> int \<Rightarrow> int \<Rightarrow> u32 \<Rightarrow> u32 \<Rightarrow> unit isa_result \<times> u32" where
  "xtensa_operand_do_reloc isa opc opnd val pc =
     (case get_operand isa opc opnd of
        Inl e \<Rightarrow> (Inl e, val)
      | Inr intop \<Rightarrow>
          if opnd_flags intop AND XTENSA_OPERAND_IS_PCRELATIVE = 0 then (Inr (), val)
          else case do_reloc intop of
                 None \<Rightarrow> (Inl xtensa_isa_internal_error, val)
               | Some reloc \<Rightarrow>
                   let (failed, val) = reloc val pc in
                   if failed then (Inl xtensa_isa_bad_value, val) else (Inr (), val))"

definition xtensa_operand_undo_reloc ::
    "xtensa_isa_internal \<Rightarrow> int \<Rightarrow> int \<Rightarrow> u32 \<Rightarrow> u32 \<Rightarrow> unit isa_result \<times> u32" where
  "xtensa_operand_undo_reloc isa opc opnd val pc =
     (case get_operand isa opc opnd of
        Inl e \<Rightarrow> (Inl e, val)
      | Inr intop \<Rightarrow>
          if opnd_flags intop AND XTENSA_OPERAND_IS_PCRELATIVE = 0 then (Inr (), val)
          else case undo_reloc intop of
                 None \<Rightarrow> (Inl xtensa_isa_internal_error, val)
               | Some reloc \<Rightarrow>
                   let (failed, val) = reloc val pc in
                   if failed then (Inl xtensa_isa_bad_value, val) else (Inr (), val))"

section \<open>State and interface operands\<close>

definition CHECK_STATE_OPERAND :: "xtensa_iclass_internal \<Rightarrow> int \<Rightarrow> 'a isa_result \<Rightarrow> 'a isa_result" where
  "CHECK_STATE_OPERAND iclass stOp k =
     (if stOp < 0 \<or> stOp \<ge> num_stateOperands iclass then Inl xtensa_isa_bad_operand else k)"

definition xtensa_stateOperand_state :: "xtensa_isa_internal \<Rightarrow> int \<Rightarrow> int \<Rightarrow> int isa_result" where
  "xtensa_stateOperand_state isa opc stOp =
     CHECK_OPCODE isa opc (CHECK_STATE_OPERAND (opc_iclass isa opc) stOp
       (Inr (arg_id (stateOperands (opc_iclass isa opc) (nat stOp)))))"

definition xtensa_stateOperand_inout :: "xtensa_isa_internal \<Rightarrow> int \<Rightarrow> int \<Rightarrow> char isa_result" where
  "xtensa_stateOperand_inout isa opc stOp =
     CHECK_OPCODE isa opc (CHECK_STATE_OPERAND (opc_iclass isa opc) stOp
       (Inr (inout (stateOperands (opc_iclass isa opc) (nat stOp)))))"

definition CHECK_INTERFACE_OPERAND :: "xtensa_iclass_internal \<Rightarrow> int \<Rightarrow> 'a isa_result \<Rightarrow> 'a isa_result" where
  "CHECK_INTERFACE_OPERAND iclass ifOp k =
     (if ifOp < 0 \<or> ifOp \<ge> num_interfaceOperands iclass then Inl xtensa_isa_bad_operand else k)"

definition xtensa_interfaceOperand_interface :: "xtensa_isa_internal \<Rightarrow> int \<Rightarrow> int \<Rightarrow> int isa_result" where
  "xtensa_interfaceOperand_interface isa opc ifOp =
     CHECK_OPCODE isa opc (CHECK_INTERFACE_OPERAND (opc_iclass isa opc) ifOp
       (Inr (interfaceOperands (opc_iclass isa opc) (nat ifOp))))"

section \<open>Register files\<close>

definition CHECK_REGFILE :: "xtensa_isa_internal \<Rightarrow> int \<Rightarrow> 'a isa_result \<Rightarrow> 'a isa_result" where
  "CHECK_REGFILE isa rf k = (if rf < 0 \<or> rf \<ge> int (num_regfiles isa) then Inl xtensa_isa_bad_regfile else k)"

text \<open>The linear searches: the first register file in the list that satisfies the condition.\<close>

fun regfile_search :: "(nat \<Rightarrow> bool) \<Rightarrow> nat list \<Rightarrow> int isa_result" where
  "regfile_search ok [] = Inl xtensa_isa_bad_regfile"
| "regfile_search ok (n # ns) = (if ok n then Inr (int n) else regfile_search ok ns)"

definition xtensa_regfile_lookup :: "xtensa_isa_internal \<Rightarrow> string option \<Rightarrow> int isa_result" where
  "xtensa_regfile_lookup isa name =
     (case name of
        None \<Rightarrow> Inl xtensa_isa_bad_regfile
      | Some s \<Rightarrow> if s = [] then Inl xtensa_isa_bad_regfile
          else regfile_search (\<lambda>n. rf_name (regfiles isa n) = s) [0..<num_regfiles isa])"

definition xtensa_regfile_lookup_shortname :: "xtensa_isa_internal \<Rightarrow> string option \<Rightarrow> int isa_result" where
  "xtensa_regfile_lookup_shortname isa shortname =
     (case shortname of
        None \<Rightarrow> Inl xtensa_isa_bad_regfile
      | Some s \<Rightarrow> if s = [] then Inl xtensa_isa_bad_regfile
          else regfile_search
                 (\<lambda>n. rf_parent (regfiles isa n) = int n \<and> rf_shortname (regfiles isa n) = s) [0..<num_regfiles isa])"

definition xtensa_regfile_name :: "xtensa_isa_internal \<Rightarrow> int \<Rightarrow> string isa_result" where
  "xtensa_regfile_name isa rf = CHECK_REGFILE isa rf (Inr (rf_name (regfiles isa (nat rf))))"

definition xtensa_regfile_shortname :: "xtensa_isa_internal \<Rightarrow> int \<Rightarrow> string isa_result" where
  "xtensa_regfile_shortname isa rf = CHECK_REGFILE isa rf (Inr (rf_shortname (regfiles isa (nat rf))))"

definition xtensa_regfile_view_parent :: "xtensa_isa_internal \<Rightarrow> int \<Rightarrow> int isa_result" where
  "xtensa_regfile_view_parent isa rf = CHECK_REGFILE isa rf (Inr (rf_parent (regfiles isa (nat rf))))"

definition xtensa_regfile_num_bits :: "xtensa_isa_internal \<Rightarrow> int \<Rightarrow> int isa_result" where
  "xtensa_regfile_num_bits isa rf = CHECK_REGFILE isa rf (Inr (rf_num_bits (regfiles isa (nat rf))))"

definition xtensa_regfile_num_entries :: "xtensa_isa_internal \<Rightarrow> int \<Rightarrow> int isa_result" where
  "xtensa_regfile_num_entries isa rf = CHECK_REGFILE isa rf (Inr (rf_num_entries (regfiles isa (nat rf))))"

section \<open>States\<close>

definition CHECK_STATE :: "xtensa_isa_internal \<Rightarrow> int \<Rightarrow> 'a isa_result \<Rightarrow> 'a isa_result" where
  "CHECK_STATE isa st k = (if st < 0 \<or> st \<ge> int (num_states isa) then Inl xtensa_isa_bad_state else k)"

definition xtensa_state_lookup :: "xtensa_isa_internal \<Rightarrow> string option \<Rightarrow> int isa_result" where
  "xtensa_state_lookup isa name =
     lookup_by_name xtensa_isa_bad_state (state_lookup_table isa) (num_states isa) name"

definition xtensa_state_name :: "xtensa_isa_internal \<Rightarrow> int \<Rightarrow> string isa_result" where
  "xtensa_state_name isa st = CHECK_STATE isa st (Inr (st_name (states isa (nat st))))"

definition xtensa_state_num_bits :: "xtensa_isa_internal \<Rightarrow> int \<Rightarrow> int isa_result" where
  "xtensa_state_num_bits isa st = CHECK_STATE isa st (Inr (st_num_bits (states isa (nat st))))"

abbreviation (input) "XTENSA_STATE_IS_EXPORTED \<equiv> 1 :: u32"
abbreviation (input) "XTENSA_STATE_IS_SHARED_OR \<equiv> 2 :: u32"

definition xtensa_state_is_exported :: "xtensa_isa_internal \<Rightarrow> int \<Rightarrow> bool isa_result" where
  "xtensa_state_is_exported isa st =
     CHECK_STATE isa st (Inr (st_flags (states isa (nat st)) AND XTENSA_STATE_IS_EXPORTED \<noteq> 0))"

definition xtensa_state_is_shared_or :: "xtensa_isa_internal \<Rightarrow> int \<Rightarrow> bool isa_result" where
  "xtensa_state_is_shared_or isa st =
     CHECK_STATE isa st (Inr (st_flags (states isa (nat st)) AND XTENSA_STATE_IS_SHARED_OR \<noteq> 0))"

section \<open>System registers\<close>

definition CHECK_SYSREG :: "xtensa_isa_internal \<Rightarrow> int \<Rightarrow> 'a isa_result \<Rightarrow> 'a isa_result" where
  "CHECK_SYSREG isa sysreg k =
     (if sysreg < 0 \<or> sysreg \<ge> int (num_sysregs isa) then Inl xtensa_isa_bad_sysreg else k)"

definition xtensa_sysreg_lookup :: "xtensa_isa_internal \<Rightarrow> int \<Rightarrow> int \<Rightarrow> int isa_result" where
  "xtensa_sysreg_lookup isa num is_user =
     (let is_user = (if is_user \<noteq> 0 then 1 else 0) in
      if num < 0 \<or> num > max_sysreg_num isa is_user \<or> sysreg_table isa is_user ! nat num = XTENSA_UNDEFINED
      then Inl xtensa_isa_bad_sysreg
      else Inr (sysreg_table isa is_user ! nat num))"

definition xtensa_sysreg_lookup_name :: "xtensa_isa_internal \<Rightarrow> string option \<Rightarrow> int isa_result" where
  "xtensa_sysreg_lookup_name isa name =
     lookup_by_name xtensa_isa_bad_sysreg (sysreg_lookup_table isa) (num_sysregs isa) name"

definition xtensa_sysreg_name :: "xtensa_isa_internal \<Rightarrow> int \<Rightarrow> string isa_result" where
  "xtensa_sysreg_name isa sysreg = CHECK_SYSREG isa sysreg (Inr (sr_name (sysregs isa (nat sysreg))))"

definition xtensa_sysreg_number :: "xtensa_isa_internal \<Rightarrow> int \<Rightarrow> int isa_result" where
  "xtensa_sysreg_number isa sysreg = CHECK_SYSREG isa sysreg (Inr (sr_number (sysregs isa (nat sysreg))))"

definition xtensa_sysreg_is_user :: "xtensa_isa_internal \<Rightarrow> int \<Rightarrow> bool isa_result" where
  "xtensa_sysreg_is_user isa sysreg = CHECK_SYSREG isa sysreg (Inr (sr_is_user (sysregs isa (nat sysreg)) \<noteq> 0))"

section \<open>Interfaces and functional units\<close>

definition CHECK_INTERFACE :: "xtensa_isa_internal \<Rightarrow> int \<Rightarrow> 'a isa_result \<Rightarrow> 'a isa_result" where
  "CHECK_INTERFACE isa intf k =
     (if intf < 0 \<or> intf \<ge> int (num_interfaces isa) then Inl xtensa_isa_bad_interface else k)"

definition xtensa_interface_lookup :: "xtensa_isa_internal \<Rightarrow> string option \<Rightarrow> int isa_result" where
  "xtensa_interface_lookup isa ifname =
     lookup_by_name xtensa_isa_bad_interface (interface_lookup_table isa) (num_interfaces isa) ifname"

definition xtensa_interface_name :: "xtensa_isa_internal \<Rightarrow> int \<Rightarrow> string isa_result" where
  "xtensa_interface_name isa intf = CHECK_INTERFACE isa intf (Inr (intf_name (interfaces isa (nat intf))))"

definition xtensa_interface_num_bits :: "xtensa_isa_internal \<Rightarrow> int \<Rightarrow> int isa_result" where
  "xtensa_interface_num_bits isa intf = CHECK_INTERFACE isa intf (Inr (intf_num_bits (interfaces isa (nat intf))))"

definition xtensa_interface_inout :: "xtensa_isa_internal \<Rightarrow> int \<Rightarrow> char isa_result" where
  "xtensa_interface_inout isa intf = CHECK_INTERFACE isa intf (Inr (intf_inout (interfaces isa (nat intf))))"

abbreviation (input) "XTENSA_INTERFACE_HAS_SIDE_EFFECT \<equiv> 1 :: u32"

definition xtensa_interface_has_side_effect :: "xtensa_isa_internal \<Rightarrow> int \<Rightarrow> bool isa_result" where
  "xtensa_interface_has_side_effect isa intf =
     CHECK_INTERFACE isa intf (Inr (intf_flags (interfaces isa (nat intf)) AND XTENSA_INTERFACE_HAS_SIDE_EFFECT \<noteq> 0))"

definition xtensa_interface_class_id :: "xtensa_isa_internal \<Rightarrow> int \<Rightarrow> int isa_result" where
  "xtensa_interface_class_id isa intf = CHECK_INTERFACE isa intf (Inr (intf_class_id (interfaces isa (nat intf))))"

definition CHECK_FUNCUNIT :: "xtensa_isa_internal \<Rightarrow> int \<Rightarrow> 'a isa_result \<Rightarrow> 'a isa_result" where
  "CHECK_FUNCUNIT isa fu k =
     (if fu < 0 \<or> fu \<ge> int (num_funcUnits isa) then Inl xtensa_isa_bad_funcUnit else k)"

definition xtensa_funcUnit_lookup :: "xtensa_isa_internal \<Rightarrow> string option \<Rightarrow> int isa_result" where
  "xtensa_funcUnit_lookup isa fname =
     lookup_by_name xtensa_isa_bad_funcUnit (funcUnit_lookup_table isa) (num_funcUnits isa) fname"

definition xtensa_funcUnit_name :: "xtensa_isa_internal \<Rightarrow> int \<Rightarrow> string isa_result" where
  "xtensa_funcUnit_name isa fu = CHECK_FUNCUNIT isa fu (Inr (fu_name (funcUnits isa (nat fu))))"

definition xtensa_funcUnit_num_copies :: "xtensa_isa_internal \<Rightarrow> int \<Rightarrow> int isa_result" where
  "xtensa_funcUnit_num_copies isa fu = CHECK_FUNCUNIT isa fu (Inr (fu_num_copies (funcUnits isa (nat fu))))"

end
