(* ===== verification/Xtensa_Isa_Correct.thy ===== *)
theory Xtensa_Isa_Correct
  imports Xtensa_Isa "HOL-Library.List_Lexorder" "HOL-Library.Multiset"
begin

text \<open>
  What the instruction-set library promises: the lookups by name and by number agree with the
  tables they are built from, bytes and instruction buffers convert into each other in both byte
  orders, and an operand value that is accepted survives encoding, the field of its slot, and
  decoding.
\<close>

section \<open>Comparison of names\<close>

definition c_string :: "string \<Rightarrow> bool" where
  "c_string s = list_all (\<lambda>c. of_char c \<noteq> (0 :: nat)) s"

definition lowercase :: "string \<Rightarrow> nat list" where
  "lowercase s = map tolower s"

lemma tolower_pos: "of_char c \<noteq> (0 :: nat) \<Longrightarrow> 0 < tolower c"
  by (simp add: tolower_def Let_def)

lemma strcasecmp_lexorder:
  assumes "c_string s" and "c_string t"
  shows "(strcasecmp s t < 0) = (lowercase s < lowercase t)"
    and "(strcasecmp s t = 0) = (lowercase s = lowercase t)"
  using assms
  by (induction s t rule: strcasecmp.induct) (auto simp: lowercase_def c_string_def tolower_pos)

lemma strcasecmp_le:
  "c_string s \<Longrightarrow> c_string t \<Longrightarrow> (strcasecmp s t \<le> 0) = (lowercase s \<le> lowercase t)"
  using strcasecmp_lexorder [of s t] by (auto simp: le_less)

section \<open>Binary search\<close>

text \<open>
  \<open>ordered_for f xs\<close>: the comparison with the key is positive on a first part of the list,
  negative on a last part, and zero in between.
\<close>

definition ordered_for :: "('a \<Rightarrow> int) \<Rightarrow> 'a list \<Rightarrow> bool" where
  "ordered_for f xs =
     (\<forall>i j. i < j \<longrightarrow> j < length xs \<longrightarrow> (0 < f (xs ! j) \<longrightarrow> 0 < f (xs ! i)) \<and> (f (xs ! i) < 0 \<longrightarrow> f (xs ! j) < 0))"

lemma ordered_forD:
  assumes "ordered_for f xs" and "i \<le> j" and "j < length xs"
  shows "0 < f (xs ! j) \<Longrightarrow> 0 < f (xs ! i)" and "f (xs ! i) < 0 \<Longrightarrow> f (xs ! j) < 0"
  using assms unfolding ordered_for_def by (metis le_eq_less_or_eq)+

lemma bsearch_loop_Some:
  "bsearch_loop f xs l u = Some x \<Longrightarrow> \<exists>i. l \<le> i \<and> i < u \<and> x = xs ! i \<and> f x = 0"
proof (induction f xs l u rule: bsearch_loop.induct)
  case (1 f xs l u)
  have lu: "l < u"
    using "1.prems" by (subst (asm) bsearch_loop.simps) (auto split: if_splits)
  define m where "m = (l + u) div 2"
  have m: "l \<le> m" "m < u"
    using lu by (auto simp: m_def)
  consider "f (xs ! m) < 0" | "0 < f (xs ! m)" | "f (xs ! m) = 0"
    by linarith
  then show ?case
  proof cases
    case a: 1
    have "bsearch_loop f xs l m = Some x"
      using "1.prems" lu a by (subst (asm) bsearch_loop.simps) (simp add: m_def [symmetric] Let_def)
    then obtain i where "l \<le> i" "i < m" "x = xs ! i" "f x = 0"
      using "1.IH"(1) [OF lu m_def refl a] by blast
    then show ?thesis
      using m by (intro exI [of _ i]) simp
  next
    case b: 2
    have "bsearch_loop f xs (m + 1) u = Some x"
      using "1.prems" lu b by (subst (asm) bsearch_loop.simps) (simp add: m_def [symmetric] Let_def)
    then obtain i where "m + 1 \<le> i" "i < u" "x = xs ! i" "f x = 0"
      using "1.IH"(2) [OF lu m_def refl _ b] b by auto
    then show ?thesis
      using m by (intro exI [of _ i]) simp
  next
    case 3
    then show ?thesis
      using "1.prems" lu m by (subst (asm) bsearch_loop.simps) (auto simp: m_def [symmetric] Let_def)
  qed
qed

lemma bsearch_loop_None:
  "ordered_for f xs \<Longrightarrow> u \<le> length xs \<Longrightarrow> bsearch_loop f xs l u = None \<Longrightarrow>
   l \<le> i \<Longrightarrow> i < u \<Longrightarrow> f (xs ! i) \<noteq> 0"
proof (induction f xs l u rule: bsearch_loop.induct)
  case (1 f xs l u)
  have lu: "l < u"
    using "1.prems" by simp
  define m where "m = (l + u) div 2"
  have m: "l \<le> m" "m < u"
    using lu by (auto simp: m_def)
  consider "f (xs ! m) < 0" | "0 < f (xs ! m)" | "f (xs ! m) = 0"
    by linarith
  then show ?case
  proof cases
    case a: 1
    have n: "bsearch_loop f xs l m = None"
      using "1.prems"(3) lu a by (subst (asm) bsearch_loop.simps) (simp add: m_def [symmetric] Let_def)
    show ?thesis
    proof (cases "i < m")
      case True
      then show ?thesis
        using "1.IH"(1) [OF lu m_def refl a "1.prems"(1) _ n "1.prems"(4)] "1.prems"(2) m by simp
    next
      case False
      then show ?thesis
        using ordered_forD(2) [OF "1.prems"(1), of m i] a "1.prems" by simp
    qed
  next
    case b: 2
    have n: "bsearch_loop f xs (m + 1) u = None"
      using "1.prems"(3) lu b by (subst (asm) bsearch_loop.simps) (simp add: m_def [symmetric] Let_def)
    show ?thesis
    proof (cases "m < i")
      case True
      then show ?thesis
        using "1.IH"(2) [OF lu m_def refl _ b "1.prems"(1,2) n] b "1.prems"(5) by simp
    next
      case False
      then show ?thesis
        using ordered_forD(1) [OF "1.prems"(1), of i m] b "1.prems" m by simp
    qed
  next
    case 3
    then show ?thesis
      using "1.prems"(3) lu by (subst (asm) bsearch_loop.simps) (simp add: m_def [symmetric] Let_def)
  qed
qed

section \<open>Lookups by name\<close>

text \<open>
  \<^verbatim>\<open>qsort\<close> of the C library, with the comparison of the lookup tables: it permutes its
  argument into an order that the comparison accepts.
\<close>

definition qsort_sorts :: "(xtensa_lookup_entry list \<Rightarrow> xtensa_lookup_entry list) \<Rightarrow> bool" where
  "qsort_sorts qsort =
     (\<forall>es. list_all (\<lambda>e. c_string (key e)) es \<longrightarrow>
        mset (qsort es) = mset es \<and> sorted_wrt (\<lambda>a b. xtensa_isa_name_compare a b \<le> 0) (qsort es))"

lemma qsort_sorts_sort_key: "qsort_sorts (sort_key (\<lambda>e. lowercase (key e)))"
  unfolding qsort_sorts_def
proof (intro allI impI conjI)
  fix es :: "xtensa_lookup_entry list"
  assume "list_all (\<lambda>e. c_string (key e)) es"
  then have c: "c_string (key e)" if "e \<in> set (sort_key (\<lambda>e. lowercase (key e)) es)" for e
    using that by (simp add: list_all_iff)
  have "sorted_wrt (\<lambda>a b. lowercase (key a) \<le> lowercase (key b)) (sort_key (\<lambda>e. lowercase (key e)) es)"
    using sorted_sort_key [of "\<lambda>e. lowercase (key e)" es] by (simp add: sorted_map)
  then show "sorted_wrt (\<lambda>a b. xtensa_isa_name_compare a b \<le> 0) (sort_key (\<lambda>e. lowercase (key e)) es)"
    using c by (auto simp: xtensa_isa_name_compare_def strcasecmp_le intro: sorted_wrt_mono_rel [rotated])
qed simp

lemma qsort_entries:
  assumes "qsort_sorts qsort" and "list_all (\<lambda>k. c_string (name k)) [0..<n]"
  defines "tab \<equiv> qsort (name_table name n)"
  shows "length tab = n" and "set tab = (\<lambda>k. \<lparr>key = name k, entry_id = k\<rparr>) ` {..<n}"
    and "sorted_wrt (\<lambda>a b. xtensa_isa_name_compare a b \<le> 0) tab"
proof -
  have "list_all (\<lambda>e. c_string (key e)) (name_table name n)"
    using assms(2) by (simp add: name_table_def list_all_iff)
  then have m: "mset tab = mset (name_table name n)"
    and s: "sorted_wrt (\<lambda>a b. xtensa_isa_name_compare a b \<le> 0) tab"
    using assms(1) unfolding qsort_sorts_def tab_def by blast+
  show "length tab = n"
    using mset_eq_length [OF m] by (simp add: name_table_def)
  show "set tab = (\<lambda>k. \<lparr>key = name k, entry_id = k\<rparr>) ` {..<n}"
    using mset_eq_setD [OF m] by (simp add: name_table_def lessThan_atLeast0)
  show "sorted_wrt (\<lambda>a b. xtensa_isa_name_compare a b \<le> 0) tab"
    by (fact s)
qed

lemma sorted_names_ordered_for:
  assumes "sorted_wrt (\<lambda>a b. xtensa_isa_name_compare a b \<le> 0) tab"
    and "\<forall>e \<in> set tab. c_string (key e)" and "c_string (key k)"
  shows "ordered_for (xtensa_isa_name_compare k) tab"
  unfolding ordered_for_def
proof (intro allI impI)
  fix i j assume ij: "i < j" "j < length tab"
  have c: "c_string (key (tab ! i))" "c_string (key (tab ! j))"
    using assms(2) ij by auto
  have le: "lowercase (key (tab ! i)) \<le> lowercase (key (tab ! j))"
    using sorted_wrt_nth_less [OF assms(1) ij] c by (simp add: xtensa_isa_name_compare_def strcasecmp_le)
  have pos: "(0 < xtensa_isa_name_compare k e) = (lowercase (key e) < lowercase (key k))" if "c_string (key e)" for e
    using strcasecmp_le [OF assms(3) that] by (auto simp: xtensa_isa_name_compare_def not_le [symmetric])
  have neg: "(xtensa_isa_name_compare k e < 0) = (lowercase (key k) < lowercase (key e))" if "c_string (key e)" for e
    using strcasecmp_lexorder(1) [OF assms(3) that] by (simp add: xtensa_isa_name_compare_def)
  show "(0 < xtensa_isa_name_compare k (tab ! j) \<longrightarrow> 0 < xtensa_isa_name_compare k (tab ! i)) \<and>
        (xtensa_isa_name_compare k (tab ! i) < 0 \<longrightarrow> xtensa_isa_name_compare k (tab ! j) < 0)"
    using le by (simp add: pos neg c) (meson le_less_trans less_le_trans)
qed

text \<open>What a lookup by name returns: an entry with that name up to case, or the error when there is none.\<close>

definition name_found :: "xtensa_isa_status \<Rightarrow> (nat \<Rightarrow> string) \<Rightarrow> nat \<Rightarrow> string \<Rightarrow> int isa_result \<Rightarrow> bool" where
  "name_found bad name n s r =
     (case r of
        Inr m \<Rightarrow> 0 \<le> m \<and> nat m < n \<and> lowercase (name (nat m)) = lowercase s
      | Inl e \<Rightarrow> e = bad \<and> list_all (\<lambda>k. lowercase (name k) \<noteq> lowercase s) [0..<n])"

lemma lookup_by_name_found:
  assumes q: "qsort_sorts qsort" and names: "list_all (\<lambda>k. c_string (name k)) [0..<n]"
    and s: "c_string s" "s \<noteq> []"
  shows "name_found bad name n s (lookup_by_name bad (qsort (name_table name n)) n (Some s))"
proof -
  define tab where "tab = qsort (name_table name n)"
  note tab = qsort_entries [OF q names, folded tab_def]
  define k where "k = \<lparr>key = s, entry_id = 0\<rparr>"
  have c: "\<forall>e \<in> set tab. c_string (key e)"
    using tab(2) names by (auto simp: list_all_iff)
  have zero: "(xtensa_isa_name_compare k e = 0) = (lowercase (key e) = lowercase s)" if "e \<in> set tab" for e
    using strcasecmp_lexorder(2) [OF s(1), of "key e"] c that by (auto simp: k_def xtensa_isa_name_compare_def)
  have ord: "ordered_for (xtensa_isa_name_compare k) tab"
    using sorted_names_ordered_for [OF tab(3) c] s by (simp add: k_def)
  show ?thesis
  proof (cases "bsearch k tab n xtensa_isa_name_compare")
    case None
    have "lowercase (name i) \<noteq> lowercase s" if "i < n" for i
    proof -
      have mem: "\<lparr>key = name i, entry_id = i\<rparr> \<in> set tab"
        using that tab(2) by simp
      then obtain j where j: "j < n" "tab ! j = \<lparr>key = name i, entry_id = i\<rparr>"
        using tab(1) by (metis in_set_conv_nth)
      have "xtensa_isa_name_compare k (tab ! j) \<noteq> 0"
        using bsearch_loop_None [OF ord _ None [unfolded bsearch_def] _ j(1)] tab(1) by simp
      then show ?thesis
        using zero [OF mem] j(2) by simp
    qed
    then show ?thesis
      using None s by (simp add: name_found_def lookup_by_name_def tab_def k_def list_all_iff)
  next
    case (Some e)
    then obtain j where j: "j < n" "e = tab ! j" "xtensa_isa_name_compare k e = 0"
      using bsearch_loop_Some [OF Some [unfolded bsearch_def]] by blast
    have e: "e \<in> set tab"
      using j tab(1) by simp
    then obtain i where i: "i < n" "e = \<lparr>key = name i, entry_id = i\<rparr>"
      using tab(2) by auto
    have "lowercase (name i) = lowercase s"
      using zero [OF e] j(3) i(2) by simp
    then show ?thesis
      using Some s i j(1) by (simp add: name_found_def lookup_by_name_def tab_def k_def)
  qed
qed

definition isa_names_ok :: "xtensa_isa_internal \<Rightarrow> bool" where
  "isa_names_ok isa =
     (list_all (\<lambda>n. c_string (opc_name (opcodes isa n))) [0..<num_opcodes isa] \<and>
      list_all (\<lambda>n. c_string (st_name (states isa n))) [0..<num_states isa] \<and>
      list_all (\<lambda>n. c_string (sr_name (sysregs isa n))) [0..<num_sysregs isa] \<and>
      list_all (\<lambda>n. c_string (intf_name (interfaces isa n))) [0..<num_interfaces isa] \<and>
      list_all (\<lambda>n. c_string (fu_name (funcUnits isa n))) [0..<num_funcUnits isa])"

section \<open>Lookups by number\<close>

definition sysregs_ok :: "xtensa_isa_internal \<Rightarrow> bool" where
  "sysregs_ok isa =
     (list_all (\<lambda>n. sr_is_user (sysregs isa n) < 2 \<and>
                     sr_number (sysregs isa n) \<le> max_sysreg_num isa (sr_is_user (sysregs isa n))) [0..<num_sysregs isa] \<and>
      list_all (\<lambda>n. list_all (\<lambda>m. m = n \<or> sr_number (sysregs isa n) < 0 \<or>
                     (sr_is_user (sysregs isa m), sr_number (sysregs isa m)) \<noteq>
                     (sr_is_user (sysregs isa n), sr_number (sysregs isa n))) [0..<num_sysregs isa]) [0..<num_sysregs isa])"

lemma sysregs_okD:
  assumes "sysregs_ok isa" and "n < num_sysregs isa" and "m < num_sysregs isa"
  shows "sr_is_user (sysregs isa n) < 2"
    and "sr_number (sysregs isa n) \<le> max_sysreg_num isa (sr_is_user (sysregs isa n))"
    and "m = n \<or> sr_number (sysregs isa n) < 0 \<or>
         sr_is_user (sysregs isa m) \<noteq> sr_is_user (sysregs isa n) \<or> sr_number (sysregs isa m) \<noteq> sr_number (sysregs isa n)"
proof -
  have mem: "n \<in> set [0..<num_sysregs isa]" "m \<in> set [0..<num_sysregs isa]"
    using assms by simp_all
  show "sr_is_user (sysregs isa n) < 2"
    "sr_number (sysregs isa n) \<le> max_sysreg_num isa (sr_is_user (sysregs isa n))"
    using assms(1) mem(1) unfolding sysregs_ok_def list_all_iff by blast+
  show "m = n \<or> sr_number (sysregs isa n) < 0 \<or>
      sr_is_user (sysregs isa m) \<noteq> sr_is_user (sysregs isa n) \<or> sr_number (sysregs isa m) \<noteq> sr_number (sysregs isa n)"
    using bspec [OF bspec [OF conjunct2 [OF assms(1) [unfolded sysregs_ok_def list_all_iff]] mem(1)] mem(2)]
    by (simp only: prod.inject de_Morgan_conj)
qed

lemma length_sysreg_number_loop [simp]: "length (sysreg_number_loop sregs ns tab u) = length (tab u)"
  by (induction sregs ns tab rule: sysreg_number_loop.induct) (auto simp: Let_def)

lemma sysreg_number_loop_miss:
  "\<forall>n \<in> set ns. \<not> (sr_is_user (sregs n) = u \<and> sr_number (sregs n) = num) \<Longrightarrow> 0 \<le> num \<Longrightarrow>
   sysreg_number_loop sregs ns tab u ! nat num = tab u ! nat num"
proof (induction sregs ns tab rule: sysreg_number_loop.induct)
  case (2 sregs n ns tab)
  have "nat (sr_number (sregs n)) \<noteq> nat num" if "sr_is_user (sregs n) = u" "0 \<le> sr_number (sregs n)"
    using "2.prems" that by (simp add: eq_nat_nat_iff)
  then show ?case
    using 2 by (simp add: Let_def)
qed simp

lemma sysreg_number_loop_hit:
  assumes "n \<in> set ns" and "sr_is_user (sregs n) = u" "sr_number (sregs n) = num" and "0 \<le> num"
    and "nat num < length (tab u)"
    and "\<forall>m \<in> set ns. sr_is_user (sregs m) = u \<and> sr_number (sregs m) = num \<longrightarrow> m = n"
  shows "sysreg_number_loop sregs ns tab u ! nat num = int n"
  using assms
proof (induction sregs ns tab rule: sysreg_number_loop.induct)
  case (2 sregs m ns tab)
  let ?tab = "if sr_number (sregs m) \<ge> 0
    then tab(sr_is_user (sregs m) := (tab (sr_is_user (sregs m)))[nat (sr_number (sregs m)) := int m]) else tab"
  have step: "sysreg_number_loop sregs (m # ns) tab = sysreg_number_loop sregs ns ?tab"
    by (simp only: sysreg_number_loop.simps Let_def)
  show ?case
  proof (cases "n \<in> set ns")
    case True
    have "nat num < length (?tab u)"
      using "2.prems"(5) by auto
    then show ?thesis
      unfolding step using "2.prems"(6) by (intro "2.IH" [OF refl refl True "2.prems"(2-4)]) simp_all
  next
    case False
    then have m: "m = n"
      using "2.prems"(1) by simp
    have "\<forall>k \<in> set ns. \<not> (sr_is_user (sregs k) = u \<and> sr_number (sregs k) = num)"
      using False "2.prems"(6) by auto
    then have "sysreg_number_loop sregs ns ?tab u ! nat num = ?tab u ! nat num"
      by (rule sysreg_number_loop_miss [OF _ "2.prems"(4)])
    then show ?thesis
      unfolding step using "2.prems"(2-5) m by simp
  qed
qed simp

text \<open>
  C31. After initialisation, the lookup of a system register by its number and kind returns an
  index exactly when the table has a register of that number and kind there; every other number
  is an error. The tables give each number of a kind to one register and stay within the largest
  number they declare.
\<close>

theorem sysreg_lookup_exact:
  assumes "sysregs_ok isa"
  shows "(xtensa_sysreg_lookup (xtensa_isa_init qsort isa) num is_user = Inr r) =
         (\<exists>n < num_sysregs isa. r = int n \<and> sr_number (sysregs isa n) = num \<and> 0 \<le> num \<and>
            (sr_is_user (sysregs isa n) \<noteq> 0) = (is_user \<noteq> 0))"
proof -
  define u :: nat where "u = (if is_user \<noteq> 0 then 1 else 0)"
  define tab where "tab = sysreg_number_loop (sysregs isa) [0..<num_sysregs isa] (sysreg_table_init isa)"
  have fits: "sr_is_user (sysregs isa n) < 2" "sr_number (sysregs isa n) \<le> max_sysreg_num isa (sr_is_user (sysregs isa n))"
    if "n < num_sysregs isa" for n
    using sysregs_okD(1,2) [OF assms that that] by simp_all
  have uniq: "m = n" if "n < num_sysregs isa" "m < num_sysregs isa" "0 \<le> sr_number (sysregs isa n)"
    "sr_is_user (sysregs isa m) = sr_is_user (sysregs isa n)" "sr_number (sysregs isa m) = sr_number (sysregs isa n)" for m n
    using sysregs_okD(3) [OF assms that(1,2)] that(3-5) by simp
  have kind: "((sr_is_user (sysregs isa n) \<noteq> 0) = (is_user \<noteq> 0)) = (sr_is_user (sysregs isa n) = u)"
    if "n < num_sysregs isa" for n
    using fits(1) [OF that] by (auto simp: u_def)
  have lookup: "xtensa_sysreg_lookup (xtensa_isa_init qsort isa) num is_user =
      (if num < 0 \<or> num > max_sysreg_num isa u \<or> tab u ! nat num = -1 then Inl xtensa_isa_bad_sysreg
       else Inr (tab u ! nat num))"
    by (simp add: xtensa_sysreg_lookup_def xtensa_isa_init_def u_def tab_def)
  show ?thesis
  proof (cases "\<exists>n < num_sysregs isa. sr_number (sysregs isa n) = num \<and> 0 \<le> num \<and> sr_is_user (sysregs isa n) = u")
    case True
    then obtain n where n: "n < num_sysregs isa" "sr_number (sysregs isa n) = num" "0 \<le> num"
      "sr_is_user (sysregs isa n) = u"
      by blast
    have max: "num \<le> max_sysreg_num isa u"
      using fits(2) [OF n(1)] n by simp
    have "nat num < length (sysreg_table_init isa u)"
      using max n(3) by (simp add: sysreg_table_init_def u_def nat_less_iff)
    moreover have "m = n" if "m < num_sysregs isa" "sr_is_user (sysregs isa m) = u \<and> sr_number (sysregs isa m) = num" for m
      using uniq [OF n(1) that(1)] that(2) n by simp
    ultimately have "tab u ! nat num = int n"
      unfolding tab_def by (intro sysreg_number_loop_hit [of n _ "sysregs isa" u num]) (simp_all add: n)
    then have "xtensa_sysreg_lookup (xtensa_isa_init qsort isa) num is_user = Inr (int n)"
      using lookup max n(3) by simp
    note lookup_n = this
    have only: "m = n" if "m < num_sysregs isa" "sr_number (sysregs isa m) = num"
      "(sr_is_user (sysregs isa m) \<noteq> 0) = (is_user \<noteq> 0)" for m
      using uniq [OF n(1) that(1)] iffD1 [OF kind [OF that(1)] that(3)] n(2-4) that(2) by simp
    have "(sr_is_user (sysregs isa n) \<noteq> 0) = (is_user \<noteq> 0)"
      by (rule iffD2 [OF kind [OF n(1)] n(4)])
    then have entry: "int n = int n \<and> sr_number (sysregs isa n) = num \<and> 0 \<le> num \<and>
        (sr_is_user (sysregs isa n) \<noteq> 0) = (is_user \<noteq> 0)"
      using n by blast
    show ?thesis
      unfolding lookup_n sum.inject(2) by (rule iffI) (use n(1) entry in blast, use only in blast)
  next
    case False
    have "tab u ! nat num = sysreg_table_init isa u ! nat num" if "0 \<le> num"
      unfolding tab_def using False that by (intro sysreg_number_loop_miss ballI notI) (simp_all, blast)
    moreover have "sysreg_table_init isa u ! nat num = -1" if "0 \<le> num" "num \<le> max_sysreg_num isa u"
      using that by (simp add: sysreg_table_init_def u_def nat_less_iff)
    ultimately have "num < 0 \<or> num > max_sysreg_num isa u \<or> tab u ! nat num = -1"
      by linarith
    then have "xtensa_sysreg_lookup (xtensa_isa_init qsort isa) num is_user = Inl xtensa_isa_bad_sysreg"
      using lookup by simp
    moreover have "False" if "m < num_sysregs isa" "sr_number (sysregs isa m) = num" "0 \<le> num"
      "(sr_is_user (sysregs isa m) \<noteq> 0) = (is_user \<noteq> 0)" for m
      using False that(1-3) iffD1 [OF kind [OF that(1)] that(4)] by blast
    ultimately show ?thesis
      by (intro iffI) (simp, blast)
  qed
qed

text \<open>Releasing a description and initialising it again gives the tables of the first initialisation.\<close>

lemma init_after_free: "xtensa_isa_init qsort (xtensa_isa_free isa) = xtensa_isa_init qsort isa"
proof -
  have "sysreg_table_init (xtensa_isa_free isa) = sysreg_table_init isa"
    by (auto simp: fun_eq_iff sysreg_table_init_def xtensa_isa_free_def)
  then show ?thesis
    by (simp add: xtensa_isa_init_def xtensa_isa_free_def)
qed

section \<open>Pipeline stages\<close>

lemma max_stage_uses_ge:
  shows "m \<le> max_stage_uses opc is m" and
  "i \<in> set is \<Longrightarrow> use_stage (funcUnit_uses opc i) \<le> max_stage_uses opc is m"
  by (induction opc "is" m rule: max_stage_uses.induct) (auto split: if_splits)

lemma max_stage_uses_attained:
  "max_stage_uses opc is m = m \<or> (\<exists>i \<in> set is. max_stage_uses opc is m = use_stage (funcUnit_uses opc i))"
  by (induction opc "is" m rule: max_stage_uses.induct) (auto split: if_splits)

lemma max_stage_opcodes_ge:
  shows "m \<le> max_stage_opcodes opcs ns m" and
  "n \<in> set ns \<Longrightarrow> i < nat (num_funcUnit_uses (opcs n)) \<Longrightarrow>
   use_stage (funcUnit_uses (opcs n) i) \<le> max_stage_opcodes opcs ns m"
proof (induction opcs ns m rule: max_stage_opcodes.induct)
  case (2 opcs k ns m)
  let ?m = "max_stage_uses (opcs k) [0..<nat (num_funcUnit_uses (opcs k))] m"
  {
    case 1
    show ?case
      using order_trans [OF max_stage_uses_ge(1) "2.IH"(1)] by simp
  next
    case 2
    show ?case
      using "2" "2.IH"(2) order_trans [OF max_stage_uses_ge(2) [of i "[0..<nat (num_funcUnit_uses (opcs k))]"] "2.IH"(1)]
      by (cases "n \<in> set ns") simp_all
  }
qed simp_all

lemma max_stage_opcodes_attained:
  "max_stage_opcodes opcs ns m = m \<or>
   (\<exists>n \<in> set ns. \<exists>i < nat (num_funcUnit_uses (opcs n)). max_stage_opcodes opcs ns m = use_stage (funcUnit_uses (opcs n) i))"
proof (induction opcs ns m rule: max_stage_opcodes.induct)
  case (2 opcs k ns m)
  let ?m = "max_stage_uses (opcs k) [0..<nat (num_funcUnit_uses (opcs k))] m"
  consider "max_stage_opcodes opcs ns ?m = ?m"
    | n i where "n \<in> set ns" "i < nat (num_funcUnit_uses (opcs n))"
        "max_stage_opcodes opcs ns ?m = use_stage (funcUnit_uses (opcs n) i)"
    using "2.IH" by blast
  then show ?case
  proof cases
    case 1
    then show ?thesis
      using max_stage_uses_attained [of "opcs k" "[0..<nat (num_funcUnit_uses (opcs k))]" m] by auto
  next
    case 2
    then show ?thesis
      by auto
  qed
qed simp

text \<open>
  C40. The stages of the pipeline are counted once and kept: every stage of a use of a functional
  unit is below the number that every call but the first returns, and that number is the least such
  one. The first call after initialisation returns the number of processor states instead.
\<close>

theorem num_pipe_stages_first_call:
  fixes isa :: xtensa_isa_internal
  assumes "num_stages isa = XTENSA_UNDEFINED"
    and "xtensa_isa_num_pipe_stages isa = (first, isa')"
    and "xtensa_isa_num_pipe_stages isa' = (later, isa'')"
  shows "first = int (num_states isa) \<and> isa'' = isa' \<and> 0 \<le> later \<and>
     (\<forall>opc i. opc < num_opcodes isa \<longrightarrow> int i < num_funcUnit_uses (opcodes isa opc) \<longrightarrow>
        use_stage (funcUnit_uses (opcodes isa opc) i) < later) \<and>
     (later = 0 \<or> (\<exists>opc i. opc < num_opcodes isa \<and> int i < num_funcUnit_uses (opcodes isa opc) \<and>
        later = use_stage (funcUnit_uses (opcodes isa opc) i) + 1))"
proof -
  define m where "m = max_stage_opcodes (opcodes isa) [0..<num_opcodes isa] (-1)"
  have m: "-1 \<le> m"
    unfolding m_def by (rule max_stage_opcodes_ge)
  have "first = int (num_states isa)" and isa': "isa' = isa\<lparr>num_stages := m + 1\<rparr>"
    using assms(1,2) by (auto simp: xtensa_isa_num_pipe_stages_def xtensa_isa_num_opcodes_def Let_def m_def)
  moreover have later: "later = m + 1" "isa'' = isa'"
    using assms(3) m unfolding isa' by (auto simp: xtensa_isa_num_pipe_stages_def)
  moreover have "use_stage (funcUnit_uses (opcodes isa opc) i) \<le> m"
    if "opc < num_opcodes isa" "int i < num_funcUnit_uses (opcodes isa opc)" for opc i
    unfolding m_def using that by (intro max_stage_opcodes_ge(2)) (simp_all add: zless_nat_eq_int_zless)
  moreover have "m = -1 \<or> (\<exists>opc i. opc < num_opcodes isa \<and> int i < num_funcUnit_uses (opcodes isa opc) \<and>
      m = use_stage (funcUnit_uses (opcodes isa opc) i))"
    using max_stage_opcodes_attained [of "opcodes isa" "[0..<num_opcodes isa]" "-1", folded m_def]
    by (auto simp: zless_nat_eq_int_zless)
  ultimately show ?thesis
    using m by auto
qed

section \<open>Bytes of an instruction\<close>

definition byte_of :: "insnbuf \<Rightarrow> nat \<Rightarrow> u8" where
  "byte_of insn b = ucast (drop_bit (b mod 4 * 8) (insn (b div 4)))"

lemma byte_to_bit_index_eq: "byte_to_bit_index b = b mod 4 * 8"
proof -
  have "b AND 3 = take_bit 2 b"
    by (simp add: take_bit_eq_mask mask_eq_exp_minus_1)
  then show ?thesis
    by (simp add: byte_to_bit_index_def take_bit_eq_mod)
qed

lemma byte_of_eqI:
  assumes "\<And>i. i < 4 \<Longrightarrow> byte_of f (4 * w + i) = byte_of g (4 * w + i)"
  shows "f w = g w"
proof (rule bit_word_eqI)
  fix n assume "n < LENGTH(32)"
  then have n: "n div 8 < 4"
    by simp
  have "bit (byte_of f (4 * w + n div 8)) (n mod 8) = bit (byte_of g (4 * w + n div 8)) (n mod 8)"
    using assms [OF n] by simp
  moreover have "n div 8 * 8 + n mod 8 = n"
    by simp
  ultimately show "bit (f w) n = bit (g w) n"
    using n by (simp add: byte_of_def bit_simps)
qed

lemma ucast32_and_ff [simp]: "(ucast c AND 0xff :: u32) = ucast c" for c :: u8
proof -
  have "(0xff :: u32) = mask 8"
    by (simp add: mask_eq_exp_minus_1)
  then show ?thesis
    by (simp only: take_bit_eq_mask [symmetric]) (rule bit_word_eqI, auto simp: bit_simps dest: bit_imp_le_length)
qed

lemma ucast_and_ff_u8 [simp]: "(ucast (x AND 0xff) :: u8) = ucast x" for x :: u32
proof -
  have "(0xff :: u32) = mask 8"
    by (simp add: mask_eq_exp_minus_1)
  then show ?thesis
    by (simp only: take_bit_eq_mask [symmetric]) (rule bit_word_eqI, auto simp: bit_simps)
qed

lemma byte_of_update:
  "byte_of (insn(b div 4 := insn (b div 4) OR push_bit (b mod 4 * 8) (ucast c))) b' =
   (if b' = b then byte_of insn b OR c else byte_of insn b')" for c :: u8
proof (cases "b' div 4 = b div 4")
  case True
  show ?thesis
  proof (rule bit_word_eqI)
    fix n assume n: "n < LENGTH(8)"
    have "b' mod 4 = b mod 4 \<longleftrightarrow> b' = b"
      using True by (metis div_mod_decomp)
    moreover have "b mod 4 * 8 \<le> b' mod 4 * 8 + n \<and> b' mod 4 * 8 + n - b mod 4 * 8 < 8 \<longleftrightarrow> b' mod 4 = b mod 4"
      using n by auto
    moreover have "b' mod 4 * 8 + n < 32"
      using n by auto
    ultimately show "bit (byte_of (insn(b div 4 := insn (b div 4) OR push_bit (b mod 4 * 8) (ucast c))) b') n =
        bit (if b' = b then byte_of insn b OR c else byte_of insn b') n"
      using True n by (auto simp: byte_of_def bit_simps dest: bit_imp_le_length)
  qed
next
  case False
  then show ?thesis
    by (auto simp: byte_of_def)
qed

text \<open>The byte that round \<open>k\<close> of a loop handles.\<close>

abbreviation round_byte :: "int \<Rightarrow> int \<Rightarrow> nat \<Rightarrow> nat" where
  "round_byte i increment k \<equiv> nat (i + increment * int k)"

lemma to_chars_loop_eq: "to_chars_loop insn i inc n = map (\<lambda>k. byte_of insn (round_byte i inc k)) [0..<n]"
proof (induction insn i inc n rule: to_chars_loop.induct)
  case (2 insn i inc n)
  have "[0..<Suc n] = 0 # map Suc [0..<n]"
    by (simp add: upt_conv_Cons map_Suc_upt)
  then show ?case
    using 2 by (simp add: byte_of_def byte_to_word_index_def byte_to_bit_index_eq algebra_simps)
qed simp

lemma from_chars_loop_Cons:
  "from_chars_loop insn (c # cs) i inc (Suc n) =
   from_chars_loop (insn(nat i div 4 := insn (nat i div 4) OR push_bit (nat i mod 4 * 8) (ucast c))) cs (i + inc) inc n"
  by (simp add: byte_to_word_index_def byte_to_bit_index_eq)

lemma round_byte_Suc: "round_byte i inc (Suc k) = round_byte (i + inc) inc k"
  by (simp add: algebra_simps)

lemma from_chars_loop_miss:
  "(\<And>k. k < n \<Longrightarrow> b \<noteq> round_byte i inc k) \<Longrightarrow> n \<le> length cp \<Longrightarrow>
   byte_of (from_chars_loop insn cp i inc n) b = byte_of insn b"
proof (induction n arbitrary: insn cp i)
  case (Suc n)
  obtain c cs where cp: "cp = c # cs"
    using Suc.prems(2) by (cases cp) auto
  have "b \<noteq> round_byte (i + inc) inc k" if "k < n" for k
    using Suc.prems(1) [of "Suc k"] that unfolding round_byte_Suc by simp
  moreover have "b \<noteq> nat i"
    using Suc.prems(1) [of 0] by simp
  ultimately show ?case
    using Suc.IH [of "i + inc" cs] Suc.prems(2) unfolding cp from_chars_loop_Cons by (simp add: byte_of_update)
qed simp

lemma from_chars_loop_hit:
  assumes "inc \<noteq> 0"
  shows "k < n \<Longrightarrow> n \<le> length cp \<Longrightarrow> (\<And>j. j < n \<Longrightarrow> 0 \<le> i + inc * int j) \<Longrightarrow>
    byte_of (from_chars_loop insn cp i inc n) (round_byte i inc k) = byte_of insn (round_byte i inc k) OR cp ! k"
proof (induction n arbitrary: insn cp i k)
  case (Suc n)
  obtain c cs where cp: "cp = c # cs"
    using Suc.prems(2) by (cases cp) auto
  have nonneg: "0 \<le> i + inc + inc * int j" if "j < n" for j
    using Suc.prems(3) [of "Suc j"] that by (simp add: algebra_simps)
  have i: "0 \<le> i"
    using Suc.prems(3) [of 0] by simp
  have apart: "nat i \<noteq> round_byte (i + inc) inc j" if "j < n" for j
  proof -
    have "inc * (1 + int j) \<noteq> 0"
      using assms by simp
    then show ?thesis
      using nonneg [OF that] i by (simp add: algebra_simps eq_nat_nat_iff)
  qed
  show ?case
  proof (cases k)
    case 0
    then show ?thesis
      using from_chars_loop_miss [of n "nat i" "i + inc" inc cs] apart Suc.prems(2)
      unfolding cp from_chars_loop_Cons by (simp add: byte_of_update)
  next
    case (Suc k')
    have k': "k' < n"
      using Suc.prems(1) Suc by simp
    then show ?thesis
      using Suc.IH [OF k' _ nonneg, of cs] apart [OF k'] Suc.prems(2)
      unfolding Suc round_byte_Suc cp from_chars_loop_Cons by (simp add: byte_of_update)
  qed
qed simp

text \<open>The byte of the buffer that holds byte \<open>k\<close> of the instruction.\<close>

definition insn_byte :: "xtensa_isa_internal \<Rightarrow> nat \<Rightarrow> nat" where
  "insn_byte isa k = (let (start, increment) = start_and_increment isa in round_byte start increment k)"

lemma start_and_increment_ex:
  "\<exists>start inc. start_and_increment isa = (start, inc) \<and> inc \<noteq> 0 \<and>
     (\<forall>k < insn_size isa. 0 \<le> start + inc * int k) \<and> (\<forall>k. insn_byte isa k = round_byte start inc k)"
  by (cases "is_big_endian isa") (auto simp: start_and_increment_def insn_byte_def xtensa_isa_maxlength_def)

lemma insn_byte_bound: "k < insn_size isa \<Longrightarrow> insn_byte isa k < insn_size isa"
  by (auto simp: insn_byte_def start_and_increment_def xtensa_isa_maxlength_def)

lemma insnbuf_holds: "b < n \<Longrightarrow> b div 4 < (n + 4 - 1) div (4 :: nat)"
  by simp

lemma from_chars_bytes:
  assumes "length_decode_fn isa cp = int L" and "L \<le> insn_size isa" and "L \<le> length cp"
    and "num_chars = 0 \<or> int L \<le> num_chars" and "b div 4 < insnbuf_size isa"
  shows "k < L \<Longrightarrow> b = insn_byte isa k \<Longrightarrow> byte_of (xtensa_insnbuf_from_chars isa insn cp num_chars) b = cp ! k"
    and "(\<And>k. k < L \<Longrightarrow> b \<noteq> insn_byte isa k) \<Longrightarrow> byte_of (xtensa_insnbuf_from_chars isa insn cp num_chars) b = 0"
proof -
  obtain start inc where si: "start_and_increment isa = (start, inc)" "inc \<noteq> 0"
    "\<And>k. k < insn_size isa \<Longrightarrow> 0 \<le> start + inc * int k" "\<And>k. insn_byte isa k = round_byte start inc k"
    using start_and_increment_ex [of isa] by blast
  define z where "z = (\<lambda>w. if w < insnbuf_size isa then 0 else insn w)"
  have z: "byte_of z b = 0"
    using assms(5) by (simp add: byte_of_def z_def)
  have from_chars: "xtensa_insnbuf_from_chars isa insn cp num_chars = from_chars_loop z cp start inc L"
  proof (cases "num_chars = 0 \<or> num_chars > int L")
    case False
    then have "num_chars = int L"
      using assms(4) by simp
    then show ?thesis
      by (simp add: xtensa_insnbuf_from_chars_def assms(1) si(1) z_def xtensa_insnbuf_size_def Let_def)
  qed (simp add: xtensa_insnbuf_from_chars_def assms(1) si(1) z_def xtensa_insnbuf_size_def Let_def)
  show "byte_of (xtensa_insnbuf_from_chars isa insn cp num_chars) b = cp ! k" if "k < L" "b = insn_byte isa k"
    using from_chars_loop_hit [OF si(2) that(1) assms(3), of start z] si(3) assms(2) z that(2)
    by (simp add: from_chars si(4))
  show "byte_of (xtensa_insnbuf_from_chars isa insn cp num_chars) b = 0" if "\<And>k. k < L \<Longrightarrow> b \<noteq> insn_byte isa k"
    using from_chars_loop_miss [of L b start inc cp z] that assms(3) z by (simp add: from_chars si(4))
qed

lemma to_chars_bytes:
  assumes "xtensa_insnbuf_to_chars isa insn num_chars = Inr cp"
  shows "cp = map (\<lambda>k. byte_of insn (insn_byte isa k)) [0..<length cp]"
proof -
  obtain start inc where si: "start_and_increment isa = (start, inc)" "inc \<noteq> 0"
    "\<And>k. k < insn_size isa \<Longrightarrow> 0 \<le> start + inc * int k" "\<And>k. insn_byte isa k = round_byte start inc k"
    using start_and_increment_ex [of isa] by blast
  obtain n where "cp = to_chars_loop insn start inc n"
    using assms by (auto simp: xtensa_insnbuf_to_chars_def si(1) Let_def split: sum.splits if_splits)
  then show ?thesis
    by (simp add: to_chars_loop_eq si(4))
qed

text \<open>
  C32. Reading an instruction from bytes and writing it back gives the bytes: in either byte order
  and with whatever the buffer held before, when the length that the first bytes announce is the length of the format that the
  buffer decodes to, and fits the largest instruction.
\<close>

theorem chars_insnbuf_chars:
  fixes isa0 :: xtensa_isa_internal and cp :: "u8 list" and L :: nat
  assumes "isa = xtensa_isa_init qsort isa0"
    and "length_decode_fn isa cp = int L" and "L \<le> xtensa_isa_maxlength isa" and "L \<le> length cp"
    and "num_chars = 0 \<or> int L \<le> num_chars"
    and "xtensa_format_decode isa (xtensa_insnbuf_from_chars isa insn cp num_chars) = Inr fmt"
    and "xtensa_format_length isa fmt = Inr (int L)"
  shows "xtensa_insnbuf_to_chars isa (xtensa_insnbuf_from_chars isa insn cp num_chars) num_chars = Inr (take L cp)"
proof -
  define buf where "buf = xtensa_insnbuf_from_chars isa insn cp num_chars"
  have size: "insnbuf_size isa = (insn_size isa + 4 - 1) div 4"
    by (simp add: assms(1) xtensa_isa_init_def)
  have L: "L \<le> insn_size isa"
    using assms(3) by (simp add: xtensa_isa_maxlength_def)
  obtain start inc where si: "start_and_increment isa = (start, inc)" "inc \<noteq> 0"
    "\<And>k. k < insn_size isa \<Longrightarrow> 0 \<le> start + inc * int k" "\<And>k. insn_byte isa k = round_byte start inc k"
    using start_and_increment_ex [of isa] by blast
  have byte: "byte_of buf (insn_byte isa k) = cp ! k" if "k < L" for k
  proof -
    have "insn_byte isa k div 4 < insnbuf_size isa"
      unfolding size using insn_byte_bound [of k isa] that L by (intro insnbuf_holds) simp
    then show ?thesis
      unfolding buf_def using from_chars_bytes(1) [OF assms(2) L assms(4,5)] that by blast
  qed
  have "xtensa_insnbuf_to_chars isa buf num_chars = Inr (to_chars_loop buf start inc L)"
    using assms(3,5-7) by (auto simp: xtensa_insnbuf_to_chars_def buf_def [symmetric] si(1) Let_def)
  also have "to_chars_loop buf start inc L = take L cp"
    unfolding to_chars_loop_eq using byte assms(4) by (intro nth_equalityI) (auto simp: si(4) [symmetric])
  finally show ?thesis
    by (simp add: buf_def)
qed

text \<open>
  C33. Writing an instruction to bytes and reading it back gives every word of the instruction, in
  either byte order, when the bytes announce the length of the instruction and the bytes of the
  buffer outside the instruction are zero.
\<close>

theorem insnbuf_chars_insnbuf:
  fixes isa0 :: xtensa_isa_internal and cp :: "u8 list"
  assumes "isa = xtensa_isa_init qsort isa0"
    and "xtensa_insnbuf_to_chars isa insn num_chars = Inr cp"
    and "length_decode_fn isa cp = int (length cp)" and "length cp \<le> xtensa_isa_maxlength isa"
    and "\<And>b. \<forall>k < length cp. b \<noteq> insn_byte isa k \<Longrightarrow> byte_of insn b = 0"
    and "w < xtensa_insnbuf_size isa"
  shows "xtensa_insnbuf_from_chars isa insn' cp 0 w = insn w"
proof (rule byte_of_eqI)
  fix i :: nat assume "i < 4"
  then have b: "(4 * w + i) div 4 < insnbuf_size isa"
    using assms(6) by (simp add: xtensa_insnbuf_size_def)
  have L: "length cp \<le> insn_size isa"
    using assms(4) by (simp add: xtensa_isa_maxlength_def)
  note bytes = from_chars_bytes [where num_chars = 0 and insn = insn', OF assms(3) L order_refl _ b, simplified]
  show "byte_of (xtensa_insnbuf_from_chars isa insn' cp 0) (4 * w + i) = byte_of insn (4 * w + i)"
  proof (cases "\<exists>k < length cp. 4 * w + i = insn_byte isa k")
    case True
    then obtain k where k: "k < length cp" "4 * w + i = insn_byte isa k"
      by blast
    have "cp ! k = byte_of insn (insn_byte isa k)"
      using arg_cong [OF to_chars_bytes [OF assms(2)], of "\<lambda>xs. xs ! k"] k(1) by simp
    then show ?thesis
      using bytes(1) [OF k] k(2) by simp
  next
    case False
    then show ?thesis
      using bytes(2) assms(5) [of "4 * w + i"] by simp
  qed
qed

section \<open>Operands\<close>

lemma encode_slot_loop_accepts:
  "encode_slot_loop isa field val tmpbuf ns = (Inr (), tmpbuf') \<Longrightarrow>
   \<exists>n \<in> set ns. \<exists>getf setf b. get_field_fns (slots isa n) field = Some getf \<and>
     set_field_fns (slots isa n) field = Some setf \<and> getf (setf b val) = val"
  by (induction isa field val tmpbuf ns rule: encode_slot_loop.induct)
    (auto simp: Let_def split: option.splits if_splits, metis)

text \<open>
  What the generated functions of a field do: in every slot that has the field, both functions are
  there, and reading after writing gives the low bits of the value, as many as the field has. (The
  implicit fields of the tables, which always read the same number, are no fields in this sense.)
\<close>

definition field_ok :: "xtensa_isa_internal \<Rightarrow> nat \<Rightarrow> nat \<Rightarrow> bool" where
  "field_ok isa field width =
     (\<forall>n < isa_num_slots isa.
        case (get_field_fns (slots isa n) field, set_field_fns (slots isa n) field) of
          (Some getf, Some setf) \<Rightarrow> \<forall>b x. getf (setf b x) = take_bit width x
        | (None, None) \<Rightarrow> True
        | _ \<Rightarrow> False)"

text \<open>An operand has both an encoding and a decoding function or none.\<close>

definition operand_ok :: "xtensa_operand_internal \<Rightarrow> bool" where
  "operand_ok intop \<longleftrightarrow> (opnd_encode intop = None \<longleftrightarrow> opnd_decode intop = None)"

lemma take_bit_fits: "take_bit n w = w \<longleftrightarrow> unat w < 2 ^ n" for w :: "'a::len word"
proof
  assume "take_bit n w = w"
  then have "unat w = unat w mod 2 ^ n"
    using unat_take_bit [of n w] by simp
  then show "unat w < 2 ^ n"
    by (metis mod_less_divisor zero_less_numeral zero_less_power)
qed (simp add: word_unat_eq_iff unat_take_bit)

text \<open>An accepted value of an operand without an encoding function fits the field.\<close>

lemma default_operand_fits:
  assumes "get_operand isa opc opnd = Inr intop" and "opnd_encode intop = None"
    and "field_ok isa (nat (field_id intop)) width"
    and "xtensa_operand_encode isa tmpbuf opc opnd val = Some (Inr (), enc, tmpbuf')"
  shows "take_bit width enc = enc"
proof -
  obtain n getf setf b where "n < isa_num_slots isa" "get_field_fns (slots isa n) (nat (field_id intop)) = Some getf"
    "set_field_fns (slots isa n) (nat (field_id intop)) = Some setf" "getf (setf b enc) = enc"
    using assms(1,2,4) encode_slot_loop_accepts [of isa "nat (field_id intop)" val tmpbuf "[0..<isa_num_slots isa]"]
    by (fastforce simp: xtensa_operand_encode_def split: if_splits prod.splits)
  then show ?thesis
    using assms(3) by (force simp: field_ok_def)
qed

text \<open>
  C34. What becomes of an operand value that \<^verbatim>\<open>xtensa_operand_encode\<close> accepts: decoding
  the encoded value gives the operand value, and a slot that has the field reads back the low bits
  of the encoded value, as many as the field has. So the operand value survives the slot exactly
  when its encoding fits the field. For an operand without an encoding function, whose value is
  tried in the first slot with the field, it always fits, in every slot; for an operand with
  an encoding function nothing checks it, and the register operands of the ESP32-S3 accept
  numbers that their fields cannot hold.
\<close>

theorem operand_round_trip:
  assumes "get_operand isa opc opnd = Inr intop"
    and "operand_ok intop" and "field_ok isa (nat (field_id intop)) width"
    and "0 \<le> fmt" "fmt < num_formats isa" and "0 \<le> slot" "slot < num_slots (formats isa (nat fmt))"
    and "fmt_slot isa fmt slot < isa_num_slots isa"
    and "xtensa_operand_encode isa tmpbuf opc opnd val = Some (Inr (), enc, tmpbuf')"
    and "xtensa_operand_set_field isa opc opnd fmt slot slotbuf enc = Inr slotbuf'"
  shows "xtensa_operand_decode isa opc opnd enc = (Inr (), val) \<and>
    xtensa_operand_get_field isa opc opnd fmt slot slotbuf' = Inr (take_bit width enc) \<and>
    (xtensa_operand_get_field isa opc opnd fmt slot slotbuf' = Inr enc \<longleftrightarrow> unat enc < 2 ^ width) \<and>
    (opnd_encode intop \<noteq> None \<or> unat enc < 2 ^ width)"
proof -
  obtain setf where setf: "set_field_fns (slots isa (fmt_slot isa fmt slot)) (nat (field_id intop)) = Some setf"
    "slotbuf' = setf slotbuf enc" "field_id intop \<noteq> -1"
    using assms(1,4-7,10)
    by (auto simp: xtensa_operand_set_field_def with_operand_def CHECK_FORMAT_def CHECK_SLOT_def split: if_splits option.splits)
  obtain getf where getf: "get_field_fns (slots isa (fmt_slot isa fmt slot)) (nat (field_id intop)) = Some getf"
    "getf (setf slotbuf enc) = take_bit width enc"
    using assms(3,8) setf(1) by (fastforce simp: field_ok_def split: option.splits)
  have "xtensa_operand_get_field isa opc opnd fmt slot slotbuf' = Inr (take_bit width enc)"
    using assms(1,4-7) setf getf
    by (simp add: xtensa_operand_get_field_def with_operand_def CHECK_FORMAT_def CHECK_SLOT_def)
  moreover have "xtensa_operand_decode isa opc opnd enc = (Inr (), val)"
    using assms(1,2,9)
    by (auto simp: xtensa_operand_encode_def xtensa_operand_decode_def operand_ok_def split: option.splits prod.splits if_splits)
  moreover have "opnd_encode intop \<noteq> None \<or> take_bit width enc = enc"
    using default_operand_fits [OF assms(1) _ assms(3,9)] by blast
  ultimately show ?thesis
    by (simp add: take_bit_fits)
qed

text \<open>
  C30. After initialisation, each of the five lookups by name (of opcodes, states, system registers,
  interfaces and functional units) returns an entry of its table that has the name up to case, and
  its error exactly when the table has no such entry: the sorted tables and the binary search agree
  with the tables of the core, for every \<^verbatim>\<open>qsort\<close> that sorts.
\<close>

theorem isa_name_lookups:
  assumes "qsort_sorts qsort" and "isa_names_ok isa0" and "c_string s" and "s \<noteq> []"
    and "isa = xtensa_isa_init qsort isa0"
  shows "name_found xtensa_isa_bad_opcode (\<lambda>n. opc_name (opcodes isa0 n)) (num_opcodes isa0) s (xtensa_opcode_lookup isa (Some s)) \<and>
     name_found xtensa_isa_bad_state (\<lambda>n. st_name (states isa0 n)) (num_states isa0) s (xtensa_state_lookup isa (Some s)) \<and>
     name_found xtensa_isa_bad_sysreg (\<lambda>n. sr_name (sysregs isa0 n)) (num_sysregs isa0) s (xtensa_sysreg_lookup_name isa (Some s)) \<and>
     name_found xtensa_isa_bad_interface (\<lambda>n. intf_name (interfaces isa0 n)) (num_interfaces isa0) s (xtensa_interface_lookup isa (Some s)) \<and>
     name_found xtensa_isa_bad_funcUnit (\<lambda>n. fu_name (funcUnits isa0 n)) (num_funcUnits isa0) s (xtensa_funcUnit_lookup isa (Some s))"
  using assms(2) unfolding isa_names_ok_def
  by (elim conjE, intro conjI)
    (simp_all add: assms(5) xtensa_isa_init_def xtensa_opcode_lookup_def xtensa_state_lookup_def xtensa_sysreg_lookup_name_def
       xtensa_interface_lookup_def xtensa_funcUnit_lookup_def lookup_by_name_found [OF assms(1) _ assms(3,4)])

section \<open>A small core\<close>

text \<open>
  A core with two formats, of three and of two bytes, that the fourth bit of the first byte tells
  apart; one field of four bits in both slots; one register operand without functions and one
  offset in multiples of four.
\<close>

definition small_field_get :: "insnbuf \<Rightarrow> u32" where
  "small_field_get b = take_bit 4 (drop_bit 4 (b 0))"

definition small_field_set :: "insnbuf \<Rightarrow> u32 \<Rightarrow> insnbuf" where
  "small_field_set b x = b(0 := (b 0 AND 0xffffff0f) OR push_bit 4 (take_bit 4 x))"

definition small_slot :: xtensa_slot_internal where
  "small_slot = \<lparr>slot_name = ''Inst'', slot_format = ''x24'', slot_position = 0,
     get_fn = (\<lambda>insn _. insn), set_fn = (\<lambda>_ sb. sb),
     get_field_fns = (\<lambda>f. if f = 0 then Some small_field_get else None),
     set_field_fns = (\<lambda>f. if f = 0 then Some small_field_set else None),
     opcode_decode_fn = (\<lambda>b. int (unat (take_bit 3 (b 0)))), nop_name = Some ''nop''\<rparr>"

definition small_operand :: "nat \<Rightarrow> xtensa_operand_internal" where
  "small_operand n = \<lparr>opnd_name = ''art'', field_id = 0, opnd_regfile = 0, num_regs = 1, opnd_flags = 1,
     opnd_encode = (if n = 0 then None else Some (\<lambda>v. (False, take_bit 4 (drop_bit 2 v)))),
     opnd_decode = (if n = 0 then None else Some (\<lambda>v. (False, push_bit 2 v))),
     do_reloc = None, undo_reloc = None\<rparr>"

definition small_opcode :: "nat \<Rightarrow> xtensa_opcode_internal" where
  "small_opcode n = \<lparr>opc_name = [''nop'', ''L32I'', ''add''] ! n, iclass_id = 0, opc_flags = 0,
     encode_fns = (\<lambda>_. None), num_funcUnit_uses = int n, funcUnit_uses = (\<lambda>i. \<lparr>use_unit = 0, use_stage = 2 + int i\<rparr>)\<rparr>"

definition small_isa :: "bool \<Rightarrow> xtensa_isa_internal" where
  "small_isa big = \<lparr>is_big_endian = big, insn_size = 3, insnbuf_size = 0,
     num_formats = 2,
     formats = (\<lambda>n. \<lparr>fmt_name = ''x24'', fmt_length = (if n = 0 then 3 else 2), fmt_encode_fn = (\<lambda>b. b),
       num_slots = 1, slot_id = (\<lambda>_. n)\<rparr>),
     format_decode_fn = (\<lambda>b. if bit (b 0) (if big then 19 else 3) then 1 else 0),
     length_decode_fn = (\<lambda>cp. if bit (hd cp) 3 then 2 else 3),
     isa_num_slots = 2, slots = (\<lambda>_. small_slot), num_fields = 1,
     isa_num_operands = 2, operands = small_operand, num_iclasses = 1,
     iclasses = (\<lambda>_. \<lparr>num_operands = 2, ic_operands = (\<lambda>n. \<lparr>arg_id = int n, inout = CHR ''i''\<rparr>),
       num_stateOperands = 0, stateOperands = (\<lambda>_. \<lparr>arg_id = 0, inout = CHR ''i''\<rparr>),
       num_interfaceOperands = 0, interfaceOperands = (\<lambda>_. 0)\<rparr>),
     num_opcodes = 3, opcodes = small_opcode, opname_lookup_table = [],
     num_regfiles = 1,
     regfiles = (\<lambda>_. \<lparr>rf_name = ''AR'', rf_shortname = ''a'', rf_parent = 0, rf_num_bits = 32, rf_num_entries = 64\<rparr>),
     num_states = 2, states = (\<lambda>n. \<lparr>st_name = [''LCOUNT'', ''PC''] ! n, st_num_bits = 32, st_flags = 0\<rparr>),
     state_lookup_table = [],
     num_sysregs = 3,
     sysregs = (\<lambda>n. \<lparr>sr_name = [''LBEG'', ''LEND'', ''THREADPTR''] ! n, sr_number = [0, 1, 231] ! n, sr_is_user = [0, 0, 1] ! n\<rparr>),
     sysreg_lookup_table = [], max_sysreg_num = (\<lambda>_. 255), sysreg_table = (\<lambda>_. []),
     num_interfaces = 1,
     interfaces = (\<lambda>_. \<lparr>intf_name = ''IMPWIRE'', intf_num_bits = 32, intf_flags = 0, intf_class_id = 0, intf_inout = CHR ''i''\<rparr>),
     interface_lookup_table = [],
     num_funcUnits = 1, funcUnits = (\<lambda>_. \<lparr>fu_name = ''mul'', fu_num_copies = 1\<rparr>), funcUnit_lookup_table = [],
     num_stages = -1\<rparr>"

lemma small_isa_opcodes [simp]:
  "num_opcodes (small_isa big) = 3" "opcodes (small_isa big) = small_opcode" "num_states (small_isa big) = 2"
  by (simp_all add: small_isa_def)

lemma small_isa_slots [simp]:
  "slots (small_isa big) n = small_slot" "isa_num_slots (small_isa big) = 2" "num_formats (small_isa big) = 2"
  "num_slots (formats (small_isa big) n) = 1" "fmt_slot (small_isa big) fmt slot = nat fmt"
  by (simp_all add: small_isa_def fmt_slot_def)

lemma small_isa_init_bytes [simp]:
  "length_decode_fn (xtensa_isa_init q (small_isa big)) = (\<lambda>cp. if bit (hd cp) 3 then 2 else 3)"
  "format_decode_fn (xtensa_isa_init q (small_isa big)) = (\<lambda>b. if bit (b 0) (if big then 19 else 3) then 1 else 0)"
  "insn_size (xtensa_isa_init q (small_isa big)) = 3" "insnbuf_size (xtensa_isa_init q (small_isa big)) = 1"
  "is_big_endian (xtensa_isa_init q (small_isa big)) = big" "num_formats (xtensa_isa_init q (small_isa big)) = 2"
  "fmt_length (formats (xtensa_isa_init q (small_isa big)) n) = (if n = 0 then 3 else 2)"
  by (simp_all add: small_isa_def xtensa_isa_init_def)

lemma small_isa_names_ok: "isa_names_ok (small_isa big)"
  by (simp add: isa_names_ok_def small_isa_def small_opcode_def c_string_def upt_rec)

lemma small_isa_sysregs_ok: "sysregs_ok (small_isa big)"
  by (simp add: sysregs_ok_def small_isa_def upt_rec)

lemma small_opcode_lowercase:
  "n < 3 \<Longrightarrow> (lowercase (opc_name (small_opcode n)) = lowercase ''l32i'') = (n = 1)"
  by (auto simp: less_Suc_eq numeral_eq_Suc small_opcode_def lowercase_def tolower_def Let_def)

theorem isa_name_lookups_witness:
  "qsort_sorts (sort_key (\<lambda>e. lowercase (key e))) \<and> isa_names_ok (small_isa False) \<and>
   xtensa_opcode_lookup (xtensa_isa_init (sort_key (\<lambda>e. lowercase (key e))) (small_isa False)) (Some ''l32i'') = Inr 1"
proof -
  define r where "r = xtensa_opcode_lookup (xtensa_isa_init (sort_key (\<lambda>e. lowercase (key e))) (small_isa False)) (Some ''l32i'')"
  have "name_found xtensa_isa_bad_opcode (\<lambda>n. opc_name (small_opcode n)) 3 ''l32i'' r"
    using isa_name_lookups [OF qsort_sorts_sort_key small_isa_names_ok _ _ refl, of "''l32i''" False]
    by (simp add: c_string_def r_def)
  then have "r = Inr 1"
    using small_opcode_lowercase [of 1] small_opcode_lowercase
    by (cases r) (auto simp: name_found_def list_all_iff nat_eq_iff2)
  then show ?thesis
    by (simp add: r_def qsort_sorts_sort_key small_isa_names_ok)
qed

theorem sysreg_lookup_exact_witness:
  "sysregs_ok (small_isa False) \<and>
   xtensa_sysreg_lookup (xtensa_isa_init (\<lambda>es. es) (small_isa False)) 231 1 = Inr 2"
proof -
  have "2 < num_sysregs (small_isa False) \<and> 2 = int 2 \<and> sr_number (sysregs (small_isa False) 2) = 231 \<and> (0 :: int) \<le> 231 \<and>
      (sr_is_user (sysregs (small_isa False) 2) \<noteq> 0) = ((1 :: int) \<noteq> 0)"
    by (simp add: small_isa_def)
  then have "xtensa_sysreg_lookup (xtensa_isa_init (\<lambda>es. es) (small_isa False)) 231 1 = Inr 2"
    unfolding sysreg_lookup_exact [OF small_isa_sysregs_ok] by (rule exI)
  then show ?thesis
    by (simp add: small_isa_sysregs_ok)
qed

theorem num_pipe_stages_first_call_witness:
  "fst (xtensa_isa_num_pipe_stages (small_isa False)) = 2 \<and>
   fst (xtensa_isa_num_pipe_stages (snd (xtensa_isa_num_pipe_stages (small_isa False)))) \<ge> 4"
proof -
  have undef: "num_stages (small_isa False) = -1"
    by (simp add: small_isa_def)
  note call = num_pipe_stages_first_call [OF undef prod.collapse [symmetric] prod.collapse [symmetric]]
  have "use_stage (funcUnit_uses (small_opcode 2) 1) < fst (xtensa_isa_num_pipe_stages (snd (xtensa_isa_num_pipe_stages (small_isa False))))"
    using call [THEN conjunct2, THEN conjunct2, THEN conjunct2, THEN conjunct1, rule_format, of 2 1] by (simp add: small_opcode_def)
  then show ?thesis
    using call by (simp add: small_opcode_def)
qed

theorem chars_insnbuf_chars_witness:
  "xtensa_insnbuf_to_chars (xtensa_isa_init (\<lambda>es. es) (small_isa True))
     (xtensa_insnbuf_from_chars (xtensa_isa_init (\<lambda>es. es) (small_isa True)) (\<lambda>_. 7) [0x3d, 0xf0, 0x11] 0) 0 = Inr [0x3d, 0xf0]"
proof -
  define isa where "isa = xtensa_isa_init (\<lambda>es. es) (small_isa True)"
  define buf where "buf = xtensa_insnbuf_from_chars isa (\<lambda>_. 7) [0x3d, 0xf0, 0x11] 0"
  have len: "length_decode_fn isa [0x3d, 0xf0, 0x11] = int 2"
    by (simp add: isa_def)
  have first: "2 = insn_byte isa 0"
    by (simp add: isa_def insn_byte_def start_and_increment_def xtensa_isa_maxlength_def)
  have "byte_of buf 2 = [0x3d, 0xf0, 0x11] ! 0"
    unfolding buf_def by (rule from_chars_bytes(1) [OF len _ _ _ _ _ first]) (simp_all add: isa_def)
  then have "byte_of buf 2 = 0x3d"
    by simp
  from arg_cong [OF this, of "\<lambda>w. bit w 3"] have "bit (buf 0) 19"
    by (simp add: byte_of_def bit_simps)
  then show ?thesis
    using chars_insnbuf_chars [OF refl, of "\<lambda>es. es" "small_isa True" "[0x3d, 0xf0, 0x11]" 2 0 "\<lambda>_. 7" 1]
    unfolding isa_def [symmetric] buf_def [symmetric]
    by (simp add: isa_def xtensa_isa_maxlength_def xtensa_format_decode_def xtensa_format_length_def CHECK_FORMAT_def)
qed

theorem insnbuf_chars_insnbuf_witness:
  "xtensa_insnbuf_to_chars (xtensa_isa_init (\<lambda>es. es) (small_isa False)) (\<lambda>w. if w = 0 then 0xf03d else 0) 0 = Inr [0x3d, 0xf0] \<and>
   xtensa_insnbuf_from_chars (xtensa_isa_init (\<lambda>es. es) (small_isa False)) (\<lambda>_. 7) [0x3d, 0xf0] 0 0 = 0xf03d"
proof -
  define isa where "isa = xtensa_isa_init (\<lambda>es. es) (small_isa False)"
  define insn :: insnbuf where "insn = (\<lambda>w. if w = 0 then 0xf03d else 0)"
  have to_chars: "xtensa_insnbuf_to_chars isa insn 0 = Inr [0x3d, 0xf0]"
    by (simp add: isa_def insn_def xtensa_insnbuf_to_chars_def xtensa_isa_maxlength_def xtensa_format_decode_def
        xtensa_format_length_def CHECK_FORMAT_def start_and_increment_def to_chars_loop_eq byte_of_def upt_rec)
  have zero: "byte_of insn b = 0" if "\<forall>k < length [0x3d :: u8, 0xf0]. b \<noteq> insn_byte isa k" for b
  proof -
    have "b \<noteq> 0" "b \<noteq> 1"
      using that by (auto simp: isa_def insn_byte_def start_and_increment_def less_Suc_eq)
    then consider "b = 2" | "b = 3" | "0 < b div 4"
      by linarith
    then show ?thesis
      by cases (simp_all add: insn_def byte_of_def)
  qed
  have "xtensa_insnbuf_from_chars isa (\<lambda>_. 7) [0x3d, 0xf0] 0 0 = insn 0"
    unfolding isa_def by (rule insnbuf_chars_insnbuf [OF refl to_chars [unfolded isa_def] _ _ zero [unfolded isa_def]])
      (simp_all add: xtensa_isa_maxlength_def xtensa_insnbuf_size_def)
  then show ?thesis
    using to_chars by (simp add: isa_def insn_def)
qed

section \<open>Register operands of the ESP32-S3\<close>

text \<open>
  The operands of \<^verbatim>\<open>add\<close> in the tables of the ESP32-S3 core
  (\<^verbatim>\<open>core-esp32s3/xtensa-modules.inc.c\<close>): the three register fields of the 24-bit format, and
  the encoding and decoding functions they share. The other tables are those of the small core.
\<close>

definition Field_r_Slot_inst_get :: "insnbuf \<Rightarrow> u32" where
  "Field_r_Slot_inst_get insn = push_bit 4 0 OR drop_bit 28 (push_bit 16 (insn 0))"

definition Field_r_Slot_inst_set :: "insnbuf \<Rightarrow> u32 \<Rightarrow> insnbuf" where
  "Field_r_Slot_inst_set insn val =
     (let tie_t = drop_bit 28 (push_bit 28 val) in insn(0 := (insn 0 AND NOT 0xf000) OR push_bit 12 tie_t))"

definition Field_s_Slot_inst_get :: "insnbuf \<Rightarrow> u32" where
  "Field_s_Slot_inst_get insn = push_bit 4 0 OR drop_bit 28 (push_bit 20 (insn 0))"

definition Field_s_Slot_inst_set :: "insnbuf \<Rightarrow> u32 \<Rightarrow> insnbuf" where
  "Field_s_Slot_inst_set insn val =
     (let tie_t = drop_bit 28 (push_bit 28 val) in insn(0 := (insn 0 AND NOT 0xf00) OR push_bit 8 tie_t))"

definition Field_t_Slot_inst_get :: "insnbuf \<Rightarrow> u32" where
  "Field_t_Slot_inst_get insn = push_bit 4 0 OR drop_bit 28 (push_bit 24 (insn 0))"

definition Field_t_Slot_inst_set :: "insnbuf \<Rightarrow> u32 \<Rightarrow> insnbuf" where
  "Field_t_Slot_inst_set insn val =
     (let tie_t = drop_bit 28 (push_bit 28 val) in insn(0 := (insn 0 AND NOT 0xf0) OR push_bit 4 tie_t))"

definition OperandSem_opnd_sem_AR_encode :: "u32 \<Rightarrow> bool \<times> u32" where
  "OperandSem_opnd_sem_AR_encode val = (64 \<le> val, val)"

definition OperandSem_opnd_sem_AR_decode :: "u32 \<Rightarrow> bool \<times> u32" where
  "OperandSem_opnd_sem_AR_decode val = (False, val)"

abbreviation (input) "FIELD_t \<equiv> 0 :: int"
abbreviation (input) "FIELD_s \<equiv> 5 :: int"
abbreviation (input) "FIELD_r \<equiv> 14 :: int"

definition add_operands :: "nat \<Rightarrow> xtensa_operand_internal" where
  "add_operands n = \<lparr>opnd_name = [''arr'', ''ars'', ''art''] ! n, field_id = [FIELD_r, FIELD_s, FIELD_t] ! n,
     opnd_regfile = 0, num_regs = 1, opnd_flags = XTENSA_OPERAND_IS_REGISTER,
     opnd_encode = Some OperandSem_opnd_sem_AR_encode, opnd_decode = Some OperandSem_opnd_sem_AR_decode,
     do_reloc = None, undo_reloc = None\<rparr>"

definition inst_slot :: xtensa_slot_internal where
  "inst_slot = small_slot\<lparr>
     get_field_fns := (\<lambda>f. if f = 0 then Some Field_t_Slot_inst_get else if f = 5 then Some Field_s_Slot_inst_get
        else if f = 14 then Some Field_r_Slot_inst_get else None),
     set_field_fns := (\<lambda>f. if f = 0 then Some Field_t_Slot_inst_set else if f = 5 then Some Field_s_Slot_inst_set
        else if f = 14 then Some Field_r_Slot_inst_set else None)\<rparr>"

definition add_isa :: xtensa_isa_internal where
  "add_isa = (small_isa False)\<lparr>
     num_formats := 1, isa_num_slots := 1, slots := (\<lambda>_. inst_slot), isa_num_operands := 3, operands := add_operands,
     iclasses := (\<lambda>_. \<lparr>num_operands = 3, ic_operands = (\<lambda>n. \<lparr>arg_id = int n, inout = ''oii'' ! n\<rparr>),
       num_stateOperands = 0, stateOperands = (\<lambda>_. \<lparr>arg_id = 0, inout = CHR ''i''\<rparr>),
       num_interfaceOperands = 0, interfaceOperands = (\<lambda>_. 0)\<rparr>)\<rparr>"

lemma add_isa_simps [simp]:
  "slots add_isa n = inst_slot" "isa_num_slots add_isa = 1" "num_formats add_isa = 1"
  "num_slots (formats add_isa n) = 1" "fmt_slot add_isa fmt slot = nat fmt"
  by (simp_all add: add_isa_def fmt_slot_def small_isa_def)

text \<open>Each of the three fields reads back the low four bits.\<close>

lemma four_bit_field:
  fixes w m val :: u32
  assumes "p \<le> 28" "\<And>n. n < 4 \<Longrightarrow> \<not> bit m (n + p)"
  shows "push_bit 4 0 OR drop_bit 28 (push_bit (28 - p) ((w AND m) OR push_bit p (drop_bit 28 (push_bit 28 val)))) =
    take_bit 4 val"
  using assms by (intro bit_word_eqI) (auto simp: bit_simps)

lemma register_fields [simp]:
  "Field_r_Slot_inst_get (Field_r_Slot_inst_set b val) = take_bit 4 val"
  "Field_s_Slot_inst_get (Field_s_Slot_inst_set b val) = take_bit 4 val"
  "Field_t_Slot_inst_get (Field_t_Slot_inst_set b val) = take_bit 4 val"
proof -
  have m: "(0xf000 :: u32) = push_bit 12 (mask 4)" "(0xf00 :: u32) = push_bit 8 (mask 4)" "(0xf0 :: u32) = push_bit 4 (mask 4)"
    by (simp_all add: mask_eq_exp_minus_1)
  show "Field_r_Slot_inst_get (Field_r_Slot_inst_set b val) = take_bit 4 val"
    using four_bit_field [of 12 "NOT 0xf000" "b 0" val]
    unfolding m by (simp add: Field_r_Slot_inst_get_def Field_r_Slot_inst_set_def Let_def m bit_simps)
  show "Field_s_Slot_inst_get (Field_s_Slot_inst_set b val) = take_bit 4 val"
    using four_bit_field [of 8 "NOT 0xf00" "b 0" val]
    unfolding m by (simp add: Field_s_Slot_inst_get_def Field_s_Slot_inst_set_def Let_def m bit_simps)
  show "Field_t_Slot_inst_get (Field_t_Slot_inst_set b val) = take_bit 4 val"
    using four_bit_field [of 4 "NOT 0xf0" "b 0" val]
    unfolding m by (simp add: Field_t_Slot_inst_get_def Field_t_Slot_inst_set_def Let_def m bit_simps)
qed

text \<open>Register 5 survives field \<^verbatim>\<open>s\<close>; number 20 is accepted and reads back as register 4.\<close>

theorem operand_round_trip_witness:
  "xtensa_operand_encode add_isa (\<lambda>_. 0) 2 1 5 = Some (Inr (), 5, \<lambda>_. 0) \<and>
   xtensa_operand_get_field add_isa 2 1 0 0 (Field_s_Slot_inst_set (\<lambda>_. 0) 5) = Inr 5 \<and>
   xtensa_operand_encode add_isa (\<lambda>_. 0) 2 1 20 = Some (Inr (), 20, \<lambda>_. 0) \<and>
   xtensa_operand_get_field add_isa 2 1 0 0 (Field_s_Slot_inst_set (\<lambda>_. 0) 20) = Inr 4"
proof -
  have opnd: "get_operand add_isa 2 1 = Inr (add_operands 1)"
    by (simp add: get_operand_def CHECK_OPCODE_def CHECK_OPERAND_def opc_iclass_def add_isa_def small_opcode_def)
  have ok: "operand_ok (add_operands 1)"
    by (simp add: operand_ok_def add_operands_def)
  have field: "field_ok add_isa (nat (field_id (add_operands 1))) 4"
    by (simp add: field_ok_def inst_slot_def add_operands_def)
  have enc: "xtensa_operand_encode add_isa (\<lambda>_. 0) 2 1 v = Some (Inr (), v, \<lambda>_. 0)" if "v < 64" for v
    using that by (simp add: xtensa_operand_encode_def opnd add_operands_def OperandSem_opnd_sem_AR_encode_def
        OperandSem_opnd_sem_AR_decode_def not_le [symmetric])
  have set: "xtensa_operand_set_field add_isa 2 1 0 0 (\<lambda>_. 0) v = Inr (Field_s_Slot_inst_set (\<lambda>_. 0) v)" for v
    by (simp add: xtensa_operand_set_field_def with_operand_def opnd CHECK_FORMAT_def CHECK_SLOT_def
        add_operands_def inst_slot_def)
  have "xtensa_operand_get_field add_isa 2 1 0 0 (Field_s_Slot_inst_set (\<lambda>_. 0) v) = Inr (take_bit 4 v)" if "v < 64" for v
    using operand_round_trip [OF opnd ok field _ _ _ _ _ enc [OF that] set] by simp
  from this [of 5] this [of 20] enc [of 5] enc [of 20] show ?thesis
    by simp
qed

end
