(* ===== verification/Int128.thy ===== *)
theory Int128
  imports Host_Utils
begin

text \<open>
  The 128-bit integers of \<^verbatim>\<open>include/qemu/int128.h\<close> for hosts without a 128-bit type: a
  structure of two 64-bit halves. The operations are shown to implement those of 128-bit machine
  words, signed and unsigned, which is what the other version of the header compiles to.
\<close>

record Int128 =
  lo :: u64
  hi :: u64

section \<open>Operations\<close>

definition int128_make64 :: "u64 \<Rightarrow> Int128" where
  "int128_make64 a = \<lparr>lo = a, hi = 0\<rparr>"

definition int128_makes64 :: "u64 \<Rightarrow> Int128" where
  "int128_makes64 a = \<lparr>lo = a, hi = signed_drop_bit 63 a\<rparr>"

definition int128_make128 :: "u64 \<Rightarrow> u64 \<Rightarrow> Int128" where
  "int128_make128 l h = \<lparr>lo = l, hi = h\<rparr>"

text \<open>\<^const>\<open>None\<close> is the failed assertion.\<close>

definition int128_get64 :: "Int128 \<Rightarrow> u64 option" where
  "int128_get64 a = (if hi a = 0 then Some (lo a) else None)"

definition int128_getlo :: "Int128 \<Rightarrow> u64" where "int128_getlo a = lo a"
definition int128_gethi :: "Int128 \<Rightarrow> u64" where "int128_gethi a = hi a"
definition int128_zero :: Int128 where "int128_zero = int128_make64 0"
definition int128_one :: Int128 where "int128_one = int128_make64 1"
definition int128_2_64 :: Int128 where "int128_2_64 = int128_make128 0 1"

definition int128_exts64 :: "u64 \<Rightarrow> Int128" where
  "int128_exts64 a = int128_make128 a (if sint a < 0 then -1 else 0)"

definition int128_not :: "Int128 \<Rightarrow> Int128" where
  "int128_not a = int128_make128 (NOT (lo a)) (NOT (hi a))"

definition int128_and :: "Int128 \<Rightarrow> Int128 \<Rightarrow> Int128" where
  "int128_and a b = int128_make128 (lo a AND lo b) (hi a AND hi b)"

definition int128_or :: "Int128 \<Rightarrow> Int128 \<Rightarrow> Int128" where
  "int128_or a b = int128_make128 (lo a OR lo b) (hi a OR hi b)"

definition int128_xor :: "Int128 \<Rightarrow> Int128 \<Rightarrow> Int128" where
  "int128_xor a b = int128_make128 (lo a XOR lo b) (hi a XOR hi b)"

definition int128_rshift :: "Int128 \<Rightarrow> nat \<Rightarrow> Int128" where
  "int128_rshift a n =
     (if n = 0 then a
      else let h = signed_drop_bit (n AND 63) (hi a) in
           if n \<ge> 64 then int128_make128 h (signed_drop_bit 63 h)
           else int128_make128 (drop_bit n (lo a) OR push_bit (64 - n) (hi a)) h)"

definition int128_urshift :: "Int128 \<Rightarrow> nat \<Rightarrow> Int128" where
  "int128_urshift a n =
     (if n = 0 then a
      else let h = drop_bit (n AND 63) (hi a) in
           if n \<ge> 64 then int128_make64 h
           else int128_make128 (drop_bit n (lo a) OR push_bit (64 - n) (hi a)) h)"

definition int128_lshift :: "Int128 \<Rightarrow> nat \<Rightarrow> Int128" where
  "int128_lshift a n =
     (let l = push_bit (n AND 63) (lo a) in
      if n \<ge> 64 then int128_make128 0 l
      else if n > 0 then int128_make128 l (push_bit n (hi a) OR drop_bit (64 - n) (lo a))
      else a)"

definition int128_add :: "Int128 \<Rightarrow> Int128 \<Rightarrow> Int128" where
  "int128_add a b = (let l = lo a + lo b in int128_make128 l (hi a + hi b + of_bool (l < lo a)))"

definition int128_neg :: "Int128 \<Rightarrow> Int128" where
  "int128_neg a = (let l = - lo a in int128_make128 l (NOT (hi a) + of_bool (l = 0)))"

definition int128_sub :: "Int128 \<Rightarrow> Int128 \<Rightarrow> Int128" where
  "int128_sub a b = int128_make128 (lo a - lo b) (hi a - hi b - of_bool (lo a < lo b))"

definition int128_nonneg :: "Int128 \<Rightarrow> bool" where
  "int128_nonneg a = (sint (hi a) \<ge> 0)"

definition int128_eq :: "Int128 \<Rightarrow> Int128 \<Rightarrow> bool" where
  "int128_eq a b = (lo a = lo b \<and> hi a = hi b)"

definition int128_ne :: "Int128 \<Rightarrow> Int128 \<Rightarrow> bool" where
  "int128_ne a b = (\<not> int128_eq a b)"

definition int128_ge :: "Int128 \<Rightarrow> Int128 \<Rightarrow> bool" where
  "int128_ge a b = (sint (hi a) > sint (hi b) \<or> (hi a = hi b \<and> lo a \<ge> lo b))"

definition int128_uge :: "Int128 \<Rightarrow> Int128 \<Rightarrow> bool" where
  "int128_uge a b = (hi a > hi b \<or> (hi a = hi b \<and> lo a \<ge> lo b))"

definition int128_lt :: "Int128 \<Rightarrow> Int128 \<Rightarrow> bool" where "int128_lt a b = (\<not> int128_ge a b)"
definition int128_ult :: "Int128 \<Rightarrow> Int128 \<Rightarrow> bool" where "int128_ult a b = (\<not> int128_uge a b)"
definition int128_le :: "Int128 \<Rightarrow> Int128 \<Rightarrow> bool" where "int128_le a b = int128_ge b a"
definition int128_gt :: "Int128 \<Rightarrow> Int128 \<Rightarrow> bool" where "int128_gt a b = (\<not> int128_le a b)"

definition int128_nz :: "Int128 \<Rightarrow> bool" where
  "int128_nz a = (lo a \<noteq> 0 \<or> hi a \<noteq> 0)"

definition int128_min :: "Int128 \<Rightarrow> Int128 \<Rightarrow> Int128" where "int128_min a b = (if int128_le a b then a else b)"
definition int128_max :: "Int128 \<Rightarrow> Int128 \<Rightarrow> Int128" where "int128_max a b = (if int128_ge a b then a else b)"

definition int128_addto :: "Int128 \<Rightarrow> Int128 \<Rightarrow> Int128" where "int128_addto a b = int128_add a b"
definition int128_subfrom :: "Int128 \<Rightarrow> Int128 \<Rightarrow> Int128" where "int128_subfrom a b = int128_sub a b"

definition bswap128 :: "Int128 \<Rightarrow> Int128" where
  "bswap128 a = int128_make128 (bswap64 (hi a)) (bswap64 (lo a))"

text \<open>\<^verbatim>\<open>__builtin_clzll\<close> of a number that is not zero is \<^const>\<open>clz64\<close>.\<close>

definition clz128 :: "Int128 \<Rightarrow> nat" where
  "clz128 a = (if hi a \<noteq> 0 then clz64 (hi a) else if lo a \<noteq> 0 then clz64 (lo a) + 64 else 128)"

section \<open>The 128-bit word of a structure\<close>

definition word128 :: "Int128 \<Rightarrow> u128" where
  "word128 a = push_bit 64 (ucast (hi a)) OR ucast (lo a)"

lemma bit_word128: "bit (word128 a) n = (if n < 64 then bit (lo a) n else n < 128 \<and> bit (hi a) (n - 64))"
  by (auto simp: word128_def bit_simps dest: bit_imp_le_length)

lemma unat_word128: "unat (word128 a) = val128 (hi a) (lo a)"
proof -
  have "unat (ucast (hi a) :: u128) * 2 ^ 64 + unat (ucast (lo a) :: u128) < 2 ^ LENGTH(128)"
    using val128_less [of "hi a" "lo a"] by (simp add: unat_ucast_up val128_def)
  moreover have "unat (ucast (lo a) :: u128) < 2 ^ 64"
    using unat64_less [of "lo a"] by (simp add: unat_ucast_up)
  ultimately show ?thesis
    unfolding word128_def using unat_concat [of "ucast (lo a) :: u128" 64 "ucast (hi a)"]
    by (simp add: unat_ucast_up val128_def)
qed

lemma make128_sel [simp]: "lo (int128_make128 l h) = l" "hi (int128_make128 l h) = h"
  by (simp_all add: int128_make128_def)

text \<open>Every 128-bit word is the word of one structure.\<close>

lemma word128_inject: "word128 a = word128 b \<longleftrightarrow> a = b"
proof
  assume eq: "word128 a = word128 b"
  have "bit (lo a) n = bit (lo b) n" "bit (hi a) n = bit (hi b) n" if "n < 64" for n
    using arg_cong [OF eq, of "\<lambda>w. bit w n"] arg_cong [OF eq, of "\<lambda>w. bit w (n + 64)"] that
    by (simp_all add: bit_word128)
  then have "lo a = lo b" "hi a = hi b"
    by (auto intro!: bit_word_eqI)
  then show "a = b"
    by simp
qed simp

lemma word128_surj: "word128 (int128_make128 (ucast w) (ucast (drop_bit 64 w))) = w"
  by (rule bit_word_eqI) (auto simp: bit_word128 bit_simps)

section \<open>Refinement\<close>

lemma word128_bitwise:
  "word128 (int128_not a) = NOT (word128 a)"
  "word128 (int128_and a b) = word128 a AND word128 b"
  "word128 (int128_or a b) = word128 a OR word128 b"
  "word128 (int128_xor a b) = word128 a XOR word128 b"
  by (rule bit_word_eqI, auto simp: bit_word128 int128_not_def int128_and_def int128_or_def int128_xor_def bit_simps)+

lemma and_63: "n < 64 \<Longrightarrow> n AND 63 = n" "64 \<le> n \<Longrightarrow> n < 128 \<Longrightarrow> n AND 63 = n - 64" for n :: nat
proof -
  have "n AND 63 = n mod 64" for n :: nat
    using take_bit_eq_mask [of 6 n] by (simp add: mask_eq_exp_minus_1 take_bit_eq_mod)
  then show "n < 64 \<Longrightarrow> n AND 63 = n" "64 \<le> n \<Longrightarrow> n < 128 \<Longrightarrow> n AND 63 = n - 64"
    by (simp_all add: mod_if)
qed

lemma bit_signed_shifts:
  "bit (signed_drop_bit k (w :: u64)) m \<longleftrightarrow> m < 64 \<and> bit w (if k + m < 64 then k + m else 63)"
  "bit (signed_drop_bit k (v :: u128)) m \<longleftrightarrow> m < 128 \<and> bit v (if k + m < 128 then k + m else 127)"
  by (auto simp: bit_signed_drop_bit_iff dest: bit_imp_le_length)

lemma word128_shifts:
  assumes "n < 128"
  shows "word128 (int128_lshift a n) = push_bit n (word128 a)"
    and "word128 (int128_urshift a n) = drop_bit n (word128 a)"
    and "word128 (int128_rshift a n) = signed_drop_bit n (word128 a)"
proof -
  show "word128 (int128_lshift a n) = push_bit n (word128 a)"
  proof (rule bit_word_eqI)
    fix m assume "m < LENGTH(128)"
    then show "bit (word128 (int128_lshift a n)) m = bit (push_bit n (word128 a)) m"
      using assms by (cases "n < 64")
        (auto simp: bit_word128 int128_lshift_def Let_def and_63 bit_simps add.commute dest: bit_imp_le_length)
  qed
  show "word128 (int128_urshift a n) = drop_bit n (word128 a)"
  proof (rule bit_word_eqI)
    fix m assume "m < LENGTH(128)"
    then show "bit (word128 (int128_urshift a n)) m = bit (drop_bit n (word128 a)) m"
      using assms by (cases "n < 64")
        (auto simp: bit_word128 int128_urshift_def int128_make64_def Let_def and_63 bit_simps add.commute dest: bit_imp_le_length)
  qed
  show "word128 (int128_rshift a n) = signed_drop_bit n (word128 a)"
  proof (rule bit_word_eqI)
    fix m assume "m < LENGTH(128)"
    then have m: "m < 128"
      by simp
    show "bit (word128 (int128_rshift a n)) m = bit (signed_drop_bit n (word128 a)) m"
    proof (cases "n < 64")
      case True
      have lower: "bit (drop_bit n (lo a) OR push_bit (64 - n) (hi a)) m = bit (word128 a) (n + m)" if "m < 64" "n \<noteq> 0"
        using True that by (cases "n + m < 64") (auto simp: bit_word128 bit_or_iff bit_drop_bit_eq bit_push_bit_iff no_bit add.commute)
      show ?thesis
        using True m lower by (cases "n = 0"; cases "m < 64"; cases "n + m < 128")
          (simp_all add: bit_word128 int128_rshift_def and_63 bit_signed_shifts, linarith+)
    next
      case False
      have upper: "bit (signed_drop_bit 63 (signed_drop_bit (n - 64) (hi a))) (m - 64) = bit (hi a) 63" if "64 \<le> m"
      proof -
        have "m - 64 < 64" "n = 64 \<or> \<not> 63 + (n - 64) + (m - 64) < 64"
          using False that m by auto
        then show ?thesis
          by (cases "m = 64") (auto simp: bit_signed_shifts)
      qed
      show ?thesis
      proof (cases "m < 64")
        case True
        then show ?thesis
          using False assms by (cases "n + m < 128") (auto simp: int128_rshift_def and_63 bit_signed_shifts bit_word128)
      next
        case False
        then show ?thesis
          using \<open>\<not> n < 64\<close> assms m upper by (simp add: int128_rshift_def and_63 bit_word128 bit_signed_shifts)
      qed
    qed
  qed
qed

lemma carry64: "x + y < x \<longleftrightarrow> 2 ^ 64 \<le> unat x + unat y" for x y :: u64
  using unat_add64 [of x y] unat64_less [of y] by (cases "2 ^ 64 \<le> unat x + unat y") (simp_all add: word_less_nat_alt)

lemma borrow64: "x < x - y \<longleftrightarrow> x < y" for x y :: u64
  using unat_sub64 [of x y] unat64_less [of y] by (cases "unat x < unat y") (simp_all add: word_less_nat_alt)

lemma word128_add: "word128 (int128_add a b) = word128 a + word128 b"
proof -
  define l where "l = lo a + lo b"
  define c :: u64 where "c = of_bool (l < lo a)"
  define h where "h = hi a + hi b + c"
  define k where "k = (unat (hi a) + unat (hi b) + unat c) div 2 ^ 64"
  have l: "unat l + 2 ^ 64 * unat c = unat (lo a) + unat (lo b)"
    using unat_add64 [of "lo a" "lo b"]
    by (cases "2 ^ 64 \<le> unat (lo a) + unat (lo b)") (simp_all add: l_def c_def carry64)
  have "unat h = (unat (hi a) + unat (hi b) + unat c) mod 2 ^ 64"
    by (simp add: h_def unat_word_ariths mod_simps)
  then have h: "unat h + 2 ^ 64 * k = unat (hi a) + unat (hi b) + unat c"
    by (simp add: k_def)
  have "val128 h l + 2 ^ 128 * k = val128 (hi a) (lo a) + val128 (hi b) (lo b)"
    using arg_cong [OF h, of "\<lambda>x. x * 2 ^ 64"] l by (simp add: val128_def algebra_simps)
  then have "(val128 (hi a) (lo a) + val128 (hi b) (lo b)) mod 2 ^ 128 = val128 h l mod 2 ^ 128"
    by (metis mod_mult_self2)
  then have "unat (word128 a + word128 b) = val128 h l"
    using val128_less [of h l] by (simp add: unat_word_ariths unat_word128)
  moreover have "int128_add a b = int128_make128 l h"
    by (simp add: int128_add_def l_def h_def c_def)
  ultimately show ?thesis
    by (simp add: word_unat_eq_iff unat_word128)
qed

lemma word128_sub: "word128 (int128_sub a b) = word128 a - word128 b"
proof -
  have "int128_add (int128_sub a b) b = a"
    by (simp add: int128_add_def int128_sub_def int128_make128_def borrow64)
  then show ?thesis
    using word128_add [of "int128_sub a b" b] by (simp add: algebra_simps)
qed

lemma word128_neg: "word128 (int128_neg a) = - word128 a"
proof -
  have "int128_neg a = int128_sub int128_zero a"
    by (simp add: int128_neg_def int128_sub_def int128_zero_def int128_make64_def not_eq_complement word_gt_0)
  moreover have "word128 int128_zero = 0"
    by (simp add: word128_def int128_zero_def int128_make64_def)
  ultimately show ?thesis
    by (simp add: word128_sub)
qed

lemma sint_word128: "sint (word128 a) = sint (hi a) * 2 ^ 64 + int (unat (lo a))"
proof -
  have s64: "sint w = int (unat w) - 2 ^ 64 * of_bool (bit w 63)" for w :: u64
  proof -
    have "sint w = take_bit 64 (uint w) - 2 ^ 64 * of_bool (bit (uint w) 63)"
      by (subst sint_uint, subst signed_take_bit_eq_take_bit_minus) simp
    then show ?thesis
      using unsigned_less [where ?'a = int, of w] by (simp add: take_bit_int_eq_self_iff bit_uint_iff)
  qed
  have "sint (word128 a) = take_bit 128 (uint (word128 a)) - 2 ^ 128 * of_bool (bit (uint (word128 a)) 127)"
    by (subst sint_uint, subst signed_take_bit_eq_take_bit_minus) simp
  then have "sint (word128 a) = int (val128 (hi a) (lo a)) - 2 ^ 128 * of_bool (bit (hi a) 63)"
    using unsigned_less [where ?'a = int, of "word128 a"]
    by (simp add: take_bit_int_eq_self_iff bit_uint_iff bit_word128 unat_word128 [symmetric])
  then show ?thesis
    by (simp add: s64 val128_def)
qed

lemma lex_le_iff:
  fixes x y :: int
  assumes "0 \<le> l" "l < B" "0 \<le> m" "m < B"
  shows "x * B + l \<le> y * B + m \<longleftrightarrow> x < y \<or> (x = y \<and> l \<le> m)"
proof (cases x y rule: linorder_cases)
  case less
  then have "(x + 1) * B \<le> y * B"
    using assms by (intro mult_right_mono) simp_all
  then show ?thesis
    using less assms by (simp add: algebra_simps)
next
  case greater
  then have "(y + 1) * B \<le> x * B"
    using assms by (intro mult_right_mono) simp_all
  then show ?thesis
    using greater assms by (simp add: algebra_simps)
qed simp

lemma lex_le_iff_nat:
  fixes x y :: nat
  assumes "l < B" "m < B"
  shows "x * B + l \<le> y * B + m \<longleftrightarrow> x < y \<or> (x = y \<and> l \<le> m)"
  using lex_le_iff [of "int l" "int B" "int m" "int x" "int y"] assms by (simp flip: of_nat_mult of_nat_add)

lemma word128_order:
  "int128_ge a b \<longleftrightarrow> sint (word128 b) \<le> sint (word128 a)"
  "int128_uge a b \<longleftrightarrow> word128 b \<le> word128 a"
  "int128_nonneg a \<longleftrightarrow> 0 \<le> sint (word128 a)"
proof -
  have l: "0 \<le> int (unat x)" "int (unat x) < 2 ^ 64" for x :: u64
    using unsigned_less [where ?'a = int, of x] by simp_all
  note lex = lex_le_iff [OF l l]
  have inj: "sint x = sint y \<longleftrightarrow> x = y" for x y :: u64
    by (rule word_eq_iff_signed [symmetric])
  show "int128_ge a b \<longleftrightarrow> sint (word128 b) \<le> sint (word128 a)"
    unfolding sint_word128 lex int128_ge_def using inj [of "hi a" "hi b"] by (auto simp: word_le_def)
  have lo_less: "unat (lo c) < 2 ^ 64" for c
    using unat64_less [of "lo c"] by simp
  show "int128_uge a b \<longleftrightarrow> word128 b \<le> word128 a"
    unfolding word_le_nat_alt [of "word128 b"] unat_word128 val128_def lex_le_iff_nat [OF lo_less lo_less]
    by (auto simp: int128_uge_def word_le_nat_alt word_less_nat_alt word_unat_eq_iff)
  show "int128_nonneg a \<longleftrightarrow> 0 \<le> sint (word128 a)"
    unfolding sint_word128 using lex_le_iff [of 0 "2 ^ 64" "int (unat (lo a))" 0 "sint (hi a)"] l [of "lo a"]
    by (auto simp: int128_nonneg_def)
qed

text \<open>
  C35. The structure of two halves implements 128-bit integers: on the 128-bit word of its halves,
  each of these operations of the header is the machine operation, signed or unsigned:
  addition, subtraction and negation with wrap-around, the bitwise operations, the three shifts by
  less than 128, the signed and the unsigned comparisons, and the tests for zero and sign.
\<close>

theorem int128_refines_words:
  "word128 (int128_add a b) = word128 a + word128 b \<and>
   word128 (int128_sub a b) = word128 a - word128 b \<and>
   word128 (int128_neg a) = - word128 a \<and>
   word128 (int128_not a) = NOT (word128 a) \<and>
   word128 (int128_and a b) = word128 a AND word128 b \<and>
   word128 (int128_or a b) = word128 a OR word128 b \<and>
   word128 (int128_xor a b) = word128 a XOR word128 b \<and>
   (n < 128 \<longrightarrow> word128 (int128_lshift a n) = push_bit n (word128 a) \<and>
      word128 (int128_urshift a n) = drop_bit n (word128 a) \<and>
      word128 (int128_rshift a n) = signed_drop_bit n (word128 a)) \<and>
   (int128_eq a b \<longleftrightarrow> word128 a = word128 b) \<and> (int128_nz a \<longleftrightarrow> word128 a \<noteq> 0) \<and>
   (int128_nonneg a \<longleftrightarrow> 0 \<le> sint (word128 a)) \<and>
   (int128_ge a b \<longleftrightarrow> sint (word128 b) \<le> sint (word128 a)) \<and> (int128_lt a b \<longleftrightarrow> sint (word128 a) < sint (word128 b)) \<and>
   (int128_le a b \<longleftrightarrow> sint (word128 a) \<le> sint (word128 b)) \<and> (int128_gt a b \<longleftrightarrow> sint (word128 b) < sint (word128 a)) \<and>
   (int128_uge a b \<longleftrightarrow> word128 b \<le> word128 a) \<and> (int128_ult a b \<longleftrightarrow> word128 a < word128 b)"
proof -
  have "int128_eq a b \<longleftrightarrow> word128 a = word128 b"
    by (auto simp: word128_inject int128_eq_def)
  moreover have "int128_nz a \<longleftrightarrow> word128 a \<noteq> 0"
    by (auto simp: int128_nz_def unat_eq_0 [symmetric] unat_word128 val128_def)
  ultimately show ?thesis
    by (simp add: word128_add word128_sub word128_neg word128_bitwise word128_shifts word128_order
        int128_lt_def int128_le_def int128_gt_def int128_ult_def not_le)
qed

theorem int128_refines_words_witness:
  "word128 (int128_add \<lparr>lo = -1, hi = 5\<rparr> int128_one) = word128 \<lparr>lo = -1, hi = 5\<rparr> + word128 int128_one \<and>
   (64 :: nat) < 128 \<and> word128 (int128_rshift \<lparr>lo = 0, hi = -2\<rparr> 64) = signed_drop_bit 64 (word128 \<lparr>lo = 0, hi = -2\<rparr>)"
  using int128_refines_words [of "\<lparr>lo = -1, hi = 5\<rparr>" int128_one 0]
    int128_refines_words [of "\<lparr>lo = 0, hi = -2\<rparr>" int128_one 64] by simp

end
