(* ===== verification/Softfloat_Macros.thy ===== *)
theory Softfloat_Macros
  imports Host_Utils
begin

text \<open>
  The multi-word integer arithmetic below the floating-point routines of the reference emulator,
  \<^verbatim>\<open>include/fpu/softfloat-macros.h\<close>: shifts that keep a sticky bit, additions, products
  and comparisons of two, three and four 64-bit words, most significant word first, and the estimate
  of a quotient. Shift counts are the \<^verbatim>\<open>int\<close> of the code; a function returns the tuple of
  the words it stores.
\<close>

section \<open>Shifts\<close>

definition shl_double :: "u64 \<Rightarrow> u64 \<Rightarrow> nat \<Rightarrow> u64" where
  "shl_double l r c = (if c \<noteq> 0 then push_bit c l OR drop_bit (64 - c) r else l)"

definition shr_double :: "u64 \<Rightarrow> u64 \<Rightarrow> nat \<Rightarrow> u64" where
  "shr_double l r c = (if c \<noteq> 0 then drop_bit c r OR push_bit (64 - c) l else r)"

definition shift32RightJamming :: "u32 \<Rightarrow> int \<Rightarrow> u32" where
  "shift32RightJamming a count =
     (if count = 0 then a
      else if count < 32 then drop_bit (nat count) a OR of_bool (push_bit (nat (- count AND 31)) a \<noteq> 0)
      else of_bool (a \<noteq> 0))"

definition shift64RightJamming :: "u64 \<Rightarrow> int \<Rightarrow> u64" where
  "shift64RightJamming a count =
     (if count = 0 then a
      else if count < 64 then drop_bit (nat count) a OR of_bool (push_bit (nat (- count AND 63)) a \<noteq> 0)
      else of_bool (a \<noteq> 0))"

definition shift64ExtraRightJamming :: "u64 \<Rightarrow> u64 \<Rightarrow> int \<Rightarrow> u64 \<times> u64" where
  "shift64ExtraRightJamming a0 a1 count =
     (let negCount = nat (- count AND 63) in
      if count = 0 then (a0, a1)
      else if count < 64 then (drop_bit (nat count) a0, push_bit negCount a0 OR of_bool (a1 \<noteq> 0))
      else (0, if count = 64 then a0 OR of_bool (a1 \<noteq> 0) else of_bool (a0 OR a1 \<noteq> 0)))"

definition shift128Right :: "u64 \<Rightarrow> u64 \<Rightarrow> int \<Rightarrow> u64 \<times> u64" where
  "shift128Right a0 a1 count =
     (let negCount = nat (- count AND 63) in
      if count = 0 then (a0, a1)
      else if count < 64 then (drop_bit (nat count) a0, push_bit negCount a0 OR drop_bit (nat count) a1)
      else (0, if count < 128 then drop_bit (nat (count AND 63)) a0 else 0))"

definition shift128RightJamming :: "u64 \<Rightarrow> u64 \<Rightarrow> int \<Rightarrow> u64 \<times> u64" where
  "shift128RightJamming a0 a1 count =
     (let negCount = nat (- count AND 63) in
      if count = 0 then (a0, a1)
      else if count < 64
      then (drop_bit (nat count) a0,
            push_bit negCount a0 OR drop_bit (nat count) a1 OR of_bool (push_bit negCount a1 \<noteq> 0))
      else (0, if count = 64 then a0 OR of_bool (a1 \<noteq> 0)
               else if count < 128
               then drop_bit (nat (count AND 63)) a0 OR of_bool (push_bit negCount a0 OR a1 \<noteq> 0)
               else of_bool (a0 OR a1 \<noteq> 0)))"

definition shift128ExtraRightJamming :: "u64 \<Rightarrow> u64 \<Rightarrow> u64 \<Rightarrow> int \<Rightarrow> u64 \<times> u64 \<times> u64" where
  "shift128ExtraRightJamming a0 a1 a2 count =
     (let negCount = nat (- count AND 63) in
      if count = 0 then (a0, a1, a2)
      else
        let (z0, z1, z2, a2) =
          (if count < 64
           then (drop_bit (nat count) a0, push_bit negCount a0 OR drop_bit (nat count) a1, push_bit negCount a1, a2)
           else if count = 64 then (0, a0, a1, a2)
           else let a2 = a2 OR a1 in
                if count < 128 then (0, drop_bit (nat (count AND 63)) a0, push_bit negCount a0, a2)
                else (0, 0, if count = 128 then a0 else of_bool (a0 \<noteq> 0), a2))
        in (z0, z1, z2 OR of_bool (a2 \<noteq> 0)))"

definition shortShift128Left :: "u64 \<Rightarrow> u64 \<Rightarrow> int \<Rightarrow> u64 \<times> u64" where
  "shortShift128Left a0 a1 count =
     (if count = 0 then a0 else push_bit (nat count) a0 OR drop_bit (nat (- count AND 63)) a1,
      push_bit (nat count) a1)"

definition shift128Left :: "u64 \<Rightarrow> u64 \<Rightarrow> int \<Rightarrow> u64 \<times> u64" where
  "shift128Left a0 a1 count =
     (if count < 64
      then (if count = 0 then a0 else push_bit (nat count) a0 OR drop_bit (nat (- count AND 63)) a1,
            push_bit (nat count) a1)
      else (push_bit (nat (count - 64)) a1, 0))"

definition shortShift192Left :: "u64 \<Rightarrow> u64 \<Rightarrow> u64 \<Rightarrow> int \<Rightarrow> u64 \<times> u64 \<times> u64" where
  "shortShift192Left a0 a1 a2 count =
     (let z2 = push_bit (nat count) a2; z1 = push_bit (nat count) a1; z0 = push_bit (nat count) a0;
          negCount = nat (- count AND 63)
      in if 0 < count then (z0 OR drop_bit negCount a1, z1 OR drop_bit negCount a2, z2) else (z0, z1, z2))"

section \<open>Sums and products\<close>

definition add128 :: "u64 \<Rightarrow> u64 \<Rightarrow> u64 \<Rightarrow> u64 \<Rightarrow> u64 \<times> u64" where
  "add128 a0 a1 b0 b1 =
     (let (z1, c) = uadd64_carry a1 b1 False; (z0, c) = uadd64_carry a0 b0 c in (z0, z1))"

definition add192 :: "u64 \<Rightarrow> u64 \<Rightarrow> u64 \<Rightarrow> u64 \<Rightarrow> u64 \<Rightarrow> u64 \<Rightarrow> u64 \<times> u64 \<times> u64" where
  "add192 a0 a1 a2 b0 b1 b2 =
     (let (z2, c) = uadd64_carry a2 b2 False; (z1, c) = uadd64_carry a1 b1 c; (z0, c) = uadd64_carry a0 b0 c
      in (z0, z1, z2))"

definition sub128 :: "u64 \<Rightarrow> u64 \<Rightarrow> u64 \<Rightarrow> u64 \<Rightarrow> u64 \<times> u64" where
  "sub128 a0 a1 b0 b1 =
     (let (z1, c) = usub64_borrow a1 b1 False; (z0, c) = usub64_borrow a0 b0 c in (z0, z1))"

definition sub192 :: "u64 \<Rightarrow> u64 \<Rightarrow> u64 \<Rightarrow> u64 \<Rightarrow> u64 \<Rightarrow> u64 \<Rightarrow> u64 \<times> u64 \<times> u64" where
  "sub192 a0 a1 a2 b0 b1 b2 =
     (let (z2, c) = usub64_borrow a2 b2 False; (z1, c) = usub64_borrow a1 b1 c; (z0, c) = usub64_borrow a0 b0 c
      in (z0, z1, z2))"

definition mul64To128 :: "u64 \<Rightarrow> u64 \<Rightarrow> u64 \<times> u64" where
  "mul64To128 a b = (let (z1, z0) = mulu64 a b in (z0, z1))"

definition mul128By64To192 :: "u64 \<Rightarrow> u64 \<Rightarrow> u64 \<Rightarrow> u64 \<times> u64 \<times> u64" where
  "mul128By64To192 a0 a1 b =
     (let (m1, z2) = mul64To128 a1 b;
          (z0, z1) = mul64To128 a0 b;
          (z0, z1) = add128 z0 z1 0 m1
      in (z0, z1, z2))"

definition mul128To256 :: "u64 \<Rightarrow> u64 \<Rightarrow> u64 \<Rightarrow> u64 \<Rightarrow> u64 \<times> u64 \<times> u64 \<times> u64" where
  "mul128To256 a0 a1 b0 b1 =
     (let (m1, m2) = mul64To128 a1 b0;
          (n1, n2) = mul64To128 a0 b1;
          (z2, z3) = mul64To128 a1 b1;
          (z0, z1) = mul64To128 a0 b0;
          (m0, m1, m2) = add192 0 m1 m2 0 n1 n2;
          (z0, z1, z2) = add192 m0 m1 m2 z0 z1 z2
      in (z0, z1, z2, z3))"

section \<open>Estimate of a quotient\<close>

text \<open>The loop that corrects the leading digit; it may not end for a divisor that is not normalised.\<close>

partial_function (option) estimate_loop :: "u64 \<Rightarrow> u64 \<Rightarrow> u64 \<Rightarrow> u64 \<Rightarrow> u64 \<Rightarrow> (u64 \<times> u64 \<times> u64) option" where
  "estimate_loop b b0 z rem0 rem1 =
     (if sint rem0 < 0 then
        let z = z - 0x100000000; b1 = push_bit 32 b; (rem0, rem1) = add128 rem0 rem1 b0 b1
        in estimate_loop b b0 z rem0 rem1
      else Some (z, rem0, rem1))"

definition estimateDiv128To64 :: "u64 \<Rightarrow> u64 \<Rightarrow> u64 \<Rightarrow> u64 option" where
  "estimateDiv128To64 a0 a1 b =
     (if b \<le> a0 then Some 0xFFFFFFFFFFFFFFFF
      else
        let b0 = drop_bit 32 b;
            z = (if push_bit 32 b0 \<le> a0 then 0xFFFFFFFF00000000 else push_bit 32 (a0 div b0));
            (term0, term1) = mul64To128 b z;
            (rem0, rem1) = sub128 a0 a1 term0 term1
        in case estimate_loop b b0 z rem0 rem1 of
             None \<Rightarrow> None
           | Some (z, rem0, rem1) \<Rightarrow>
               let rem0 = push_bit 32 rem0 OR drop_bit 32 rem1
               in Some (z OR (if push_bit 32 b0 \<le> rem0 then 0xFFFFFFFF else rem0 div b0)))"

section \<open>Estimate of a square root\<close>

definition sqrtOddAdjustments :: "u32 list" where
  "sqrtOddAdjustments =
     [0x0004, 0x0022, 0x005D, 0x00B1, 0x011D, 0x019F, 0x0236, 0x02E0,
      0x039C, 0x0468, 0x0545, 0x0631, 0x072B, 0x0832, 0x0946, 0x0A67]"

definition sqrtEvenAdjustments :: "u32 list" where
  "sqrtEvenAdjustments =
     [0x0A2D, 0x08AF, 0x075A, 0x0629, 0x051A, 0x0429, 0x0356, 0x029E,
      0x0200, 0x0179, 0x0109, 0x00AF, 0x0068, 0x0034, 0x0012, 0x0002]"

text \<open>A division by zero, which the code does not exclude for every argument, is \<^term>\<open>None\<close>.\<close>

definition div_or_trap :: "'a::len word \<Rightarrow> 'a word \<Rightarrow> 'a word option" where
  "div_or_trap a b = (if b = 0 then None else Some (a div b))"

definition sqrt_last_step :: "u32 \<Rightarrow> u32 \<Rightarrow> u32 option" where
  "sqrt_last_step a z =
     map_option (\<lambda>q. ucast q + drop_bit 1 z) (div_or_trap (push_bit 31 (ucast a :: u64)) (ucast z))"

definition estimateSqrt32 :: "int \<Rightarrow> u32 \<Rightarrow> u32 option" where
  "estimateSqrt32 aExp a =
     (let index = unat (drop_bit 27 a AND 15) in
      if aExp AND 1 \<noteq> 0 then
        let z = 0x4000 + drop_bit 17 a - sqrtOddAdjustments ! index in
        Option.bind (div_or_trap a z) (\<lambda>q.
          sqrt_last_step (drop_bit 1 a) (push_bit 14 q + push_bit 15 z))
      else
        let z = 0x8000 + drop_bit 17 a - sqrtEvenAdjustments ! index in
        Option.bind (div_or_trap a z) (\<lambda>q.
          let z = q + z; z = (if 0x20000 \<le> z then 0xFFFF8000 else push_bit 15 z) in
          if z \<le> a then Some (signed_drop_bit 1 a) else sqrt_last_step a z))"

section \<open>Comparisons\<close>

definition eq128 :: "u64 \<Rightarrow> u64 \<Rightarrow> u64 \<Rightarrow> u64 \<Rightarrow> bool" where
  "eq128 a0 a1 b0 b1 = (a0 = b0 \<and> a1 = b1)"

definition le128 :: "u64 \<Rightarrow> u64 \<Rightarrow> u64 \<Rightarrow> u64 \<Rightarrow> bool" where
  "le128 a0 a1 b0 b1 = (a0 < b0 \<or> (a0 = b0 \<and> a1 \<le> b1))"

definition lt128 :: "u64 \<Rightarrow> u64 \<Rightarrow> u64 \<Rightarrow> u64 \<Rightarrow> bool" where
  "lt128 a0 a1 b0 b1 = (a0 < b0 \<or> (a0 = b0 \<and> a1 < b1))"

definition ne128 :: "u64 \<Rightarrow> u64 \<Rightarrow> u64 \<Rightarrow> u64 \<Rightarrow> bool" where
  "ne128 a0 a1 b0 b1 = (a0 \<noteq> b0 \<or> a1 \<noteq> b1)"

definition eq192 :: "u64 \<Rightarrow> u64 \<Rightarrow> u64 \<Rightarrow> u64 \<Rightarrow> u64 \<Rightarrow> u64 \<Rightarrow> bool" where
  "eq192 a0 a1 a2 b0 b1 b2 = ((a0 XOR b0) OR (a1 XOR b1) OR (a2 XOR b2) = 0)"

definition le192 :: "u64 \<Rightarrow> u64 \<Rightarrow> u64 \<Rightarrow> u64 \<Rightarrow> u64 \<Rightarrow> u64 \<Rightarrow> bool" where
  "le192 a0 a1 a2 b0 b1 b2 = (if a0 \<noteq> b0 then a0 < b0 else if a1 \<noteq> b1 then a1 < b1 else a2 \<le> b2)"

definition lt192 :: "u64 \<Rightarrow> u64 \<Rightarrow> u64 \<Rightarrow> u64 \<Rightarrow> u64 \<Rightarrow> u64 \<Rightarrow> bool" where
  "lt192 a0 a1 a2 b0 b1 b2 = (if a0 \<noteq> b0 then a0 < b0 else if a1 \<noteq> b1 then a1 < b1 else a2 < b2)"

section \<open>Sums, products and comparisons are exact\<close>

definition val192 :: "u64 \<Rightarrow> u64 \<Rightarrow> u64 \<Rightarrow> nat" where
  "val192 a0 a1 a2 = val128 a0 a1 * 2 ^ 64 + unat a2"

lemma val192_less: "val192 a0 a1 a2 < 2 ^ 192"
proof -
  have "val192 a0 a1 a2 < (val128 a0 a1 + 1) * 2 ^ 64"
    using unat64_less [of a2] by (simp add: val192_def)
  also have "\<dots> \<le> 2 ^ 128 * 2 ^ 64"
    using val128_less [of a0 a1] by (intro mult_right_mono) simp_all
  finally show ?thesis
    by simp
qed

text \<open>A value below the modulus that differs by a multiple of it is the remainder.\<close>

lemma mod_by_carry: "(z :: nat) < m \<Longrightarrow> z + m * k = v \<Longrightarrow> z = v mod m"
  by auto

lemma add128_exact:
  assumes "add128 a0 a1 b0 b1 = (z0, z1)"
  shows "val128 z0 z1 = (val128 a0 a1 + val128 b0 b1) mod 2 ^ 128"
proof -
  obtain c where 1: "uadd64_carry a1 b1 False = (z1, c)"
    using assms by (auto simp: add128_def split: prod.splits)
  obtain c' where 2: "uadd64_carry a0 b0 c = (z0, c')"
    using assms 1 by (auto simp: add128_def split: prod.splits)
  have "val128 z0 z1 + 2 ^ 128 * of_bool c' = val128 a0 a1 + val128 b0 b1"
    using uadd64_carry_exact [OF 1] uadd64_carry_exact [OF 2] by (cases c; cases c') (simp_all add: val128_def)
  then show ?thesis
    by (rule mod_by_carry [OF val128_less])
qed

lemma sub128_exact:
  assumes "sub128 a0 a1 b0 b1 = (z0, z1)"
  shows "\<exists>b. val128 z0 z1 + val128 b0 b1 = val128 a0 a1 + 2 ^ 128 * of_bool b"
proof -
  obtain c where 1: "usub64_borrow a1 b1 False = (z1, c)"
    using assms by (auto simp: sub128_def split: prod.splits)
  obtain c' where 2: "usub64_borrow a0 b0 c = (z0, c')"
    using assms 1 by (auto simp: sub128_def split: prod.splits)
  have "val128 z0 z1 + val128 b0 b1 = val128 a0 a1 + 2 ^ 128 * of_bool c'"
    using usub64_borrow_exact [OF 1] usub64_borrow_exact [OF 2] by (cases c; cases c') (simp_all add: val128_def)
  then show ?thesis
    by blast
qed

lemma add192_exact:
  assumes "add192 a0 a1 a2 b0 b1 b2 = (z0, z1, z2)"
  shows "val192 z0 z1 z2 = (val192 a0 a1 a2 + val192 b0 b1 b2) mod 2 ^ 192"
proof -
  obtain c where 1: "uadd64_carry a2 b2 False = (z2, c)"
    using assms by (auto simp: add192_def split: prod.splits)
  obtain c' where 2: "uadd64_carry a1 b1 c = (z1, c')"
    using assms 1 by (auto simp: add192_def split: prod.splits)
  obtain c'' where 3: "uadd64_carry a0 b0 c' = (z0, c'')"
    using assms 1 2 by (auto simp: add192_def split: prod.splits)
  have "val192 z0 z1 z2 + 2 ^ 192 * of_bool c'' = val192 a0 a1 a2 + val192 b0 b1 b2"
    using uadd64_carry_exact [OF 1] uadd64_carry_exact [OF 2] uadd64_carry_exact [OF 3]
    by (cases c; cases c'; cases c'') (simp_all add: val192_def val128_def)
  then show ?thesis
    by (rule mod_by_carry [OF val192_less])
qed

lemma mul64To128_exact: "mul64To128 a b = (z0, z1) \<Longrightarrow> val128 z0 z1 = unat a * unat b"
  by (auto simp: mul64To128_def mulu64_exact split: prod.splits)

lemma mul128By64To192_exact:
  assumes "mul128By64To192 a0 a1 b = (z0, z1, z2)"
  shows "val192 z0 z1 z2 = val128 a0 a1 * unat b"
proof -
  obtain m1 where 1: "mul64To128 a1 b = (m1, z2)"
    using assms by (auto simp: mul128By64To192_def split: prod.splits)
  obtain y0 y1 where 2: "mul64To128 a0 b = (y0, y1)"
    by (cases "mul64To128 a0 b")
  have 3: "add128 y0 y1 0 m1 = (z0, z1)"
    using assms 1 2 by (auto simp: mul128By64To192_def split: prod.splits)
  note e = mul64To128_exact [OF 1, unfolded val128_def] mul64To128_exact [OF 2]
  have total: "(val128 y0 y1 + unat m1) * 2 ^ 64 + unat z2 = val128 a0 a1 * unat b"
    using e by (simp add: val128_def algebra_simps)
  have "val128 a0 a1 * unat b < 2 ^ 128 * 2 ^ 64"
    using val128_less [of a0 a1] unat64_less [of b] by (intro mult_strict_mono) simp_all
  then have "val128 y0 y1 + unat m1 < 2 ^ 128"
    using total by simp
  then have "val128 z0 z1 = val128 y0 y1 + unat m1"
    using add128_exact [OF 3] by (simp add: val128_def [of 0])
  then show ?thesis
    using total by (simp add: val192_def)
qed

text \<open>
  The product of two 128-bit numbers as four words is exact: the partial products are summed
  with every carry, and no carry is lost.
\<close>

theorem mul128To256_exact:
  assumes "mul128To256 a0 a1 b0 b1 = (z0, z1, z2, z3)"
  shows "val192 z0 z1 z2 * 2 ^ 64 + unat z3 = val128 a0 a1 * val128 b0 b1"
proof -
  obtain m1 m2 where m: "mul64To128 a1 b0 = (m1, m2)"
    by (cases "mul64To128 a1 b0")
  obtain n1 n2 where n: "mul64To128 a0 b1 = (n1, n2)"
    by (cases "mul64To128 a0 b1")
  obtain y2 y3 where y: "mul64To128 a1 b1 = (y2, y3)"
    by (cases "mul64To128 a1 b1")
  obtain x0 x1 where x: "mul64To128 a0 b0 = (x0, x1)"
    by (cases "mul64To128 a0 b0")
  obtain k0 k1 k2 where k: "add192 0 m1 m2 0 n1 n2 = (k0, k1, k2)"
    by (cases "add192 0 m1 m2 0 n1 n2")
  have z: "add192 k0 k1 k2 x0 x1 y2 = (z0, z1, z2)" "z3 = y3"
    using assms m n y x k by (auto simp: mul128To256_def split: prod.splits)
  note e = mul64To128_exact [OF m] mul64To128_exact [OF n] mul64To128_exact [OF y, unfolded val128_def] mul64To128_exact [OF x]
  have "val192 0 m1 m2 + val192 0 n1 n2 = val128 m1 m2 + val128 n1 n2"
    by (simp add: val192_def val128_def)
  then have k': "val192 k0 k1 k2 = val128 m1 m2 + val128 n1 n2"
    using add192_exact [OF k] val128_less [of m1 m2] val128_less [of n1 n2] by simp
  have total: "(val192 k0 k1 k2 + val192 x0 x1 y2) * 2 ^ 64 + unat y3 = val128 a0 a1 * val128 b0 b1"
    unfolding k' using e by (simp add: val192_def val128_def algebra_simps)
  have "val128 a0 a1 * val128 b0 b1 < 2 ^ 128 * 2 ^ 128"
    using val128_less [of a0 a1] val128_less [of b0 b1] by (intro mult_strict_mono) simp_all
  then have "val192 k0 k1 k2 + val192 x0 x1 y2 < 2 ^ 192"
    using total by simp
  then show ?thesis
    using add192_exact [OF z(1)] total z(2) by simp
qed

theorem mul128To256_exact_witness:
  "mul128To256 1 2 3 4 = (0, 3, 10, 8) \<and> val192 0 3 10 * 2 ^ 64 + unat (8 :: u64) = val128 1 2 * val128 3 4"
proof -
  have run: "mul128To256 1 2 3 4 = (0, 3, 10, 8)"
    by (simp add: mul128To256_def mul64To128_def mulu64_def add192_def uadd64_carry_def uadd64_overflow_def)
  show ?thesis
    using mul128To256_exact [OF run] run by simp
qed

lemma le128_exact: "le128 a0 a1 b0 b1 \<longleftrightarrow> val128 a0 a1 \<le> val128 b0 b1"
  and lt128_exact: "lt128 a0 a1 b0 b1 \<longleftrightarrow> val128 a0 a1 < val128 b0 b1"
  and eq128_exact: "eq128 a0 a1 b0 b1 \<longleftrightarrow> val128 a0 a1 = val128 b0 b1"
proof -
  have lex: "x * 2 ^ 64 + l \<le> y * 2 ^ 64 + m \<longleftrightarrow> x < y \<or> (x = y \<and> l \<le> m)" if "l < 2 ^ 64" "m < 2 ^ 64" for x y l m :: nat
    using that by auto
  have le: "val128 c0 c1 \<le> val128 d0 d1 \<longleftrightarrow> c0 < d0 \<or> (c0 = d0 \<and> c1 \<le> d1)" for c0 c1 d0 d1
    unfolding val128_def using lex [of "unat c1" "unat d1" "unat c0" "unat d0"] unat64_less [of c1] unat64_less [of d1]
    by (simp add: word_less_nat_alt word_le_nat_alt word_unat_eq_iff)
  show "le128 a0 a1 b0 b1 \<longleftrightarrow> val128 a0 a1 \<le> val128 b0 b1"
    by (simp add: le128_def le)
  show "lt128 a0 a1 b0 b1 \<longleftrightarrow> val128 a0 a1 < val128 b0 b1"
    unfolding linorder_not_le [symmetric, of "val128 a0 a1"] le by (auto simp: lt128_def not_le)
  show "eq128 a0 a1 b0 b1 \<longleftrightarrow> val128 a0 a1 = val128 b0 b1"
    unfolding eq_iff [of "val128 a0 a1"] le by (auto simp: eq128_def)
qed

lemma comparisons192_exact:
  "eq192 a0 a1 a2 b0 b1 b2 \<longleftrightarrow> val192 a0 a1 a2 = val192 b0 b1 b2"
  "le192 a0 a1 a2 b0 b1 b2 \<longleftrightarrow> val192 a0 a1 a2 \<le> val192 b0 b1 b2"
  "lt192 a0 a1 a2 b0 b1 b2 \<longleftrightarrow> val192 a0 a1 a2 < val192 b0 b1 b2"
proof -
  have digits: "h * 2 ^ 64 + l < h' * 2 ^ 64 + l' \<longleftrightarrow> h < h' \<or> h = h' \<and> l < l'"
    if "l < 2 ^ 64" "l' < 2 ^ 64" for h l h' l' :: nat
    using that by auto
  have low: "unat x < 2 ^ 64" for x :: u64
    using unat64_less [of x] by simp
  have lt: "val192 a0 a1 a2 < val192 b0 b1 b2 \<longleftrightarrow>
    a0 < b0 \<or> a0 = b0 \<and> (a1 < b1 \<or> a1 = b1 \<and> a2 < b2)" for a0 a1 a2 b0 b1 b2
    unfolding val192_def digits [OF low low] lt128_exact [symmetric] eq128_exact [symmetric]
    by (auto simp: lt128_def eq128_def word_less_nat_alt)
  show "lt192 a0 a1 a2 b0 b1 b2 \<longleftrightarrow> val192 a0 a1 a2 < val192 b0 b1 b2"
    unfolding lt by (auto simp: lt192_def)
  show "le192 a0 a1 a2 b0 b1 b2 \<longleftrightarrow> val192 a0 a1 a2 \<le> val192 b0 b1 b2"
    unfolding not_less [symmetric] lt by (auto simp: le192_def)
  have "x XOR y = 0 \<longleftrightarrow> x = y" for x y :: u64
    by (auto simp: bit_eq_iff bit_xor_iff)
  then have "eq192 a0 a1 a2 b0 b1 b2 \<longleftrightarrow> a0 = b0 \<and> a1 = b1 \<and> a2 = b2"
    by (simp add: eq192_def or_eq_0_iff)
  moreover have "h * 2 ^ 64 + l = h' * 2 ^ 64 + l' \<longleftrightarrow> h = h' \<and> l = l'"
    if "l < 2 ^ 64" "l' < 2 ^ 64" for h l h' l' :: nat
    using digits [OF that, of h h'] digits [OF that(2,1), of h' h] by linarith
  ultimately show "eq192 a0 a1 a2 b0 b1 b2 \<longleftrightarrow> val192 a0 a1 a2 = val192 b0 b1 b2"
    unfolding val192_def using low [of a2] low [of b2]
    by (simp only: eq128_exact [symmetric] eq128_def unsigned_word_eqI conj_assoc word_unat_eq_iff [symmetric])
qed

section \<open>Shifts with a sticky bit\<close>

text \<open>The number shifted right by \<open>c\<close> places, made odd when a bit that was shifted off is set.\<close>

definition sticky :: "nat \<Rightarrow> nat \<Rightarrow> nat" where
  "sticky n c = (let q = n div 2 ^ c in if n mod 2 ^ c = 0 \<or> odd q then q else q + 1)"

lemma and_63_mod: "(x AND 63 :: int) = x mod 64" "(x AND 31 :: int) = x mod 32"
proof -
  have "x AND mask 6 = x mod 2 ^ 6" "x AND mask 5 = x mod 2 ^ 5"
    by (simp_all only: take_bit_eq_mask [symmetric] take_bit_eq_mod)
  then show "x AND 63 = x mod 64" "x AND 31 = x mod 32"
    by (simp_all add: mask_eq_exp_minus_1)
qed

lemma neg_count:
  "0 < c \<Longrightarrow> c < 64 \<Longrightarrow> nat (- int c AND 63) = 64 - c"
  "64 < c \<Longrightarrow> c < 128 \<Longrightarrow> nat (- int c AND 63) = 128 - c"
  "64 \<le> c \<Longrightarrow> c < 128 \<Longrightarrow> nat (int c AND 63) = c - 64"
  "0 < c \<Longrightarrow> c < 32 \<Longrightarrow> nat (- int c AND 31) = 32 - c"
proof -
  have shift: "x mod m = x + m * k" if "0 \<le> x + m * k" "x + m * k < m" for x m k :: int
    using mod_mult_self2 [of x m k] mod_pos_pos_trivial [OF that] by simp
  show "0 < c \<Longrightarrow> c < 64 \<Longrightarrow> nat (- int c AND 63) = 64 - c"
    using shift [of "- int c" 64 1] by (simp add: and_63_mod nat_diff_distrib')
  show "64 < c \<Longrightarrow> c < 128 \<Longrightarrow> nat (- int c AND 63) = 128 - c"
    using shift [of "- int c" 64 2] by (simp add: and_63_mod nat_diff_distrib')
  show "64 \<le> c \<Longrightarrow> c < 128 \<Longrightarrow> nat (int c AND 63) = c - 64"
    using shift [of "int c" 64 "-1"] by (simp add: and_63_mod nat_diff_distrib')
  show "0 < c \<Longrightarrow> c < 32 \<Longrightarrow> nat (- int c AND 31) = 32 - c"
    using shift [of "- int c" 32 1] by (simp add: and_63_mod nat_diff_distrib')
qed

lemma unat_or_flag:
  "unat (w OR of_bool p) = (if p \<and> even (unat w) then Suc (unat w) else unat w)" for w :: "'a::len word"
  unfolding unsigned_or_eq by (cases p) (simp_all add: or_one_eq or_Suc_0_eq)

lemma unat_push64: "n \<le> 64 \<Longrightarrow> unat (push_bit n w) = unat w mod 2 ^ (64 - n) * 2 ^ n" for w :: u64
proof -
  assume n: "n \<le> 64"
  have "unat (push_bit n w) = unat w * 2 ^ n mod 2 ^ 64"
    unfolding unsigned_push_bit_eq by (simp add: push_bit_eq_mult take_bit_eq_mod)
  also have "(2 :: nat) ^ 64 = 2 ^ (64 - n) * 2 ^ n"
    using n by (simp flip: power_add)
  finally show ?thesis
    by (simp only: mod_mult_mult2)
qed

lemma push_nonzero: "n \<le> 64 \<Longrightarrow> push_bit n w \<noteq> 0 \<longleftrightarrow> unat w mod 2 ^ (64 - n) \<noteq> 0" for w :: u64
  using unat_push64 [of n w] by (auto simp: unat_eq_0 [symmetric])

lemma unat_middle:
  fixes h l :: u64
  assumes "0 < c" "c < 64"
  shows "unat (push_bit (64 - c) h OR drop_bit c l) = unat h mod 2 ^ c * 2 ^ (64 - c) + unat l div 2 ^ c"
proof -
  have less: "unat (drop_bit c l) < 2 ^ (64 - c)"
    using unat64_less [of l] assms by (simp add: unat_drop_bit less_mult_imp_div_less flip: power_add)
  have "unat (take_bit c h) * 2 ^ (64 - c) + unat (drop_bit c l) < (unat (take_bit c h) + 1) * 2 ^ (64 - c)"
    using less by simp
  also have "\<dots> \<le> 2 ^ c * 2 ^ (64 - c)"
    by (intro mult_right_mono) (simp_all add: unat_take_bit Suc_leI)
  also have "\<dots> = 2 ^ 64"
    using assms by (simp flip: power_add)
  finally have "unat (push_bit (64 - c) (take_bit c h) OR drop_bit c l) = unat (take_bit c h) * 2 ^ (64 - c) + unat (drop_bit c l)"
    using less by (intro unat_concat) simp_all
  moreover have "push_bit (64 - c) (take_bit c h) = push_bit (64 - c) h"
    using assms by (intro bit_word_eqI) (auto simp: bit_simps)
  ultimately show ?thesis
    by (simp add: unat_take_bit unat_drop_bit)
qed

lemma scale_split: "q * m + r = (h :: nat) \<Longrightarrow> h * k = q * (k * m) + r * k"
  by (auto simp: algebra_simps)

lemma val128_shift_short:
  assumes "0 < c" "c < 64"
  shows "val128 h l div 2 ^ c = unat h div 2 ^ c * 2 ^ 64 + (unat h mod 2 ^ c * 2 ^ (64 - c) + unat l div 2 ^ c)"
    and "val128 h l mod 2 ^ c = unat l mod 2 ^ c"
proof -
  have two64: "(2 :: nat) ^ 64 = 2 ^ (64 - c) * 2 ^ c"
    using assms by (simp flip: power_add)
  have split: "val128 h l = (unat h * 2 ^ (64 - c)) * 2 ^ c + unat l"
    unfolding val128_def two64 by (simp only: mult.assoc)
  show "val128 h l mod 2 ^ c = unat l mod 2 ^ c"
    unfolding split by simp
  have "val128 h l div 2 ^ c = unat h * 2 ^ (64 - c) + unat l div 2 ^ c"
    unfolding split by simp
  also have "unat h * 2 ^ (64 - c) = unat h div 2 ^ c * (2 ^ (64 - c) * 2 ^ c) + unat h mod 2 ^ c * 2 ^ (64 - c)"
    by (rule scale_split) (rule div_mult_mod_eq)
  finally show "val128 h l div 2 ^ c = unat h div 2 ^ c * 2 ^ 64 + (unat h mod 2 ^ c * 2 ^ (64 - c) + unat l div 2 ^ c)"
    unfolding two64 by (simp only: add.assoc)
qed

lemma val128_shift_long:
  assumes "64 \<le> c"
  shows "val128 h l div 2 ^ c = unat h div 2 ^ (c - 64)"
    and "val128 h l mod 2 ^ c = unat h mod 2 ^ (c - 64) * 2 ^ 64 + unat l"
proof -
  have c: "(2 :: nat) ^ c = 2 ^ 64 * 2 ^ (c - 64)"
    using assms by (metis le_add_diff_inverse power_add)
  have "val128 h l div 2 ^ 64 = unat h"
    using unat64_less [of l] by (simp add: val128_def)
  moreover have "val128 h l mod 2 ^ 64 = unat l"
    using unat64_less [of l] by (simp add: val128_def)
  ultimately show "val128 h l div 2 ^ c = unat h div 2 ^ (c - 64)"
    "val128 h l mod 2 ^ c = unat h mod 2 ^ (c - 64) * 2 ^ 64 + unat l"
    unfolding c by (simp_all add: div_mult2_eq mod_mult2_eq)
qed

text \<open>A shifted number with a flag in its lowest bit.\<close>

lemma stickyI:
  assumes "unat w = n div 2 ^ c" and "p \<longleftrightarrow> n mod 2 ^ c \<noteq> 0"
  shows "unat (w OR of_bool p) = sticky n c"
  using assms by (auto simp: unat_or_flag sticky_def Let_def)

lemma shift64RightJamming_sticky: "unat (shift64RightJamming a (int c)) = sticky (unat a) c"
proof -
  consider "c = 0" | "0 < c" "c < 64" | "64 \<le> c"
    by linarith
  then show ?thesis
  proof cases
    case 2
    have "unat (drop_bit c a OR of_bool (push_bit (64 - c) a \<noteq> 0)) = sticky (unat a) c"
      using 2 push_nonzero [of "64 - c" a] by (intro stickyI) (simp_all add: unat_drop_bit)
    then show ?thesis
      using 2 by (simp add: shift64RightJamming_def neg_count)
  next
    case 3
    have "unat a < 2 ^ c"
      using unat64_less [of a] power_increasing [OF 3, of "2 :: nat"] by simp
    then show ?thesis
      using 3 by (simp add: shift64RightJamming_def sticky_def unat_eq_0)
  qed (simp_all add: shift64RightJamming_def sticky_def)
qed

lemma shift128Right_exact:
  assumes "shift128Right a0 a1 (int c) = (z0, z1)"
  shows "val128 z0 z1 = val128 a0 a1 div 2 ^ c"
proof -
  consider "c = 0" | "0 < c" "c < 64" | "64 \<le> c" "c < 128" | "128 \<le> c"
    by linarith
  then show ?thesis
  proof cases
    case 2
    then have "z0 = drop_bit c a0" "z1 = push_bit (64 - c) a0 OR drop_bit c a1"
      using assms by (simp_all add: shift128Right_def neg_count Let_def)
    then show ?thesis
      using unat_middle [OF 2] val128_shift_short(1) [OF 2] by (simp add: val128_def [of z0] val128_def [of "drop_bit c a0"] val128_def [of 0] unat_drop_bit)
  next
    case 3
    then have "z0 = 0" "z1 = drop_bit (c - 64) a0"
      using assms by (simp_all add: shift128Right_def neg_count Let_def)
    then show ?thesis
      using val128_shift_long(1) [OF 3(1)] by (simp add: val128_def [of z0] val128_def [of "drop_bit c a0"] val128_def [of 0] unat_drop_bit)
  next
    case 4
    have "val128 a0 a1 < 2 ^ c"
      using val128_less [of a0 a1] power_increasing [OF 4, of "2 :: nat"] by simp
    then show ?thesis
      using assms 4 by (auto simp: shift128Right_def val128_def [of 0])
  qed (use assms in \<open>simp add: shift128Right_def\<close>)
qed

text \<open>A left shift drops the bits above the pair; the short and the general one agree below 64.\<close>

lemma shift128Left_exact:
  assumes "shift128Left a0 a1 (int c) = (z0, z1)" and "c < 128"
  shows "val128 z0 z1 = val128 a0 a1 * 2 ^ c mod 2 ^ 128"
proof -
  consider "c = 0" | "0 < c" "c < 64" | "64 \<le> c"
    by linarith
  then show ?thesis
  proof cases
    case 1
    then show ?thesis
      using assms(1) val128_less [of a0 a1] by (simp add: shift128Left_def)
  next
    case 2
    define m where "m = (2 :: nat) ^ (64 - c)"
    have m: "(2 :: nat) ^ 64 = m * 2 ^ c"
      using 2 by (simp add: m_def flip: power_add)
    have "z0 = push_bit c a0 OR drop_bit (64 - c) a1" "z1 = push_bit c a1"
      using assms(1) 2 by (simp_all add: shift128Left_def neg_count)
    then have z: "unat z0 = unat a0 mod m * 2 ^ c + unat a1 div m" "unat z1 = unat a1 mod m * 2 ^ c"
      using unat_middle [of "64 - c" a0 a1] unat_push64 [of c a1] 2 by (simp_all add: m_def)
    have "(unat a0 div m * m + unat a0 mod m) * (m * 2 ^ c * 2 ^ c) + (unat a1 div m * m + unat a1 mod m) * 2 ^ c =
      (unat a0 mod m * 2 ^ c + unat a1 div m) * (m * 2 ^ c) + unat a1 mod m * 2 ^ c + (m * 2 ^ c * (m * 2 ^ c)) * (unat a0 div m)"
      by (simp only: algebra_simps)
    then have "val128 z0 z1 + (2 ^ 64 * 2 ^ 64) * (unat a0 div m) = val128 a0 a1 * 2 ^ c"
      unfolding val128_def z m by (simp only: div_mult_mod_eq add_mult_distrib mult.assoc)
    then show ?thesis
      using val128_less [of z0 z1] by (intro mod_by_carry [of _ _ "unat a0 div m"]) simp_all
  next
    case 3
    define d where "d = c - 64"
    have c: "c = d + 64" and d: "d \<le> 64"
      using 3 assms(2) by (simp_all add: d_def)
    have "z0 = push_bit d a1" "z1 = 0"
      using assms(1) 3 by (simp_all add: shift128Left_def d_def nat_diff_distrib)
    then have z: "unat z0 = unat a1 mod 2 ^ (64 - d) * 2 ^ d" "unat z1 = 0"
      using unat_push64 [OF d] by simp_all
    have two: "(2 :: nat) ^ 64 = 2 ^ (64 - d) * 2 ^ d"
      using d by (simp flip: power_add)
    have "unat a1 * 2 ^ d = unat a1 div 2 ^ (64 - d) * (2 ^ d * 2 ^ (64 - d)) + unat a1 mod 2 ^ (64 - d) * 2 ^ d"
      by (rule scale_split) (rule div_mult_mod_eq)
    then have "unat a1 * 2 ^ d = unat a1 mod 2 ^ (64 - d) * 2 ^ d + 2 ^ 64 * (unat a1 div 2 ^ (64 - d))"
      unfolding two by (simp only: ac_simps)
    then have "val128 z0 z1 + 2 ^ 64 * 2 ^ 64 * (unat a1 div 2 ^ (64 - d) + unat a0 * 2 ^ d) = val128 a0 a1 * 2 ^ c"
      by (simp add: val128_def z c power_add algebra_simps)
    then show ?thesis
      using val128_less [of z0 z1] by (intro mod_by_carry [of _ _ "unat a1 div 2 ^ (64 - d) + unat a0 * 2 ^ d"]) simp_all
  qed
qed

lemma shortShift128Left_eq: "count < 64 \<Longrightarrow> shortShift128Left a0 a1 count = shift128Left a0 a1 count"
  by (simp add: shortShift128Left_def shift128Left_def)

text \<open>The sticky bit of the low word is the sticky bit of the pair.\<close>

lemma sticky_pair:
  assumes "unat z0 * 2 ^ 64 + unat w = n div 2 ^ c" and "p \<longleftrightarrow> n mod 2 ^ c \<noteq> 0"
  shows "val128 z0 (w OR of_bool p) = sticky n c"
proof -
  have "even (n div 2 ^ c) \<longleftrightarrow> even (unat w)"
    unfolding assms(1) [symmetric] by simp
  then show ?thesis
    using assms by (auto simp: val128_def unat_or_flag sticky_def Let_def)
qed

text \<open>
  Shifting a 128-bit significand right by any count gives the quotient by the power of two with
  its lowest bit set when a nonzero bit is shifted off, also when the count exceeds 64 or 128.
\<close>

theorem shift128RightJamming_sticky:
  assumes "shift128RightJamming a0 a1 (int c) = (z0, z1)"
  shows "val128 z0 z1 = sticky (val128 a0 a1) c"
proof -
  consider "c = 0" | "0 < c" "c < 64" | "c = 64" | "64 < c" "c < 128" | "128 \<le> c"
    by linarith
  then show ?thesis
  proof cases
    case 1
    then show ?thesis
      using assms by (simp add: shift128RightJamming_def sticky_def)
  next
    case 2
    then have "shift128RightJamming a0 a1 (int c) =
      (drop_bit c a0, (push_bit (64 - c) a0 OR drop_bit c a1) OR of_bool (push_bit (64 - c) a1 \<noteq> 0))"
      by (simp add: shift128RightJamming_def neg_count Let_def or.assoc del: push_bit_eq_0_iff of_bool_eq_iff)
    then have z: "z0 = drop_bit c a0" "z1 = (push_bit (64 - c) a0 OR drop_bit c a1) OR of_bool (push_bit (64 - c) a1 \<noteq> 0)"
      using assms by auto
    show ?thesis
      unfolding z(2)
    proof (rule sticky_pair)
      show "unat z0 * 2 ^ 64 + unat (push_bit (64 - c) a0 OR drop_bit c a1) = val128 a0 a1 div 2 ^ c"
        using unat_middle [OF 2] val128_shift_short(1) [OF 2] by (simp add: z(1) unat_drop_bit)
      show "push_bit (64 - c) a1 \<noteq> 0 \<longleftrightarrow> val128 a0 a1 mod 2 ^ c \<noteq> 0"
        using 2 push_nonzero [of "64 - c" a1] val128_shift_short(2) [OF 2] by simp
    qed
  next
    case 3
    then have z: "z0 = 0" "z1 = a0 OR of_bool (a1 \<noteq> 0)"
      using assms by (simp_all add: shift128RightJamming_def)
    show ?thesis
      unfolding z(2) using val128_shift_long [of 64 a0 a1] 3 by (intro sticky_pair) (simp_all add: z(1) unat_eq_0)
  next
    case 4
    then have "shift128RightJamming a0 a1 (int c) =
      (0, drop_bit (c - 64) a0 OR of_bool (push_bit (128 - c) a0 OR a1 \<noteq> 0))"
      by (simp add: shift128RightJamming_def neg_count Let_def)
    then have z: "z0 = 0" "z1 = drop_bit (c - 64) a0 OR of_bool (push_bit (128 - c) a0 OR a1 \<noteq> 0)"
      using assms by auto
    have "push_bit (128 - c) a0 OR a1 \<noteq> 0 \<longleftrightarrow> push_bit (128 - c) a0 \<noteq> 0 \<or> a1 \<noteq> 0"
      by (metis or_eq_0_iff)
    then have "push_bit (128 - c) a0 OR a1 \<noteq> 0 \<longleftrightarrow> val128 a0 a1 mod 2 ^ c \<noteq> 0"
      using push_nonzero [of "128 - c" a0] val128_shift_long(2) [of c a0 a1] 4 by (auto simp: unat_eq_0)
    then show ?thesis
      unfolding z(2) using val128_shift_long(1) [of c a0 a1] 4 by (intro sticky_pair) (simp_all add: z(1) unat_drop_bit)
  next
    case 5
    have less: "val128 a0 a1 < 2 ^ c"
      using val128_less [of a0 a1] power_increasing [OF 5, of "2 :: nat"] by simp
    have "a0 OR a1 \<noteq> 0 \<longleftrightarrow> a0 \<noteq> 0 \<or> a1 \<noteq> 0"
      by (metis or_eq_0_iff)
    then have "a0 OR a1 \<noteq> 0 \<longleftrightarrow> val128 a0 a1 \<noteq> 0"
      by (auto simp: val128_def unat_eq_0)
    then show ?thesis
      using assms 5 less by (auto simp: shift128RightJamming_def sticky_def val128_def [of 0])
  qed
qed

theorem shift128RightJamming_sticky_witness:
  "shift128RightJamming 5 1 (int 65) = (0, 3) \<and> val128 0 3 = sticky (val128 5 1) 65"
proof -
  have "shift128RightJamming 5 1 (int 65) = (0, 3)"
    by (simp add: shift128RightJamming_def)
  with shift128RightJamming_sticky [OF this] show ?thesis
    by simp
qed

section \<open>The quotient estimate\<close>

text \<open>One digit of the estimate: at most two above the exact digit, and saturated at 32 bits.\<close>

definition estimate_digit :: "u64 \<Rightarrow> u64 \<Rightarrow> u64" where
  "estimate_digit n b = (if push_bit 32 (drop_bit 32 b) \<le> n then 0xFFFFFFFF else n div drop_bit 32 b)"

lemma unat_high_low:
  "unat (push_bit 32 (drop_bit 32 b)) = unat b div 2 ^ 32 * 2 ^ 32"
  "unat (push_bit 32 b) = unat b mod 2 ^ 32 * 2 ^ 32" for b :: u64
proof -
  have "unat b div 2 ^ 32 < 2 ^ 32"
    using unat64_less [of b] by (intro less_mult_imp_div_less) simp
  then show "unat (push_bit 32 (drop_bit 32 b)) = unat b div 2 ^ 32 * 2 ^ 32"
    using unat_push64 [of 32 "drop_bit 32 b"] by (simp add: unat_drop_bit)
  show "unat (push_bit 32 b) = unat b mod 2 ^ 32 * 2 ^ 32"
    using unat_push64 [of 32 b] by simp
qed

lemma estimate_digit_bounds:
  assumes "2 ^ 63 \<le> unat b" and "n < b" and "x < 2 ^ 32"
  defines "q \<equiv> (unat n * 2 ^ 32 + x) div unat b"
  shows "q \<le> unat (estimate_digit n b)" and "unat (estimate_digit n b) \<le> q + 2" and "unat (estimate_digit n b) < 2 ^ 32"
proof -
  define b0 where "b0 = unat b div 2 ^ 32"
  have "(2 :: nat) ^ 63 div 2 ^ 32 \<le> b0"
    unfolding b0_def by (intro div_le_mono assms)
  then have b0: "2 ^ 32 \<le> 2 * b0"
    by simp
  have n: "unat n < unat b"
    using assms(2) by (simp add: word_less_nat_alt)
  have split: "unat b = b0 * 2 ^ 32 + unat b mod 2 ^ 32"
    unfolding b0_def by (rule div_mult_mod_eq [symmetric])
  note digit = digit_estimate [OF split _ b0 n assms(3), folded q_def]
  have q: "q < 2 ^ 32"
    unfolding q_def by (rule digit_quotient_less [OF n assms(3)])
  have d: "q \<le> unat n div b0" "unat n div b0 \<le> q + 2"
    using digit(1,2) by simp_all
  have "q \<le> unat (estimate_digit n b) \<and> unat (estimate_digit n b) \<le> q + 2 \<and> unat (estimate_digit n b) < 2 ^ 32"
  proof (cases "b0 * 2 ^ 32 \<le> unat n")
    case True
    have "0 < b0"
      using b0 by simp
    then have "b0 * 2 ^ 32 div b0 \<le> unat n div b0"
      using True by (intro div_le_mono)
    then have "2 ^ 32 \<le> q + 2"
      using d \<open>0 < b0\<close> by simp
    moreover have "estimate_digit n b = 0xFFFFFFFF"
      using True by (simp add: estimate_digit_def word_le_nat_alt unat_high_low(1) b0_def)
    ultimately show ?thesis
      using q by simp
  next
    case False
    then have e: "unat (estimate_digit n b) = unat n div b0"
      by (simp add: estimate_digit_def word_le_nat_alt unat_high_low(1) b0_def unat_div unat_drop_bit)
    have "unat n div b0 < 2 ^ 32"
      using False by (intro less_mult_imp_div_less) (simp add: mult.commute)
    then show ?thesis
      using d e by simp
  qed
  then show "q \<le> unat (estimate_digit n b)" "unat (estimate_digit n b) \<le> q + 2" "unat (estimate_digit n b) < 2 ^ 32"
    by simp_all
qed

lemma sint_negative: "sint (r0 :: u64) < 0 \<longleftrightarrow> 2 ^ 127 \<le> val128 r0 r1"
proof -
  have "sint r0 < 0 \<longleftrightarrow> bit r0 63"
    using bit_last_iff [of r0] by simp
  also have "\<dots> \<longleftrightarrow> 2 ^ 63 \<le> unat r0"
  proof -
    have "bit r0 63 = odd (unat r0 div 2 ^ 63)"
      using bit_unsigned_iff [where ?'a = nat, of r0 63] by (simp add: bit_iff_odd [of "unat r0"])
    moreover have "unat r0 div 2 ^ 63 < 2"
      using unat64_less [of r0] by (intro less_mult_imp_div_less) simp
    then have "unat r0 div 2 ^ 63 = 0 \<or> unat r0 div 2 ^ 63 = 1"
      by linarith
    moreover have "unat r0 div 2 ^ 63 = 0 \<longleftrightarrow> unat r0 < 2 ^ 63"
      by (simp add: div_eq_0_iff)
    ultimately show ?thesis
      by (metis dvd_0_right leD linorder_le_less_linear odd_one)
  qed
  also have "\<dots> \<longleftrightarrow> 2 ^ 127 \<le> val128 r0 r1"
    using unat64_less [of r1] unfolding val128_def by (simp, linarith)
  finally show ?thesis .
qed

lemma val128_scaled: "val128 (drop_bit 32 b) (push_bit 32 b) = unat b * 2 ^ 32"
proof -
  have "unat b * 2 ^ 32 = unat b div 2 ^ 32 * (2 ^ 32 * 2 ^ 32) + unat b mod 2 ^ 32 * 2 ^ 32"
    by (rule scale_split) (rule div_mult_mod_eq)
  then show ?thesis
    by (simp add: val128_def unat_high_low(2) unat_drop_bit)
qed

text \<open>
  The correcting loop adds the divisor back \<^term>\<open>k\<close> times, where \<^term>\<open>k\<close> is the excess
  of the estimated digit \<^term>\<open>q + k\<close>, and then stops.
\<close>

lemma estimate_loop_returns:
  assumes "k \<le> 2" and "v < unat b * 2 ^ 32"
    and "\<exists>c. val128 r0 r1 + k * (unat b * 2 ^ 32) = v + 2 ^ 128 * of_bool c"
    and "unat z = (q + k) * 2 ^ 32"
  shows "\<exists>z' r0' r1'. estimate_loop b (drop_bit 32 b) z r0 r1 = Some (z', r0', r1') \<and>
    unat z' = q * 2 ^ 32 \<and> val128 r0' r1' = v"
  using assms
proof (induction k arbitrary: z r0 r1)
  case 0
  have "unat b * 2 ^ 32 < 2 ^ 127"
    using unat64_less [of b] by simp
  moreover have v: "val128 r0 r1 = v"
    using "0.prems"(3) val128_less [of r0 r1] by auto
  ultimately have "\<not> 2 ^ 127 \<le> val128 r0 r1"
    using "0.prems"(2) by linarith
  then show ?case
    using "0.prems"(4) v by (subst estimate_loop.simps) (simp add: sint_negative [of r0 r1])
next
  case (Suc k)
  define m where "m = unat b * 2 ^ 32"
  have m: "m < 2 ^ 96"
    using unat64_less [of b] by (simp add: m_def)
  obtain c where c: "val128 r0 r1 + (m + k * m) = v + 2 ^ 128 * of_bool c"
    using Suc.prems(3) by (auto simp: m_def algebra_simps)
  have km: "k * m \<le> m"
    using Suc.prems(1) by (cases k) simp_all
  have c1: c
    using c Suc.prems(2) unfolding m_def [symmetric] by (cases c) simp_all
  have "val128 r0 r1 + (m + k * m) = v + 2 ^ 128"
    using c c1 by simp
  moreover have "(2 :: nat) ^ 128 = 2 ^ 127 + 2 ^ 127" "2 ^ 96 + 2 ^ 96 \<le> (2 :: nat) ^ 127"
    by simp_all
  ultimately have neg: "sint r0 < 0"
    using m km unfolding sint_negative [of r0 r1] by linarith
  obtain s0 s1 where sum: "add128 r0 r1 (drop_bit 32 b) (push_bit 32 b) = (s0, s1)"
    by fastforce
  have val: "val128 s0 s1 = (val128 r0 r1 + m) mod 2 ^ 128"
    using add128_exact [OF sum] by (simp only: val128_scaled m_def)
  have "\<exists>c. val128 s0 s1 + k * m = v + 2 ^ 128 * of_bool c"
  proof (cases "val128 r0 r1 + m < 2 ^ 128")
    case True
    then show ?thesis
      using val c c1 by (intro exI [of _ True]) simp
  next
    case False
    then have "val128 s0 s1 = val128 r0 r1 + m - 2 ^ 128"
      using val val128_less [of r0 r1] m by (simp add: le_mod_geq)
    then show ?thesis
      using False c c1 by (intro exI [of _ False]) simp
  qed
  moreover have "unat (z - 0x100000000) = (q + k) * 2 ^ 32"
    using Suc.prems(4) by (simp add: unat_sub_if')
  ultimately show ?case
    using Suc.IH [of s0 s1 "z - 0x100000000"] Suc.prems(1,2) neg sum
    by (subst estimate_loop.simps) (simp add: Let_def m_def)
qed

text \<open>
  The first digit: after the loop the quotient word holds the exact high digit, and the remainder
  is what is left of the dividend.
\<close>

lemma estimate_first_digit:
  assumes b: "2 ^ 63 \<le> unat b" and less: "a0 < b"
    and z: "z = push_bit 32 (estimate_digit a0 b)"
    and t: "mul64To128 b z = (t0, t1)" and s: "sub128 a0 a1 t0 t1 = (s0, s1)"
  shows "\<exists>q r z' r0 r1. estimate_loop b (drop_bit 32 b) z s0 s1 = Some (z', r0, r1) \<and>
    unat z' = q * 2 ^ 32 \<and> q < 2 ^ 32 \<and> r < unat b \<and> val128 r0 r1 = r * 2 ^ 32 + unat a1 mod 2 ^ 32 \<and>
    val128 a0 a1 = q * (unat b * 2 ^ 32) + val128 r0 r1"
proof -
  define n where "n = unat a0 * 2 ^ 32 + unat a1 div 2 ^ 32"
  define q r where "q = n div unat b" and "r = n mod unat b"
  define v where "v = r * 2 ^ 32 + unat a1 mod 2 ^ 32"
  define k where "k = unat (estimate_digit a0 b) - q"
  have x: "unat a1 div 2 ^ 32 < 2 ^ 32"
    using unat64_less [of a1] by (intro less_mult_imp_div_less) simp
  note e = estimate_digit_bounds [OF b less x, folded n_def, folded q_def]
  have z': "unat z = (q + k) * 2 ^ 32" "k \<le> 2"
    using e unat_high_low(2) [of "estimate_digit a0 b"] by (simp_all add: z k_def)
  have r: "r < unat b" and v: "v < unat b * 2 ^ 32"
    unfolding v_def r_def using b by (simp, intro digit_bound) simp_all
  have "n = q * unat b + r"
    unfolding q_def r_def by (rule div_mult_mod_eq [symmetric])
  moreover have "val128 a0 a1 = n * 2 ^ 32 + unat a1 mod 2 ^ 32"
    using div_mult_mod_eq [of "unat a1" "2 ^ 32"] by (simp add: val128_def n_def)
  ultimately have A: "val128 a0 a1 = q * (unat b * 2 ^ 32) + v"
    by (simp add: v_def algebra_simps)
  have "val128 t0 t1 = q * (unat b * 2 ^ 32) + k * (unat b * 2 ^ 32)"
    using mul64To128_exact [OF t] by (simp add: z'(1) algebra_simps)
  then have "\<exists>c. val128 s0 s1 + k * (unat b * 2 ^ 32) = v + 2 ^ 128 * of_bool c"
    using sub128_exact [OF s] A by auto
  from estimate_loop_returns [OF z'(2) v this z'(1)] obtain z' r0 r1
    where "estimate_loop b (drop_bit 32 b) z s0 s1 = Some (z', r0, r1)" "unat z' = q * 2 ^ 32"
      and val: "val128 r0 r1 = v"
    by blast
  moreover have "q < 2 ^ 32"
    using e(1,3) by linarith
  ultimately show ?thesis
    using r A [folded val] val [unfolded v_def] by blast
qed

text \<open>The second digit is estimated from the remainder and joined below the first.\<close>

lemma estimate_second_digit:
  assumes b: "2 ^ 63 \<le> unat b" and r: "r < unat b" and y: "y < 2 ^ 32"
    and val: "val128 r0 r1 = r * 2 ^ 32 + y" and z: "unat z = q * 2 ^ 32" and q: "q < 2 ^ 32"
  defines "w \<equiv> z OR estimate_digit (push_bit 32 r0 OR drop_bit 32 r1) b"
  shows "q * 2 ^ 32 + val128 r0 r1 div unat b \<le> unat w" and "unat w \<le> q * 2 ^ 32 + val128 r0 r1 div unat b + 2"
proof -
  define n where "n = push_bit 32 r0 OR drop_bit 32 r1"
  have "val128 r0 r1 div 2 ^ 32 = r"
    using y by (simp add: val)
  then have "unat r0 * 2 ^ 32 + unat r1 div 2 ^ 32 = r"
    by (simp add: val128_def)
  moreover from this have "unat r0 < 2 ^ 32"
    using r unat64_less [of b] by simp
  ultimately have n: "unat n = r"
    using unat_middle [of 32 r0 r1] by (simp add: n_def)
  then have "n < b"
    using r by (simp add: word_less_nat_alt)
  note e = estimate_digit_bounds [OF b this y, unfolded n, folded val]
  have "push_bit 32 (word_of_nat q :: u64) = z"
    using z q by (intro word_unat_eq_iff [THEN iffD2]) (simp add: unat_high_low(2) unat_of_nat64)
  moreover have "unat (push_bit 32 (word_of_nat q :: u64) OR estimate_digit n b) =
    unat (word_of_nat q :: u64) * 2 ^ 32 + unat (estimate_digit n b)"
    using e(3) q by (intro unat_concat) (simp_all add: unat_of_nat64)
  ultimately have "unat w = q * 2 ^ 32 + unat (estimate_digit n b)"
    using q by (simp add: w_def n_def unat_of_nat64)
  then show "q * 2 ^ 32 + val128 r0 r1 div unat b \<le> unat w" "unat w \<le> q * 2 ^ 32 + val128 r0 r1 div unat b + 2"
    using e(1,2) by simp_all
qed

text \<open>
  C36. For every divisor with its top bit set the estimate of a 128-by-64-bit quotient returns: the
  correcting loop ends. The value is the exact quotient or exceeds it by at most two, and it is the
  largest 64-bit number when the quotient does not fit.
\<close>

theorem estimateDiv128To64_bounds:
  assumes "2 ^ 63 \<le> unat b"
  shows "\<exists>z. estimateDiv128To64 a0 a1 b = Some z \<and>
    (if a0 < b then val128 a0 a1 div unat b \<le> unat z \<and> unat z \<le> val128 a0 a1 div unat b + 2
     else unat z = 2 ^ 64 - 1)"
proof (cases "a0 < b")
  case True
  define z where "z = push_bit 32 (estimate_digit a0 b)"
  have zeq: "(if push_bit 32 (drop_bit 32 b) \<le> a0 then 0xFFFFFFFF00000000 else push_bit 32 (a0 div drop_bit 32 b)) = z"
    by (simp add: z_def estimate_digit_def)
  obtain t0 t1 where t: "mul64To128 b z = (t0, t1)"
    by fastforce
  obtain s0 s1 where s: "sub128 a0 a1 t0 t1 = (s0, s1)"
    by fastforce
  from estimate_first_digit [OF assms True z_def t s] obtain q r z' r0 r1
    where loop: "estimate_loop b (drop_bit 32 b) z s0 s1 = Some (z', r0, r1)"
      and f: "unat z' = q * 2 ^ 32" "q < 2 ^ 32" "r < unat b" "val128 r0 r1 = r * 2 ^ 32 + unat a1 mod 2 ^ 32"
        "val128 a0 a1 = q * (unat b * 2 ^ 32) + val128 r0 r1"
    by blast
  have "\<not> b \<le> a0"
    using True by simp
  then have "estimateDiv128To64 a0 a1 b = Some (z' OR estimate_digit (push_bit 32 r0 OR drop_bit 32 r1) b)"
    unfolding estimateDiv128To64_def Let_def zeq by (simp add: t s loop estimate_digit_def)
  moreover have "val128 a0 a1 div unat b = q * 2 ^ 32 + val128 r0 r1 div unat b"
  proof -
    have "val128 a0 a1 = unat b * (q * 2 ^ 32) + val128 r0 r1"
      by (simp only: f(5) ac_simps)
    then show ?thesis
      using assms by simp
  qed
  ultimately show ?thesis
    using True estimate_second_digit [OF assms f(3) _ f(4) f(1,2)] by simp
next
  case False
  then show ?thesis
    by (simp add: estimateDiv128To64_def not_less)
qed

theorem estimateDiv128To64_bounds_witness:
  "2 ^ 63 \<le> unat (0x8000000080000001 :: u64) \<and>
   (\<exists>z. estimateDiv128To64 0x7FFFFFFF00000000 5 0x8000000080000001 = Some z \<and>
      val128 0x7FFFFFFF00000000 5 div unat (0x8000000080000001 :: u64) \<le> unat z \<and>
      unat z \<le> val128 0x7FFFFFFF00000000 5 div unat (0x8000000080000001 :: u64) + 2)"
  using estimateDiv128To64_bounds [of "0x8000000080000001" "0x7FFFFFFF00000000" 5] by simp

section \<open>The square root estimate\<close>

lemma adjustment_bound:
  assumes "i < 16"
  shows "unat (sqrtOddAdjustments ! i) \<le> 0xA67" and "unat (sqrtEvenAdjustments ! i) \<le> 0xA2D"
proof -
  have "list_all (\<lambda>x. unat x \<le> 0xA67) sqrtOddAdjustments" "list_all (\<lambda>x. unat x \<le> 0xA2D) sqrtEvenAdjustments"
    "length sqrtOddAdjustments = 16" "length sqrtEvenAdjustments = 16"
    by (simp_all add: sqrtOddAdjustments_def sqrtEvenAdjustments_def)
  then show "unat (sqrtOddAdjustments ! i) \<le> 0xA67" "unat (sqrtEvenAdjustments ! i) \<le> 0xA2D"
    using assms by (simp_all add: list_all_length)
qed

text \<open>The linear approximation from the table, with its bounds for a normalised operand.\<close>

lemma sqrt_first_guess:
  fixes a t k :: u32
  assumes "2 ^ 31 \<le> unat a" and "unat t \<le> 0xA67" and "unat k \<le> 0x8000"
  shows "unat (k + drop_bit 17 a - t) = unat k + unat a div 2 ^ 17 - unat t"
    and "2 ^ 14 \<le> unat a div 2 ^ 17" and "unat a div 2 ^ 17 < 2 ^ 15"
proof -
  have "(2 :: nat) ^ 31 div 2 ^ 17 \<le> unat a div 2 ^ 17"
    by (intro div_le_mono assms)
  then show low: "2 ^ 14 \<le> unat a div 2 ^ 17"
    by simp
  show high: "unat a div 2 ^ 17 < 2 ^ 15"
    using unat32_less [of a] by (intro less_mult_imp_div_less) simp
  have "unat (k + drop_bit 17 a) = unat k + unat a div 2 ^ 17"
    using assms(3) high by (simp add: unat_word_ariths unat_drop_bit)
  then show "unat (k + drop_bit 17 a - t) = unat k + unat a div 2 ^ 17 - unat t"
    using assms(2) low by (simp add: unat_sub_if')
qed

lemma div_le_bound: "a div z \<le> n" if "a < (n + 1) * z" for a n z :: nat
  using less_mult_imp_div_less [OF that] by simp

lemma sqrt_last_step_returns: "z \<noteq> 0 \<Longrightarrow> \<exists>r. sqrt_last_step a z = Some r"
  using unat_ucast_up [of z, where ?'b = 64] by (auto simp: sqrt_last_step_def div_or_trap_def unat_eq_0 [symmetric])

text \<open>For a normalised operand no division of the estimate is by zero.\<close>

lemma estimateSqrt32_returns:
  assumes "2 ^ 31 \<le> unat a"
  shows "\<exists>r. estimateSqrt32 aExp a = Some r"
proof -
  define i where "i = unat (drop_bit 27 a AND 15)"
  have "i = unat (drop_bit 27 a) mod 16"
    unfolding i_def using unat_and_mask [of "drop_bit 27 a" 4] by (simp add: mask_eq_exp_minus_1)
  then have "i < 16"
    by simp
  show ?thesis
  proof (cases "aExp AND 1 = 0")
    case False
    define z where "z = 0x4000 + drop_bit 17 a - sqrtOddAdjustments ! i"
    have z: "unat z = 0x4000 + unat a div 2 ^ 17 - unat (sqrtOddAdjustments ! i)"
      "30105 \<le> unat z" "unat z \<le> 49151"
      using sqrt_first_guess [OF assms, of "sqrtOddAdjustments ! i" "0x4000"] adjustment_bound [OF \<open>i < 16\<close>]
      by (simp_all add: z_def)
    have "unat a div unat z \<le> 142667"
      using z(2) unat32_less [of a] by (intro div_le_bound) simp
    then have "unat (push_bit 14 (a div z) + push_bit 15 z) = unat a div unat z * 2 ^ 14 + unat z * 2 ^ 15"
      using z(3) by (simp add: push_bit_eq_mult unat_word_ariths unat_div)
    then have "push_bit 14 (a div z) + push_bit 15 z \<noteq> 0"
      using z(2) by (auto simp: unat_eq_0 [symmetric])
    moreover have "z \<noteq> 0"
      using z(2) by auto
    ultimately show ?thesis
      unfolding estimateSqrt32_def Let_def i_def [symmetric] z_def [symmetric]
      using False sqrt_last_step_returns by (simp add: div_or_trap_def)
  next
    case True
    define z where "z = 0x8000 + drop_bit 17 a - sqrtEvenAdjustments ! i"
    have z: "46547 \<le> unat z" "unat z \<le> 65535"
      using sqrt_first_guess [OF assms, of "sqrtEvenAdjustments ! i" "0x8000"] adjustment_bound [OF \<open>i < 16\<close>]
      by (simp_all add: z_def)
    have "unat a div unat z \<le> 92272"
      using z(1) unat32_less [of a] by (intro div_le_bound) simp
    then have s: "unat (a div z + z) = unat a div unat z + unat z"
      using z(2) by (simp add: unat_word_ariths unat_div)
    have "push_bit 15 (a div z + z) \<noteq> 0" if "\<not> 0x20000 \<le> a div z + z"
      using that s z(1) by (auto simp: push_bit_eq_mult unat_word_ariths word_le_nat_alt unat_eq_0 [symmetric])
    moreover have "z \<noteq> 0"
      using z(1) by auto
    ultimately show ?thesis
      unfolding estimateSqrt32_def Let_def i_def [symmetric] z_def [symmetric]
      using True sqrt_last_step_returns by (simp add: div_or_trap_def)
  qed
qed

end
