(* ===== verification/Address_Range.thy ===== *)
theory Address_Range
  imports Host_Utils
begin

text \<open>
  The address ranges of \<^verbatim>\<open>include/qemu/range.h\<close>: a range is a pair of inclusive bounds,
  and an empty range has its lower bound one above the upper one. An operation with an assertion
  returns an option, \<^term>\<open>None\<close> when the assertion fails. The set of a range is the meaning
  against which the operations are proved.
\<close>

section \<open>Operations\<close>

record Range =
  lob :: u64
  upb :: u64

definition range_invariant :: "Range \<Rightarrow> bool" where
  "range_invariant r \<longleftrightarrow> lob r \<le> upb r \<or> lob r = upb r + 1"

text \<open>The range after the assertion of its invariant.\<close>

definition assert_range :: "Range \<Rightarrow> Range option" where
  "assert_range r = (if range_invariant r then Some r else None)"

definition range_empty :: Range where
  "range_empty = \<lparr>lob = 1, upb = 0\<rparr>"

definition range_is_empty :: "Range \<Rightarrow> bool option" where
  "range_is_empty r = (if range_invariant r then Some (upb r < lob r) else None)"

definition range_contains :: "Range \<Rightarrow> u64 \<Rightarrow> bool" where
  "range_contains r val \<longleftrightarrow> lob r \<le> val \<and> val \<le> upb r"

definition range_make_empty :: "Range option" where
  "range_make_empty = (if range_is_empty range_empty = Some True then Some range_empty else None)"

definition range_set_bounds :: "u64 \<Rightarrow> u64 \<Rightarrow> Range option" where
  "range_set_bounds l u =
     (let r = \<lparr>lob = l, upb = u\<rparr> in if range_is_empty r = Some False then Some r else None)"

definition range_set_bounds1 :: "u64 \<Rightarrow> u64 \<Rightarrow> Range option" where
  "range_set_bounds1 l upb_plus1 =
     assert_range (if l = 0 \<and> upb_plus1 = 0 then range_empty else \<lparr>lob = l, upb = upb_plus1 - 1\<rparr>)"

definition range_lob :: "Range \<Rightarrow> u64 option" where
  "range_lob r = (if range_is_empty r = Some False then Some (lob r) else None)"

definition range_upb :: "Range \<Rightarrow> u64 option" where
  "range_upb r = (if range_is_empty r = Some False then Some (upb r) else None)"

text \<open>The error code of the C library, and the code returned with the range left behind.\<close>

definition ERANGE :: int where
  "ERANGE = 34"

definition range_init :: "Range \<Rightarrow> u64 \<Rightarrow> u64 \<Rightarrow> (int \<times> Range) option" where
  "range_init r l sz =
     (if l + sz < l then Some (- ERANGE, r)
      else map_option (\<lambda>r. (0, r)) (assert_range \<lparr>lob = l, upb = l + sz - 1\<rparr>))"

definition range_init_nofail :: "u64 \<Rightarrow> u64 \<Rightarrow> Range option" where
  "range_init_nofail l sz = assert_range \<lparr>lob = l, upb = l + sz - 1\<rparr>"

definition range_size :: "Range \<Rightarrow> u64" where
  "range_size r = upb r - lob r + 1"

text \<open>The disjunction of the code does not look at the second range when the first is empty.\<close>

definition range_overlaps_range :: "Range \<Rightarrow> Range \<Rightarrow> bool option" where
  "range_overlaps_range r1 r2 =
     Option.bind (range_is_empty r1) (\<lambda>e1. if e1 then Some False else
     Option.bind (range_is_empty r2) (\<lambda>e2. if e2 then Some False else
     Some (\<not> (upb r2 < lob r1 \<or> upb r1 < lob r2))))"

definition range_contains_range :: "Range \<Rightarrow> Range \<Rightarrow> bool option" where
  "range_contains_range r1 r2 =
     Option.bind (range_is_empty r1) (\<lambda>e1. if e1 then Some False else
     Option.bind (range_is_empty r2) (\<lambda>e2. if e2 then Some False else
     Some (lob r1 \<le> lob r2 \<and> upb r2 \<le> upb r1)))"

definition range_extend :: "Range \<Rightarrow> Range \<Rightarrow> Range option" where
  "range_extend r by =
     Option.bind (range_is_empty by) (\<lambda>e. if e then Some r else
     Option.bind (range_is_empty r) (\<lambda>e. if e then Some by else
     let r = (if lob by < lob r then r\<lparr>lob := lob by\<rparr> else r);
         r = (if upb r < upb by then r\<lparr>upb := upb by\<rparr> else r)
     in assert_range r))"

definition range_get_last :: "u64 \<Rightarrow> u64 \<Rightarrow> u64" where
  "range_get_last offset len = offset + len - 1"

definition range_covers_byte :: "u64 \<Rightarrow> u64 \<Rightarrow> u64 \<Rightarrow> bool" where
  "range_covers_byte offset len byte \<longleftrightarrow> offset \<le> byte \<and> byte \<le> range_get_last offset len"

definition ranges_overlap :: "u64 \<Rightarrow> u64 \<Rightarrow> u64 \<Rightarrow> u64 \<Rightarrow> bool" where
  "ranges_overlap first1 len1 first2 len2 =
     (let last1 = range_get_last first1 len1; last2 = range_get_last first2 len2
      in \<not> (last2 < first1 \<or> last1 < first2))"

definition range_get_last_bit :: "Range \<Rightarrow> int option" where
  "range_get_last_bit r =
     map_option (\<lambda>e. if e then -1 else 63 - int (clz64 (upb r))) (range_is_empty r)"

section \<open>Ranges as sets\<close>

definition range_set :: "Range \<Rightarrow> u64 set" where
  "range_set r = {lob r..upb r}"

text \<open>The bytes of an offset and a length, without wrapping.\<close>

definition span :: "u64 \<Rightarrow> u64 \<Rightarrow> u64 set" where
  "span offset len = {v. unat offset \<le> unat v \<and> unat v < unat offset + unat len}"

lemma range_is_empty_set: "range_invariant r \<Longrightarrow> range_is_empty r = Some (range_set r = {})"
  by (simp add: range_is_empty_def range_set_def not_le)

lemma range_set_nonempty [simp]: "range_set r \<noteq> {} \<longleftrightarrow> lob r \<le> upb r"
  by (simp add: range_set_def)

lemma range_overlaps_set:
  assumes "range_invariant r" "range_invariant s"
  shows "range_overlaps_range r s = Some (range_set r \<inter> range_set s \<noteq> {})"
  using assms by (auto simp: range_overlaps_range_def range_is_empty_set range_set_def Int_atLeastAtMost not_le not_less)

lemma range_contains_set:
  assumes "range_invariant r" "range_invariant s"
  shows "range_contains_range r s = Some (range_set s \<noteq> {} \<and> range_set s \<subseteq> range_set r)"
  using assms by (auto simp: range_contains_range_def range_is_empty_set range_set_def)

lemma range_extend_hull:
  assumes "range_invariant r" "range_invariant s"
  shows "\<exists>t. range_extend r s = Some t \<and> range_invariant t \<and> range_set r \<union> range_set s \<subseteq> range_set t \<and>
    (\<forall>a b. range_set r \<union> range_set s \<subseteq> {a..b} \<longrightarrow> range_set t \<subseteq> {a..b})"
proof -
  consider "range_set s = {}" | "range_set s \<noteq> {}" "range_set r = {}" | "lob s \<le> upb s" "lob r \<le> upb r"
    using range_set_nonempty by blast
  then show ?thesis
  proof cases
    case 3
    define t where "t = \<lparr>lob = min (lob r) (lob s), upb = max (upb r) (upb s)\<rparr>"
    have "range_invariant t"
      using 3 by (auto simp: t_def range_invariant_def min_def max_def)
    moreover have "(let r = (if lob s < lob r then r\<lparr>lob := lob s\<rparr> else r);
        r = (if upb r < upb s then r\<lparr>upb := upb s\<rparr> else r) in r) = t"
      by (auto simp: t_def min_def max_def Let_def)
    ultimately have "range_extend r s = Some t"
      using 3 assms by (simp add: range_extend_def range_is_empty_def assert_range_def Let_def not_less)
    moreover have "range_set r \<union> range_set s \<subseteq> range_set t"
      by (auto simp: range_set_def t_def)
    moreover have "range_set t \<subseteq> {a..b}" if "range_set r \<union> range_set s \<subseteq> {a..b}" for a b
      using that 3 by (auto simp: range_set_def t_def)
    ultimately show ?thesis
      using \<open>range_invariant t\<close> by blast
  qed (use assms in \<open>auto simp: range_extend_def range_is_empty_set\<close>)
qed

text \<open>
  The operations on valid ranges implement sets of addresses: emptiness, membership, overlap and
  inclusion are those of the sets, and extending a range gives the smallest interval that holds
  both. No assertion fails and the result is a valid range.
\<close>

theorem range_operations_are_sets:
  assumes "range_invariant r" and "range_invariant s"
  shows "range_is_empty r = Some (range_set r = {}) \<and>
    (range_contains r v \<longleftrightarrow> v \<in> range_set r) \<and>
    range_overlaps_range r s = Some (range_set r \<inter> range_set s \<noteq> {}) \<and>
    range_contains_range r s = Some (range_set s \<noteq> {} \<and> range_set s \<subseteq> range_set r) \<and>
    (\<exists>t. range_extend r s = Some t \<and> range_invariant t \<and> range_set r \<union> range_set s \<subseteq> range_set t \<and>
      (\<forall>a b. range_set r \<union> range_set s \<subseteq> {a..b} \<longrightarrow> range_set t \<subseteq> {a..b}))"
  using range_is_empty_set [OF assms(1)] range_overlaps_set [OF assms] range_contains_set [OF assms]
    range_extend_hull [OF assms] by (simp add: range_contains_def range_set_def)

theorem range_operations_are_sets_witness:
  "range_invariant \<lparr>lob = 4, upb = 9\<rparr> \<and> range_invariant \<lparr>lob = 8, upb = 12\<rparr> \<and>
   range_overlaps_range \<lparr>lob = 4, upb = 9\<rparr> \<lparr>lob = 8, upb = 12\<rparr> =
     Some (range_set \<lparr>lob = 4, upb = 9\<rparr> \<inter> range_set \<lparr>lob = 8, upb = 12\<rparr> \<noteq> {})"
proof -
  have "range_invariant \<lparr>lob = 4, upb = 9\<rparr>" "range_invariant \<lparr>lob = 8, upb = 12\<rparr>"
    by (simp_all add: range_invariant_def)
  with range_operations_are_sets [OF this] show ?thesis
    by blast
qed

section \<open>Ranges from an offset and a length\<close>

lemma last_of_span:
  assumes "0 < unat len" and "unat offset + unat len \<le> 2 ^ 64"
  shows "unat (range_get_last offset len) = unat offset + unat len - 1"
proof (cases "unat offset + unat len = 2 ^ 64")
  case True
  then have "offset + len = 0"
    by (simp add: unat_eq_0 [symmetric] unat_word_ariths)
  then show ?thesis
    using True unat_sub64 [of 0 1] by (simp add: range_get_last_def)
next
  case False
  then have "unat (offset + len) = unat offset + unat len"
    using assms(2) by (simp add: unat_word_ariths)
  then show ?thesis
    using assms(1) by (simp add: range_get_last_def unat_sub_if')
qed

lemma range_covers_byte_span:
  assumes "0 < unat len" and "unat offset + unat len \<le> 2 ^ 64"
  shows "range_covers_byte offset len v \<longleftrightarrow> v \<in> span offset len"
  using assms by (auto simp: range_covers_byte_def span_def word_le_nat_alt last_of_span)

lemma ranges_overlap_span:
  assumes "0 < unat n" "unat x + unat n \<le> 2 ^ 64" "0 < unat m" "unat y + unat m \<le> 2 ^ 64"
  shows "ranges_overlap x n y m \<longleftrightarrow> span x n \<inter> span y m \<noteq> {}"
proof
  assume "ranges_overlap x n y m"
  then have "unat x \<le> unat y + unat m - 1" "unat y \<le> unat x + unat n - 1"
    using assms by (auto simp: ranges_overlap_def word_less_nat_alt last_of_span not_less)
  then have "max x y \<in> span x n \<inter> span y m"
    using assms by (auto simp: span_def max_def word_le_nat_alt)
  then show "span x n \<inter> span y m \<noteq> {}"
    by blast
next
  assume "span x n \<inter> span y m \<noteq> {}"
  then show "ranges_overlap x n y m"
    using assms by (auto simp: ranges_overlap_def span_def word_less_nat_alt last_of_span)
qed

lemma range_init_fails: "l + sz < l \<longleftrightarrow> 2 ^ 64 \<le> unat l + unat sz" for l sz :: u64
  using unat64_less [of l] unat64_less [of sz] unat64_less [of "l + sz"] unat_add64 [of l sz]
  by (cases "2 ^ 64 \<le> unat l + unat sz") (simp_all add: word_less_nat_alt)

lemma init_range_invariant:
  assumes "unat l + unat sz < 2 ^ 64"
  shows "range_invariant \<lparr>lob = l, upb = l + sz - 1\<rparr>"
proof (cases "sz = 0")
  case False
  then have "unat (l + sz - 1) = unat l + unat sz - 1"
    using last_of_span [of sz l] assms by (simp add: range_get_last_def unat_gt_0)
  then show ?thesis
    using False unat_gt_0 [of sz] by (auto simp: range_invariant_def word_le_nat_alt)
qed (simp add: range_invariant_def)

lemma init_range_set:
  assumes "unat l + unat sz < 2 ^ 64"
  shows "range_set \<lparr>lob = l, upb = l + sz - 1\<rparr> = (if l = 0 \<and> sz = 0 then UNIV else span l sz)"
proof -
  consider "l = 0" "sz = 0" | "l \<noteq> 0" "sz = 0" | "sz \<noteq> 0"
    by blast
  then show ?thesis
  proof cases
    case 1
    have "v \<le> - 1" for v :: u64
      by (rule word_n1_ge)
    then show ?thesis
      using 1 by (simp add: range_set_def set_eq_iff)
  next
    case 2
    have "l - 1 < l"
      using 2(1) unat_gt_0 [of l] by (simp add: word_less_nat_alt unat_sub_if')
    then show ?thesis
      using 2 by (simp add: range_set_def span_def set_eq_iff)
  next
    case 3
    have "v \<in> range_set \<lparr>lob = l, upb = l + sz - 1\<rparr> \<longleftrightarrow> v \<in> span l sz" for v
      using range_covers_byte_span [of sz l v] assms 3
      by (simp add: range_set_def range_covers_byte_def range_get_last_def unat_gt_0)
    then show ?thesis
      using 3 by (simp add: set_eq_iff)
  qed
qed

text \<open>
  Initialising a range from an offset and a size fails exactly when their sum does not fit 64
  bits, and otherwise gives the addresses from the offset on. Two boundary cases deviate from the
  comments of the header: a range that ends exactly at the last address is refused, although ranges
  may include it, and the empty range at address zero becomes the range of all addresses.
\<close>

theorem range_init_boundaries:
  "range_init r l sz =
     (if 2 ^ 64 \<le> unat l + unat sz then Some (- ERANGE, r) else Some (0, \<lparr>lob = l, upb = l + sz - 1\<rparr>)) \<and>
   (unat l + unat sz < 2 ^ 64 \<longrightarrow> range_set \<lparr>lob = l, upb = l + sz - 1\<rparr> =
     (if l = 0 \<and> sz = 0 then UNIV else span l sz))"
proof (cases "2 ^ 64 \<le> unat l + unat sz")
  case True
  then show ?thesis
    by (simp add: range_init_def range_init_fails)
next
  case False
  then have "range_init r l sz = Some (0, \<lparr>lob = l, upb = l + sz - 1\<rparr>)"
    using init_range_invariant [of l sz] by (simp add: range_init_def range_init_fails assert_range_def)
  then show ?thesis
    using False init_range_set [of l sz] by simp
qed

theorem range_init_boundaries_witness:
  "range_init range_empty 0 0 = Some (0, \<lparr>lob = 0, upb = - 1\<rparr>) \<and> range_set \<lparr>lob = 0, upb = - 1\<rparr> = UNIV"
  using range_init_boundaries [of range_empty 0 0] by simp

text \<open>An empty range strictly inside another one is reported to overlap it.\<close>

lemma ranges_overlap_empty:
  assumes "unat y < unat x" and "unat x < unat y + unat m" and "unat y + unat m \<le> 2 ^ 64"
  shows "ranges_overlap x 0 y m \<and> span x 0 = {}"
proof -
  have "unat (x - 1) = unat x - 1"
    using assms(1) by (simp add: unat_sub_if')
  then show ?thesis
    using assms last_of_span [of m y]
    by (auto simp: ranges_overlap_def word_less_nat_alt span_def range_get_last_def [of x])
qed

text \<open>The highest bit of a range is the highest bit of any of its addresses.\<close>

lemma range_get_last_bit_bound:
  assumes "range_get_last_bit r = Some n" and "v \<in> range_set r"
  shows "unat v < 2 ^ nat (n + 1)"
proof -
  have le: "lob r \<le> upb r" "unat v \<le> unat (upb r)"
    using assms(2) by (auto simp: range_set_def word_le_nat_alt)
  then have n: "n = 63 - int (clz64 (upb r))"
    using assms(1) by (auto simp: range_get_last_bit_def range_is_empty_def split: if_splits)
  show ?thesis
  proof (cases "upb r = 0")
    case True
    then show ?thesis
      using le by simp
  next
    case False
    then have "nat (n + 1) = 64 - clz64 (upb r)"
      using clz64_spec(1) [of "upb r"] by (simp add: n nat_diff_distrib')
    then show ?thesis
      using clz64_spec(3) [OF False] le(2) by simp
  qed
qed

end
