(* ===== verification/Spec2Isabelle.thy ===== *)
theory Spec2Isabelle
  imports Softfloat_Arith Win_Helper Op_Helper Cpu_Helper Mx_Pic Esp32s3_Clk
    Cpu_Exclusive Cpu_Work Xtensa_Isa_Correct Int128 Softfloat_Macros Address_Range
begin

text \<open>
  \<^bold>\<open>The C sources of the ESP32-S3 emulator.\<close>

  The repository has a set of C sources beside the emulator proper: the soft-float routines of its boot ROM
  (\<^verbatim>\<open>tools/softfloat.c\<close>) and the reference emulator
  (\<^verbatim>\<open>tools/qemu-ref\<close>), whose Xtensa CPU, interrupt controllers and CPU scheduling are
  verified here. All paths below are relative to \<^verbatim>\<open>tools/qemu-ref\<close> unless they
  begin with \<^verbatim>\<open>tools\<close>.

  \<^bold>\<open>How the parts interact.\<close> Translated guest code calls the helpers of
  \<^verbatim>\<open>target/xtensa\<close> on the CPU state. Peripherals raise lines of the interrupt matrix or
  of the multi-core distributor, which set bits of INTSET through the on-core controller; the
  execution loop then takes the pending interrupt through the exception vectors. Memory accesses go through the
  TLB, MMU or MPU of the CPU. Each CPU runs in a thread of its own; threads stop each other with
  exclusive sections and pass each other work items.

  \<^bold>\<open>Conventions.\<close> C unsigned integers are machine words of their width, so
  that arithmetic wraps around as in C; arrays are functions of their index. A structure is a record, and an
  operation takes the state and returns the new one. A helper that may leave through
  \<^verbatim>\<open>cpu_loop_exit\<close> or fail an assertion returns an \<^verbatim>\<open>outcome\<close>
  (theory Prelude). Calls of code outside of the repository are recorded in the field
  \<^verbatim>\<open>calls\<close> of the CPU state, or are arguments of the definitions. Loops are structural
  recursions over the values that remain. The two loops whose end is not evident from their form, the processing of
  queued work and the correction of an estimated quotient, are partial functions into options, with proofs that
  they return, the second for the divisors that the code requires, those with the top bit set.

  \<^bold>\<open>Theories.\<close>

  \<^item> Prelude: integer types, bit fields (\<^verbatim>\<open>include/qemu/bitops.h\<close>,
    \<^verbatim>\<open>host-utils.h\<close>), results of helpers, shared lemmas on words.
  \<^item> Host_Utils (\<^verbatim>\<open>include/qemu/host-utils.h\<close>, \<^verbatim>\<open>bswap.h\<close>): wide products and
    quotients, carries, bit reversal, powers of two, against arithmetic on natural numbers.
  \<^item> Int128 (\<^verbatim>\<open>include/qemu/int128.h\<close>): 128-bit integers of two 64-bit halves, as a refinement
    of 128-bit words.
  \<^item> Softfloat_Macros (\<^verbatim>\<open>include/fpu/softfloat-macros.h\<close>): arithmetic on two to four 64-bit
    words, sticky shifts, and the estimates of a quotient and a square root with their error bounds.
  \<^item> Address_Range (\<^verbatim>\<open>include/qemu/range.h\<close>): ranges of addresses as sets of
    addresses, with the boundary cases at both ends of the address space.
  \<^item> Softfloat, Softfloat_Arith (\<^verbatim>\<open>tools/softfloat.c\<close>): comparisons, packing
    and rounding, conversions, the arithmetic routines. The lemmas show which routines implement the IEEE operations and
    where others deviate from them.
  \<^item> Xtensa_Cpu, Config_Esp32s3 (\<^verbatim>\<open>cpu.h\<close>, \<^verbatim>\<open>overlay_tool.h\<close>,
    \<^verbatim>\<open>core-esp32s3\<close>): the CPU state, its inline functions and the configuration of
    the ESP32-S3 core, whose interrupt tables are shown to agree.
  \<^item> Pic_Cpu (\<^verbatim>\<open>hw/xtensa/pic_cpu.c\<close>): INTSET and the choice of the pending level.
  \<^item> Exc_Helper (\<^verbatim>\<open>exc_helper.c\<close>): exceptions, \<^verbatim>\<open>waiti\<close>,
    interrupts; delivery of interrupts with the state saved, no lost wake-up.
  \<^item> Win_Helper (\<^verbatim>\<open>win_helper.c\<close>): the windowed register file, as a refinement of an
    abstract register file; calls preserve the registers of the caller; overflow and underflow are transparent.
  \<^item> Mmu_Helper, Mmu_Correct (\<^verbatim>\<open>mmu_helper.c\<close>): TLBs, page-table refill,
    region protection, MPU. Lookups agree with the matching entries, written entries translate, changed entries are
    flushed, every address has a segment of the MPU.
  \<^item> Op_Helper (\<^verbatim>\<open>op_helper.c\<close>, \<^verbatim>\<open>include/hw/clock.h\<close>): cycle
    counter, compare timers, exclusive stores, MEMCTL.
  \<^item> Dbg_Helper (\<^verbatim>\<open>dbg_helper.c\<close>, the breakpoints of
    \<^verbatim>\<open>cpu-common.c\<close>): breakpoint lists against breakpoint registers; the locale of
    breakpoint stores is the contract between the two.
  \<^item> Cpu_Helper (\<^verbatim>\<open>helper.c\<close>, \<^verbatim>\<open>cpu.c\<close>): handlers of the
    CPU class and reset, with the reset of a CPU by the ESP32-S3 machine
    (\<^verbatim>\<open>hw/xtensa/esp32s3.c\<close>), which selects the base of its vectors.
  \<^item> Mx_Pic (\<^verbatim>\<open>hw/xtensa/mx_pic.c\<close>): the multi-core distributor; its lines follow the
    values last written to its registers.
  \<^item> Esp32s3_Intc, Esp32s3_Clk (\<^verbatim>\<open>hw/xtensa/esp32s3_intc.c\<close>,
    \<^verbatim>\<open>esp32s3_clk.c\<close>): the interrupt matrix and the cross-core interrupt registers;
    the properties compose them with the on-core controller up to the pending interrupt.
  \<^item> Cpu_Exclusive (\<^verbatim>\<open>cpu-common.c\<close>): exclusive sections as a transition system of
    CPU threads; mutual exclusion and absence of deadlock.
  \<^item> Cpu_Work (\<^verbatim>\<open>cpu-common.c\<close>): the list of CPUs and queued work. The index of a
    CPU is a C integer that wraps around, so the lemmas on indices bound the number of CPUs ever added.
  \<^item> Xtensa_Isa, Xtensa_Isa_Correct (\<^verbatim>\<open>target/xtensa/xtensa-isa.c\<close>): the library of instruction
    tables: names, formats, operands, pipeline use. The register operands of the ESP32-S3 tables
    instantiate the properties of operands.

  \<^bold>\<open>Not modelled.\<close> The instruction translator and its ESP32-S3 extension emit code through an
  interface whose implementation is not in the repository, as are the object model, the memory
  API, timers and the softfloat library that other files only call: board set-up, the floating-point helpers,
  the debugger stub, semihosting and the block layer are left out for that reason. The instruction
  tables of the cores are generated; only the register operands are excerpted from them. Host tools and process set-up are input and output only.
\<close>

end
